(* ===== verification/RRD_Prelude.thy ===== *)
theory RRD_Prelude
  imports Main "HOL-Library.Sublist" "HOL-Library.Word"
begin

text \<open>
  Shared vocabulary of the development: the faults a C statement can have, pointers to
  owned heap strings, the part of the C string library the sources use (\<open>strstr\<close>,
  \<open>strchr\<close>, \<open>strtok\<close>, \<open>strncpy\<close>, \<open>snprintf\<close>, the \<open>ctype\<close> tests of the C
  locale) and the generic lemmas on lists that the component theories rest on.

  A C string is a \<open>string\<close> (a list of bytes) without its terminating NUL. A pointer
  that may be NULL is an \<open>option\<close>; a pointer whose ownership matters is a \<open>cptr\<close>.
\<close>

section \<open>Faults and owned pointers\<close>

text \<open>
  \<open>ProcExit\<close> is a call of \<open>exit\<close>; every other fault is undefined behaviour of the C
  abstract machine. \<open>WrongMember\<close> is the use of a union member that was not stored,
  \<open>NoReturn\<close> is a loop that does not end.
\<close>

datatype fault =
    NullDeref
  | UninitRead
  | OutOfBoundsRead
  | BufferOverflow
  | UseAfterFree
  | DoubleFree
  | WrongMember
  | NoReturn
  | ProcExit int

text \<open>A heap pointer: NULL, a live object, or a pointer left dangling by \<open>free\<close>.\<close>

datatype 'a cptr = Null | Own 'a | Dangling

text \<open>\<open>free(p)\<close>: freeing NULL is allowed, freeing twice is a fault.\<close>

fun c_free :: "'a cptr \<Rightarrow> fault + unit" where
  "c_free Dangling = Inl DoubleFree"
| "c_free Null = Inr ()"
| "c_free (Own _) = Inr ()"

text \<open>Reading through a pointer.\<close>

fun c_read :: "'a cptr \<Rightarrow> fault + 'a" where
  "c_read Null = Inl NullDeref"
| "c_read Dangling = Inl UseAfterFree"
| "c_read (Own x) = Inr x"

definition live :: "'a cptr \<Rightarrow> bool" where
  "live p \<longleftrightarrow> p \<noteq> Dangling"

section \<open>Character classes of the C locale\<close>

definition c_isdigit :: "char \<Rightarrow> bool" where
  "c_isdigit c = (let n = (of_char c :: nat) in 48 \<le> n \<and> n \<le> 57)"

definition c_isupper :: "char \<Rightarrow> bool" where
  "c_isupper c = (let n = (of_char c :: nat) in 65 \<le> n \<and> n \<le> 90)"

definition c_islower :: "char \<Rightarrow> bool" where
  "c_islower c = (let n = (of_char c :: nat) in 97 \<le> n \<and> n \<le> 122)"

definition c_isalnum :: "char \<Rightarrow> bool" where
  "c_isalnum c = (c_isdigit c \<or> c_isupper c \<or> c_islower c)"

definition c_isspace :: "char \<Rightarrow> bool" where
  "c_isspace c = (let n = (of_char c :: nat) in n = 32 \<or> (9 \<le> n \<and> n \<le> 13))"

definition c_toupper :: "char \<Rightarrow> char" where
  "c_toupper c = (if c_islower c then char_of ((of_char c :: nat) - 32) else c)"

definition c_tolower :: "char \<Rightarrow> char" where
  "c_tolower c = (if c_isupper c then char_of ((of_char c :: nat) + 32) else c)"

abbreviation QUOTE :: char where
  "QUOTE \<equiv> CHR 0x22"

abbreviation BACKSLASH :: char where
  "BACKSLASH \<equiv> CHR 0x5C"

abbreviation NEWLINE :: char where
  "NEWLINE \<equiv> CHR 0x0A"

abbreviation CARRIAGE_RETURN :: char where
  "CARRIAGE_RETURN \<equiv> CHR 0x0D"

abbreviation TAB :: char where
  "TAB \<equiv> CHR 0x09"

abbreviation NUL :: char where
  "NUL \<equiv> CHR 0x00"

section \<open>String library\<close>

text \<open>\<open>str[i]\<close> for an index up to and including the terminator.\<close>

definition c_at :: "string \<Rightarrow> nat \<Rightarrow> char" where
  "c_at s i = (if i < length s then s ! i else NUL)"

text \<open>\<open>strstr(hay, needle)\<close>: the suffix that starts at the first occurrence.\<close>

fun c_strstr :: "string \<Rightarrow> string \<Rightarrow> string option" where
  "c_strstr [] needle = (if needle = [] then Some [] else None)"
| "c_strstr (c # cs) needle =
     (if prefix needle (c # cs) then Some (c # cs) else c_strstr cs needle)"

text \<open>The bytes up to the terminating NUL.\<close>

definition c_str :: "string \<Rightarrow> string" where
  "c_str s = takeWhile (\<lambda>c. c \<noteq> NUL) s"

text \<open>\<open>strchr(s, c)\<close>: the suffix that starts at the first \<open>c\<close>.\<close>

fun c_strchr :: "string \<Rightarrow> char \<Rightarrow> string option" where
  "c_strchr [] c = None"
| "c_strchr (x # xs) c = (if x = c then Some (x # xs) else c_strchr xs c)"

text \<open>
  The tokens that a loop of \<open>strtok(s, "d")\<close>, \<open>strtok(NULL, "d")\<close> returns: skip the
  delimiters, take the run of other characters, go on behind it.
\<close>

function c_tokens :: "char \<Rightarrow> string \<Rightarrow> string list" where
  "c_tokens d s =
     (case dropWhile (\<lambda>c. c = d) s of
        [] \<Rightarrow> []
      | c # cs \<Rightarrow> takeWhile (\<lambda>x. x \<noteq> d) (c # cs)
                   # c_tokens d (dropWhile (\<lambda>x. x \<noteq> d) (c # cs)))"
  by pat_completeness auto

termination
proof (relation "measure (\<lambda>(d, s). length s)", simp)
  fix d :: char and s c cs
  assume eq: "dropWhile (\<lambda>c. c = d) s = c # cs"
  then have "c \<noteq> d"
    by (metis (full_types) hd_dropWhile list.distinct(1) list.sel(1))
  then have "length (dropWhile (\<lambda>x. x \<noteq> d) (c # cs)) \<le> length cs"
    by (simp add: length_dropWhile_le)
  moreover have "length (c # cs) \<le> length s"
    using length_dropWhile_le [of "\<lambda>c. c = d" s] eq by simp
  ultimately show "((d, dropWhile (\<lambda>x. x \<noteq> d) (c # cs)), d, s) \<in> measure (\<lambda>(d, s). length s)"
    by simp
qed

declare c_tokens.simps [simp del]

text \<open>
  \<open>strncpy(dst, src, n)\<close> into a zeroed buffer of more than \<open>n\<close> bytes leaves the C
  string \<open>take n src\<close>; \<open>snprintf(dst, n, ...)\<close> leaves the first \<open>n - 1\<close> bytes of the
  formatted text and returns the length the whole text has.
\<close>

definition c_strncpy :: "nat \<Rightarrow> string \<Rightarrow> string" where
  "c_strncpy n src = take n src"

definition c_snprintf :: "nat \<Rightarrow> string \<Rightarrow> string \<times> nat" where
  "c_snprintf n txt = (take (n - 1) txt, length txt)"

definition c_strcasecmp_eq :: "string \<Rightarrow> string \<Rightarrow> bool" where
  "c_strcasecmp_eq s t = (map c_tolower s = map c_tolower t)"

text \<open>
  \<open>fgets(line, n, f)\<close> called until it returns NULL: lines are cut behind each newline
  and after \<open>n - 1\<close> bytes.
\<close>

fun c_fgets_go :: "nat \<Rightarrow> string \<Rightarrow> string \<Rightarrow> string list" where
  "c_fgets_go n acc [] = (if acc = [] then [] else [acc])"
| "c_fgets_go n acc (c # cs) =
     (if c = NEWLINE \<or> Suc (length acc) \<ge> n - 1
      then (acc @ [c]) # c_fgets_go n [] cs
      else c_fgets_go n (acc @ [c]) cs)"

definition c_fgets_all :: "nat \<Rightarrow> string \<Rightarrow> string list" where
  "c_fgets_all n s = c_fgets_go n [] s"

text \<open>\<open>%lu\<close> and \<open>%0w o\<close>: digits of a number in a base, most significant first.\<close>

fun digits_go :: "nat \<Rightarrow> nat \<Rightarrow> nat \<Rightarrow> string" where
  "digits_go 0 b n = []"
| "digits_go (Suc w) b n = digits_go w b (n div b) @ [char_of (48 + n mod b)]"

fun num_digits :: "nat \<Rightarrow> nat \<Rightarrow> nat \<Rightarrow> nat" where
  "num_digits 0 b n = 1"
| "num_digits (Suc fuel) b n = (if n < b then 1 else Suc (num_digits fuel b (n div b)))"

definition c_format_nat :: "nat \<Rightarrow> nat \<Rightarrow> nat \<Rightarrow> string" where
  "c_format_nat minwidth b n = digits_go (max minwidth (num_digits n b n)) b n"

text \<open>The number that a run of digits denotes.\<close>

definition digits_value :: "nat \<Rightarrow> string \<Rightarrow> nat" where
  "digits_value b ds = foldl (\<lambda>n c. n * b + (of_char c - 48)) 0 ds"

section \<open>Automation\<close>

named_theorems fault_simps \<open>unfolding rules for statements that may fault\<close>

lemmas c_class_defs =
  c_isdigit_def c_isupper_def c_islower_def c_isalnum_def c_isspace_def Let_def

section \<open>Lemmas on the string library\<close>

text \<open>
  The library rewrites \<open>dropWhile P xs = []\<close> and \<open>takeWhile P xs = xs\<close> into a bounded
  quantifier; the string proofs need them as equations.
\<close>

declare dropWhile_eq_Nil_conv [simp del] and takeWhile_eq_all_conv [simp del]

lemma takeWhile_all [simp]: "\<forall>x \<in> set xs. P x \<Longrightarrow> takeWhile P xs = xs"
  by (simp add: takeWhile_eq_all_conv)

lemma dropWhile_all [simp]: "\<forall>x \<in> set xs. P x \<Longrightarrow> dropWhile P xs = []"
  by (simp add: dropWhile_eq_Nil_conv)

lemma takeWhile_neq_id: "d \<notin> set xs \<Longrightarrow> takeWhile (\<lambda>c. c \<noteq> d) xs = xs"
  by (rule takeWhile_all) auto

lemma dropWhile_neq_Nil: "d \<notin> set xs \<Longrightarrow> dropWhile (\<lambda>c. c \<noteq> d) xs = []"
  by (rule dropWhile_all) auto

lemma takeWhile_neq_append: "d \<notin> set a \<Longrightarrow> takeWhile (\<lambda>c. c \<noteq> d) (a @ d # s) = a"
  by (induction a) auto

lemma dropWhile_neq_append: "d \<notin> set a \<Longrightarrow> dropWhile (\<lambda>c. c \<noteq> d) (a @ d # s) = d # s"
  by (induction a) auto

lemma c_free_live [simp]: "live p \<Longrightarrow> c_free p = Inr ()"
  by (cases p) (auto simp: live_def)

lemma live_simps [simp]: "live Null" "live (Own x)" "\<not> live Dangling"
  by (simp_all add: live_def)

lemma c_strstr_SomeD:
  "c_strstr h n = Some m \<Longrightarrow> suffix m h \<and> prefix n m"
  by (induction h) (auto split: if_splits simp: suffix_Cons)

lemma c_strstr_length:
  "c_strstr h n = Some m \<Longrightarrow> length m \<le> length h"
  using c_strstr_SomeD suffix_length_le by blast

lemma c_strstr_needle_length:
  "c_strstr h n = Some m \<Longrightarrow> length n \<le> length m"
  using c_strstr_SomeD prefix_length_le by blast

lemma c_strstr_sublist: "c_strstr h n \<noteq> None \<longleftrightarrow> sublist n h"
proof (induction h)
  case Nil
  show ?case by auto
next
  case (Cons c cs)
  then show ?case by (auto simp: sublist_Cons_right)
qed

lemma c_strstr_None: "c_strstr h n = None \<longleftrightarrow> \<not> sublist n h"
  using c_strstr_sublist by blast

lemma c_strchr_None [simp]: "c_strchr s c = None \<longleftrightarrow> c \<notin> set s"
  by (induction s) auto

lemma c_strchr_Some:
  "c_strchr s c = Some m \<longleftrightarrow> c \<in> set s \<and> m = dropWhile (\<lambda>x. x \<noteq> c) s"
  by (induction s) auto

lemma c_strchr_split:
  "c_strchr s c = Some m \<Longrightarrow> s = takeWhile (\<lambda>x. x \<noteq> c) s @ m"
  by (simp add: c_strchr_Some)

lemma c_tokens_Nil [simp]: "c_tokens d [] = []"
  by (simp add: c_tokens.simps)

lemma c_tokens_delim [simp]: "c_tokens d (d # s) = c_tokens d s"
  by (subst (1 2) c_tokens.simps) simp

lemma c_tokens_Cons:
  "c \<noteq> d \<Longrightarrow> c_tokens d (c # cs) =
     (c # takeWhile (\<lambda>x. x \<noteq> d) cs) # c_tokens d (dropWhile (\<lambda>x. x \<noteq> d) cs)"
  by (subst c_tokens.simps) simp

lemma c_tokens_nonempty: "t \<in> set (c_tokens d s) \<Longrightarrow> t \<noteq> [] \<and> d \<notin> set t"
proof (induction d s rule: c_tokens.induct)
  case (1 d s)
  show ?case
  proof (cases "dropWhile (\<lambda>c. c = d) s")
    case Nil
    with "1.prems" show ?thesis by (simp add: c_tokens.simps [of d s])
  next
    case (Cons c cs)
    then have "c \<noteq> d"
      by (metis (full_types) hd_dropWhile list.distinct(1) list.sel(1))
    with Cons "1.prems" "1.IH" [OF Cons] show ?thesis
      by (auto simp: c_tokens.simps [of d s] dest: set_takeWhileD)
  qed
qed

lemma c_tokens_single: "s \<noteq> [] \<Longrightarrow> d \<notin> set s \<Longrightarrow> c_tokens d s = [s]"
proof (cases s)
  case (Cons c cs)
  moreover assume "d \<notin> set s"
  ultimately show ?thesis by (auto simp: c_tokens_Cons takeWhile_neq_id dropWhile_neq_Nil)
qed simp

lemma c_tokens_append:
  assumes "a \<noteq> []" and "d \<notin> set a"
  shows "c_tokens d (a @ d # s) = a # c_tokens d s"
proof (cases a)
  case (Cons c cs)
  with assms show ?thesis
    by (auto simp: c_tokens_Cons takeWhile_neq_append dropWhile_neq_append)
qed (use assms in simp)

text \<open>
  Induction along the tokens of a string: nothing left, a delimiter to skip, a last
  token, or a token in front of a delimiter.
\<close>

lemma token_cases:
  fixes s :: string
  obtains "s = []"
  | s' where "s = d # s'"
  | "s \<noteq> []" and "d \<notin> set s"
  | a s' where "s = a @ d # s'" and "a \<noteq> []" and "d \<notin> set a"
proof (cases "d \<in> set s")
  case True
  then obtain a s' where s: "s = a @ d # s'" and a: "d \<notin> set a"
    by (meson split_list_first)
  with that(2) [of s'] that(4) [of a s'] show ?thesis by (cases a) auto
next
  case False
  with that(1,3) show ?thesis by (cases s) auto
qed

lemma c_tokens_induct [case_names Nil Delim Last Token]:
  fixes s :: string
  assumes "P []"
    and "\<And>s. P s \<Longrightarrow> P (d # s)"
    and "\<And>a. a \<noteq> [] \<Longrightarrow> d \<notin> set a \<Longrightarrow> P a"
    and "\<And>a s. a \<noteq> [] \<Longrightarrow> d \<notin> set a \<Longrightarrow> P s \<Longrightarrow> P (a @ d # s)"
  shows "P s"
proof (induction s rule: length_induct)
  case (1 s)
  then show ?case
    by (cases s rule: token_cases [where d = d]) (auto intro: assms)
qed

lemma length_c_tokens: "length (c_tokens d s) \<le> Suc (count_list s d)"
proof (induction s rule: c_tokens_induct [where d = d])
  case (Token a s)
  then show ?case by (simp add: c_tokens_append)
qed (auto simp: c_tokens_single)

lemma c_tokens_subset: "t \<in> set (c_tokens d s) \<Longrightarrow> set t \<subseteq> set s"
proof (induction s rule: c_tokens_induct [where d = d])
  case (Token a s)
  then show ?case by (auto simp: c_tokens_append)
qed (auto simp: c_tokens_single)

lemma c_tokens_length: "t \<in> set (c_tokens d s) \<Longrightarrow> length t \<le> length s"
proof (induction s rule: c_tokens_induct [where d = d])
  case (Token a s)
  then show ?case by (auto simp: c_tokens_append)
qed (auto simp: c_tokens_single)

lemma c_tokens_eq_Nil: "c_tokens d s = [] \<longleftrightarrow> set s \<subseteq> {d}"
proof (induction s rule: c_tokens_induct [where d = d])
  case (Last a)
  then show ?case by (cases a) (auto simp: c_tokens_single)
next
  case (Token a s)
  then have "\<not> set (a @ d # s) \<subseteq> {d}" by (cases a) auto
  with Token show ?case by (simp add: c_tokens_append)
qed auto

lemma c_fgets_go_concat: "concat (c_fgets_go n acc s) = acc @ s"
  by (induction n acc s rule: c_fgets_go.induct) auto

lemma c_fgets_all_concat: "concat (c_fgets_all n s) = s"
  by (simp add: c_fgets_all_def c_fgets_go_concat)

lemma c_fgets_go_length:
  "2 \<le> n \<Longrightarrow> length acc < n - 1 \<Longrightarrow> l \<in> set (c_fgets_go n acc s) \<Longrightarrow> length l \<le> n - 1"
  by (induction n acc s rule: c_fgets_go.induct) (auto split: if_splits)

lemma c_fgets_all_length:
  "2 \<le> n \<Longrightarrow> l \<in> set (c_fgets_all n s) \<Longrightarrow> length l \<le> n - 1"
  using c_fgets_go_length [of n "[]"] by (simp add: c_fgets_all_def)

lemma length_digits_go [simp]: "length (digits_go w b n) = w"
  by (induction w arbitrary: n) auto

text \<open>A 32-bit word below the sign bit reads the same with and without a sign.\<close>

lemma sint_of_nat_small:
  assumes "n < 2 ^ 31"
  shows "sint (of_nat n :: 32 word) = int n"
proof -
  have "unat (of_nat n :: 32 word) = n"
    using assms by (simp add: unat_of_nat take_bit_nat_eq_self)
  then have "uint (of_nat n :: 32 word) = int n" by (simp only: uint_nat)
  with assms show ?thesis unfolding sint_uint by (simp add: signed_take_bit_int_eq_self)
qed

section \<open>Numbers in a base\<close>

lemma num_digits_le: "2 \<le> b \<Longrightarrow> 0 < w \<Longrightarrow> n < b ^ w \<Longrightarrow> num_digits f b n \<le> w"
proof (induction f arbitrary: n w)
  case (Suc f)
  show ?case
  proof (cases "n < b")
    case False
    with Suc.prems obtain w' where w: "w = Suc w'" "0 < w'" by (cases w; cases "w - 1") auto
    with Suc.prems have "n div b < b ^ w'" by (simp add: less_mult_imp_div_less mult.commute)
    with Suc.IH [of w' "n div b"] Suc.prems w False show ?thesis by simp
  qed (use Suc.prems in simp)
qed simp

lemma num_digits_enough: "2 \<le> b \<Longrightarrow> n \<le> f \<Longrightarrow> n < b ^ num_digits f b n"
proof (induction f arbitrary: n)
  case (Suc f)
  show ?case
  proof (cases "n < b")
    case False
    then have "n div b < n" using Suc.prems by (intro div_less_dividend) auto
    then have "n div b < b ^ num_digits f b (n div b)" using Suc by auto
    then have "n < b * b ^ num_digits f b (n div b)"
      using Suc.prems(1) by (metis div_less_iff_less_mult gr_zeroI mult.commute not_numeral_le_zero)
    with False show ?thesis by simp
  qed simp
qed simp

lemma c_format_fits: "2 \<le> b \<Longrightarrow> 0 < w \<Longrightarrow> n < b ^ w \<Longrightarrow> c_format_nat w b n = digits_go w b n"
  using num_digits_le [of b w n n] by (simp add: c_format_nat_def max_def)

lemma of_char_of_small: "n < 256 \<Longrightarrow> (of_char (char_of (n::nat)) :: nat) = n"
  by simp

lemma of_char_digit: "0 < b \<Longrightarrow> b \<le> 10 \<Longrightarrow> (of_char (char_of (48 + n mod b) :: char) :: nat) = 48 + n mod b"
  by (rule of_char_of_small) (use mod_less_divisor [of b n] in linarith)

lemma digits_value_digits:
  assumes "0 < b" and "b \<le> 10"
  shows "digits_value b (digits_go w b n) = n mod b ^ w"
proof (induction w arbitrary: n)
  case (Suc w)
  have "digits_value b (digits_go (Suc w) b n) = digits_value b (digits_go w b (n div b)) * b + n mod b"
    using of_char_digit [OF assms, of n] by (simp add: digits_value_def)
  also have "\<dots> = n mod b ^ Suc w" by (simp add: Suc mod_mult2_eq)
  finally show ?case .
qed (simp add: digits_value_def)

lemma digits_isdigit: "0 < b \<Longrightarrow> b \<le> 10 \<Longrightarrow> c \<in> set (digits_go w b n) \<Longrightarrow> c_isdigit c"
proof (induction w arbitrary: n)
  case (Suc w)
  have "n mod b < 10" using Suc.prems mod_less_divisor [of b n] by linarith
  then have "c_isdigit (char_of (48 + n mod b))"
    using of_char_digit [OF Suc.prems(1,2), of n] by (auto simp: c_isdigit_def)
  with Suc show ?case by auto
qed simp

lemma takeWhile_digits:
  assumes "0 < b" and "b \<le> 10" and "rest = [] \<or> \<not> c_isdigit (hd rest)"
  shows "takeWhile c_isdigit (digits_go w b n @ rest) = digits_go w b n"
  using assms digits_isdigit [OF assms(1,2)] by (cases rest) auto

lemma c_format_nat_value:
  assumes "2 \<le> b" and "b \<le> 10"
  shows "digits_value b (c_format_nat w b n) = n"
proof -
  have "n < b ^ num_digits n b n" using num_digits_enough [of b n n] assms by simp
  also have "\<dots> \<le> b ^ max w (num_digits n b n)" using assms by (intro power_increasing) auto
  finally show ?thesis using assms by (simp add: c_format_nat_def digits_value_digits)
qed

section \<open>In-place compaction\<close>

text \<open>
  The two-index loop that the sources use to drop characters from a string in place:
  \<open>str[destination++] = str[source]\<close> for each kept character, then a terminator at
  \<open>destination\<close>.
\<close>

function compact_loop :: "(char \<Rightarrow> bool) \<Rightarrow> string \<Rightarrow> nat \<Rightarrow> nat \<Rightarrow> string" where
  "compact_loop keep str source destination =
     (if source < length str
      then if keep (str ! source)
           then compact_loop keep (str[destination := str ! source]) (Suc source) (Suc destination)
           else compact_loop keep str (Suc source) destination
      else take destination str)"
  by pat_completeness auto
termination
  by (relation "measure (\<lambda>(k, str, source, d). length str - source)") auto

declare compact_loop.simps [simp del]

lemma compact_loop_filter:
  "d \<le> i \<Longrightarrow> compact_loop keep s i d = take d s @ filter keep (drop i s)"
proof (induction keep s i d rule: compact_loop.induct)
  case (1 keep s i d)
  show ?case
  proof (cases "i < length s")
    case True
    then have d: "drop i s = s ! i # drop (Suc i) s" by (simp add: Cons_nth_drop_Suc)
    show ?thesis
    proof (cases "keep (s ! i)")
      case keep: True
      have "compact_loop keep s i d = compact_loop keep (s[d := s ! i]) (Suc i) (Suc d)"
        using True keep by (simp add: compact_loop.simps [of keep s i d])
      also have "\<dots> = take (Suc d) (s[d := s ! i]) @ filter keep (drop (Suc i) (s[d := s ! i]))"
        using "1.IH"(1) [OF True keep] "1.prems" by simp
      also have "\<dots> = take d s @ filter keep (drop i s)"
        using True keep "1.prems" d by (simp add: take_Suc_conv_app_nth)
      finally show ?thesis .
    next
      case False
      with True d "1.IH"(2) "1.prems" show ?thesis
        by (simp add: compact_loop.simps [of keep s i d])
    qed
  next
    case False
    then show ?thesis by (simp add: compact_loop.simps [of keep s i d])
  qed
qed

lemma compact_filter: "compact_loop keep s 0 0 = filter keep s"
  by (simp add: compact_loop_filter)

section \<open>Substrings\<close>

lemma sublist_singleton [simp]: "sublist [c] s \<longleftrightarrow> c \<in> set s"
  by (auto simp: sublist_def in_set_conv_decomp)

lemma sublist_nth_conv:
  "sublist p s \<longleftrightarrow> (\<exists>k. k + length p \<le> length s \<and> (\<forall>j < length p. s ! (k + j) = p ! j))"
proof
  assume "sublist p s"
  then obtain a b where "s = a @ p @ b" by (auto simp: sublist_def)
  then show "\<exists>k. k + length p \<le> length s \<and> (\<forall>j < length p. s ! (k + j) = p ! j)"
    by (intro exI [of _ "length a"]) (simp add: nth_append)
next
  assume "\<exists>k. k + length p \<le> length s \<and> (\<forall>j < length p. s ! (k + j) = p ! j)"
  then obtain k where k: "k + length p \<le> length s" "\<forall>j < length p. s ! (k + j) = p ! j"
    by blast
  then have "p = take (length p) (drop k s)"
    by (intro nth_equalityI) auto
  then have "s = take k s @ p @ drop (length p) (drop k s)"
    by (metis append_take_drop_id)
  then show "sublist p s" unfolding sublist_def by blast
qed

text \<open>A pattern without the separator character occurs in one of the two halves.\<close>

lemma sublist_append_sep:
  assumes "sublist p (s @ c # d)" and "c \<notin> set p"
  shows "sublist p s \<or> sublist p d"
proof -
  from assms(1) obtain a b where eq: "s @ c # d = a @ p @ b" by (auto simp: sublist_def)
  then consider us where "s = a @ us" "us @ c # d = p @ b"
    | us where "s @ us = a" "c # d = us @ p @ b" "us \<noteq> []"
    by (auto simp: append_eq_append_conv2) metis+
  then show ?thesis
  proof cases
    case 1
    from 1(2) assms(2) have "prefix p us"
      by (auto simp: append_eq_append_conv2 Cons_eq_append_conv)
    with 1(1) show ?thesis by (auto simp: sublist_def prefix_def)
  next
    case 2
    then obtain us' where "d = us' @ p @ b" by (cases us) auto
    then show ?thesis by (auto simp: sublist_def)
  qed
qed

end
