(* ===== verification/RRD_Types.thy ===== *)
theory RRD_Types
  imports RRD_Prelude
begin

text \<open>
  The data model of \<^verbatim>\<open>src/src/rrdCommon.h\<close>: the message and event enumerations, the
  message buffer \<open>data_buf\<close>, the issue records and the string constants of the
  headers. The JSON library that the sources call (cJSON) is not part of the
  repository; its operations are the fields of a record \<open>cjson_api\<close> that every
  definition reading JSON takes as an argument, and the documented behaviour that the
  sources rely on is the locale \<open>cjson_laws\<close>.
\<close>

section \<open>Enumerations and records of rrdCommon.h\<close>

datatype message_type_et = DEFAULT | EVENT_MSG | EVENT_WEBCFG_MSG | DEEPSLEEP_EVENT_MSG

datatype deepsleep_event_et =
    RRD_DEEPSLEEP_INVALID_DEFAULT
  | RRD_DEEPSLEEP_RDM_DOWNLOAD_PKG_INITIATE
  | RRD_DEEPSLEEP_RDM_PKG_INSTALL_COMPLETE

record data_buf =
  mtype :: message_type_et
  mdata :: "string cptr"
  jsonPath :: "string cptr"
  inDynamic :: bool
  appendMode :: bool
  dsEvent :: deepsleep_event_et
  suffix_of :: "string cptr"

record issueData =
  rfcvalue :: "string option"
  command :: "string option"
  timeout :: int

record issueNodeData =
  Node :: "string cptr"
  subNode :: "string cptr"

record devicePropertiesData =
  deviceType :: "string option"

section \<open>Constants of the headers\<close>

definition RRD_JSON_FILE :: string where
  "RRD_JSON_FILE = ''/etc/rrd/remote_debugger.json''"

definition RRD_DEVICE_PROP_FILE :: string where
  "RRD_DEVICE_PROP_FILE = ''/etc/device.properties''"

definition DEEP_SLEEP_STR :: string where
  "DEEP_SLEEP_STR = ''DEEPSLEEP''"

definition RDM_MGR_PKG_INST :: string where
  "RDM_MGR_PKG_INST =
     ''Device.DeviceInfo.X_RDKCENTRAL-COM_RDKDownloadManager.InstallPackage''"

definition RRD_MEDIA_APPS :: string where
  "RRD_MEDIA_APPS = ''/media/apps/''"

definition RRD_TMP_DIR :: string where
  "RRD_TMP_DIR = ''/tmp/''"

definition RDM_PKG_PREFIX :: string where
  "RDM_PKG_PREFIX = ''RDK-RRD-''"

definition RDM_PKG_SUFFIX :: string where
  "RDM_PKG_SUFFIX = '':1.0''"

definition RRD_DYNAMIC_PROFILE_MAX_LENGTH :: nat where
  "RRD_DYNAMIC_PROFILE_MAX_LENGTH = 34"

definition APPEND_SUFFIX :: string where
  "APPEND_SUFFIX = ''_apnd''"

definition DEFAULT_TIMEOUT :: int where
  "DEFAULT_TIMEOUT = 90"

definition RFC_DELIM :: string where
  "RFC_DELIM = ''.''"

definition RRD_OUTPUT_DIR :: string where
  "RRD_OUTPUT_DIR = ''/tmp/rrd/''"

definition RRD_OUTPUT_FILE :: string where
  "RRD_OUTPUT_FILE = ''debug_outputs.txt''"

definition BUF_LEN_256 :: nat where
  "BUF_LEN_256 = 256"

definition DEFAULT_DIR :: string where
  "DEFAULT_DIR = ''RRD_LOCATION''"

section \<open>Build configuration\<close>

text \<open>
  The preprocessor switches that select code at build time. The unit-test build
  (\<open>GTEST_ENABLE\<close>) and the tracing build (\<open>ENABLE_RDK_OTLP\<close>) are off.
\<close>

record build =
  IARMBUS_SUPPORT :: bool
  PWRMGR_PLUGIN :: bool
  USE_L2_SUPPORT :: bool
  RRD_DEVICE_PROFILE :: string

section \<open>Initialising a message buffer\<close>

definition RRD_data_buff_init :: "message_type_et \<Rightarrow> deepsleep_event_et \<Rightarrow> data_buf" where
  "RRD_data_buff_init sndtype deepSleepEvent =
     \<lparr>mtype = sndtype, mdata = Null, jsonPath = Null, inDynamic = False,
      appendMode = False, dsEvent = deepSleepEvent, suffix_of = Null\<rparr>"

text \<open>\<open>RRD_data_buff_deAlloc\<close>: each non-NULL field is freed, then the buffer.\<close>

definition RRD_data_buff_deAlloc :: "data_buf \<Rightarrow> fault + unit" where
  "RRD_data_buff_deAlloc sbuf =
     (case c_free (mdata sbuf) of Inl e \<Rightarrow> Inl e
      | Inr _ \<Rightarrow> (case c_free (jsonPath sbuf) of Inl e \<Rightarrow> Inl e
      | Inr _ \<Rightarrow> c_free (suffix_of sbuf)))"

definition live_buf :: "data_buf \<Rightarrow> bool" where
  "live_buf b \<longleftrightarrow> live (mdata b) \<and> live (jsonPath b) \<and> live (suffix_of b)"

definition live_node :: "issueNodeData \<Rightarrow> bool" where
  "live_node n \<longleftrightarrow> live (Node n) \<and> live (subNode n)"

section \<open>The JSON library\<close>

datatype cjson_type = cJSON_Number | cJSON_String | cJSON_Array | cJSON_Object | cJSON_Other

record 'j cjson_api =
  cJSON_Parse :: "string \<Rightarrow> 'j option"
  cJSON_GetObjectItem :: "'j option \<Rightarrow> string option \<Rightarrow> 'j option"
  cJSON_GetArraySize :: "'j option \<Rightarrow> nat"
  cJSON_GetArrayItem :: "'j option \<Rightarrow> nat \<Rightarrow> 'j option"
  cJSON_Print :: "'j option \<Rightarrow> string option"
  cj_type :: "'j \<Rightarrow> cjson_type"
  cj_valueint :: "'j \<Rightarrow> int"
  cj_string :: "'j \<Rightarrow> string option"
  cJSON_CreateObject :: "'j"
  cJSON_CreateArray :: "'j"
  cJSON_CreateString :: "string \<Rightarrow> 'j"
  cJSON_AddItemToArray :: "'j \<Rightarrow> 'j \<Rightarrow> 'j"
  cJSON_AddItemToObject :: "'j \<Rightarrow> string \<Rightarrow> 'j \<Rightarrow> 'j"

text \<open>
  What the sources rely on: the accessors accept NULL, an item below the size exists,
  printing an item gives text, and the text of a string item is in double quotes.
\<close>

locale cjson_laws =
  fixes J :: "'j cjson_api"
  assumes get_null: "cJSON_GetObjectItem J None k = None"
    and get_no_name: "cJSON_GetObjectItem J j None = None"
    and size_null: "cJSON_GetArraySize J None = 0"
    and item_exists: "i < cJSON_GetArraySize J j \<Longrightarrow> cJSON_GetArrayItem J j i \<noteq> None"
    and print_null: "cJSON_Print J None = None"
    and print_item: "cJSON_Print J (Some j') \<noteq> None"
    and print_string: "cj_type J j' = cJSON_String \<Longrightarrow>
          \<exists>t. cJSON_Print J (Some j') = Some (QUOTE # t @ [QUOTE])"
begin

lemma print_exists: "i < cJSON_GetArraySize J j \<Longrightarrow> \<exists>p. cJSON_Print J (cJSON_GetArrayItem J j i) = Some p"
  using item_exists print_item by fastforce

lemma print_None_iff: "cJSON_Print J j = None \<longleftrightarrow> j = None"
  using print_null print_item by (cases j) auto

end

subsection \<open>A JSON document model\<close>

text \<open>
  A concrete model of the JSON library: document values, nodes that carry their key,
  case-insensitive member lookup and the escaping of string literals. The parser stays
  an argument.
\<close>

datatype json =
    JNull
  | JBool bool
  | JNum int
  | JStr string
  | JArr "json list"
  | JObj "(string \<times> json) list"

type_synonym jnode = "string option \<times> json"

fun doc_assoc :: "string \<Rightarrow> (string \<times> json) list \<Rightarrow> jnode option" where
  "doc_assoc n [] = None"
| "doc_assoc n ((k, v) # kvs) = (if c_strcasecmp_eq k n then Some (Some k, v) else doc_assoc n kvs)"

fun doc_get :: "jnode option \<Rightarrow> string option \<Rightarrow> jnode option" where
  "doc_get (Some (_, JObj kvs)) (Some n) = doc_assoc n kvs"
| "doc_get _ _ = None"

fun doc_children :: "json \<Rightarrow> jnode list" where
  "doc_children (JArr xs) = map (\<lambda>x. (None, x)) xs"
| "doc_children (JObj kvs) = map (\<lambda>(k, v). (Some k, v)) kvs"
| "doc_children _ = []"

fun doc_size :: "jnode option \<Rightarrow> nat" where
  "doc_size None = 0"
| "doc_size (Some (_, v)) = length (doc_children v)"

fun doc_item :: "jnode option \<Rightarrow> nat \<Rightarrow> jnode option" where
  "doc_item None i = None"
| "doc_item (Some (_, v)) i = (if i < length (doc_children v) then Some (doc_children v ! i) else None)"

definition json_escape :: "char \<Rightarrow> string" where
  "json_escape c = (if c = QUOTE then [BACKSLASH, QUOTE]
     else if c = BACKSLASH then [BACKSLASH, BACKSLASH]
     else if c = NEWLINE then [BACKSLASH, CHR ''n'']
     else if c = CARRIAGE_RETURN then [BACKSLASH, CHR ''r'']
     else if c = TAB then [BACKSLASH, CHR ''t'']
     else [c])"

definition json_quote :: "string \<Rightarrow> string" where
  "json_quote s = QUOTE # concat (map json_escape s) @ [QUOTE]"

fun print_int :: "int \<Rightarrow> string" where
  "print_int n = (if n < 0 then CHR ''-'' # c_format_nat 0 10 (nat (- n)) else c_format_nat 0 10 (nat n))"

definition comma_sep :: "string list \<Rightarrow> string" where
  "comma_sep xs = concat (case xs of [] \<Rightarrow> [] | y # ys \<Rightarrow> y # map (\<lambda>s. '', '' @ s) ys)"

fun print_json :: "json \<Rightarrow> string" where
  "print_json JNull = ''null''"
| "print_json (JBool b) = (if b then ''true'' else ''false'')"
| "print_json (JNum n) = print_int n"
| "print_json (JStr s) = json_quote s"
| "print_json (JArr xs) = ''['' @ comma_sep (map print_json xs) @ '']''"
| "print_json (JObj kvs) = ''{'' @ comma_sep (map (\<lambda>kv. json_quote (fst kv) @ '': '' @ print_json (snd kv)) kvs) @ ''}''"

fun doc_type :: "jnode \<Rightarrow> cjson_type" where
  "doc_type (_, JNum _) = cJSON_Number"
| "doc_type (_, JStr _) = cJSON_String"
| "doc_type (_, JArr _) = cJSON_Array"
| "doc_type (_, JObj _) = cJSON_Object"
| "doc_type _ = cJSON_Other"

fun doc_add_array :: "jnode \<Rightarrow> jnode \<Rightarrow> jnode" where
  "doc_add_array (k, JArr xs) (_, v) = (k, JArr (xs @ [v]))"
| "doc_add_array j _ = j"

fun doc_add_object :: "jnode \<Rightarrow> string \<Rightarrow> jnode \<Rightarrow> jnode" where
  "doc_add_object (k, JObj kvs) n (_, v) = (k, JObj (kvs @ [(n, v)]))"
| "doc_add_object j _ _ = j"

definition doc_api :: "(string \<Rightarrow> jnode option) \<Rightarrow> jnode cjson_api" where
  "doc_api parse =
     \<lparr>cJSON_Parse = parse,
      cJSON_GetObjectItem = doc_get,
      cJSON_GetArraySize = doc_size,
      cJSON_GetArrayItem = doc_item,
      cJSON_Print = map_option (\<lambda>j. print_json (snd j)),
      cj_type = doc_type,
      cj_valueint = (\<lambda>j. case snd j of JNum n \<Rightarrow> n | _ \<Rightarrow> 0),
      cj_string = fst,
      cJSON_CreateObject = (None, JObj []),
      cJSON_CreateArray = (None, JArr []),
      cJSON_CreateString = (\<lambda>s. (None, JStr s)),
      cJSON_AddItemToArray = doc_add_array,
      cJSON_AddItemToObject = doc_add_object\<rparr>"

lemma doc_api_sel [simp]:
  "cJSON_Parse (doc_api p) = p"
  "cJSON_GetObjectItem (doc_api p) = doc_get"
  "cJSON_GetArraySize (doc_api p) = doc_size"
  "cJSON_GetArrayItem (doc_api p) = doc_item"
  "cJSON_Print (doc_api p) = map_option (\<lambda>j. print_json (snd j))"
  "cj_type (doc_api p) = doc_type"
  "cj_valueint (doc_api p) = (\<lambda>j. case snd j of JNum n \<Rightarrow> n | _ \<Rightarrow> 0)"
  "cj_string (doc_api p) = fst"
  "cJSON_CreateObject (doc_api p) = (None, JObj [])"
  "cJSON_CreateArray (doc_api p) = (None, JArr [])"
  "cJSON_CreateString (doc_api p) = (\<lambda>s. (None, JStr s))"
  "cJSON_AddItemToArray (doc_api p) = doc_add_array"
  "cJSON_AddItemToObject (doc_api p) = doc_add_object"
  by (simp_all add: doc_api_def)

interpretation doc: cjson_laws "doc_api parse" for parse
proof unfold_locales
  fix j' :: jnode
  assume "cj_type (doc_api parse) j' = cJSON_String"
  then obtain k s where "j' = (k, JStr s)"
    by (cases j' rule: doc_type.cases) auto
  then show "\<exists>t. cJSON_Print (doc_api parse) (Some j') = Some (QUOTE # t @ [QUOTE])"
    by (simp add: json_quote_def)
next
  fix i j
  assume "i < cJSON_GetArraySize (doc_api parse) j"
  then show "cJSON_GetArrayItem (doc_api parse) j i \<noteq> None"
    by (cases j) auto
qed auto

section \<open>Owned buffers\<close>

lemma RRD_data_buff_deAlloc_live [simp]:
  "live_buf b \<Longrightarrow> RRD_data_buff_deAlloc b = Inr ()"
  by (simp add: RRD_data_buff_deAlloc_def live_buf_def)

lemma live_buf_init [simp]: "live_buf (RRD_data_buff_init t d)"
  by (simp add: live_buf_def RRD_data_buff_init_def)

lemma live_buf_updates [simp]:
  "live_buf b \<Longrightarrow> live p \<Longrightarrow> live_buf (b\<lparr>mdata := p\<rparr>)"
  "live_buf b \<Longrightarrow> live p \<Longrightarrow> live_buf (b\<lparr>jsonPath := p\<rparr>)"
  "live_buf b \<Longrightarrow> live p \<Longrightarrow> live_buf (b\<lparr>suffix_of := p\<rparr>)"
  "live_buf (b\<lparr>inDynamic := i\<rparr>) = live_buf b"
  "live_buf (b\<lparr>appendMode := i\<rparr>) = live_buf b"
  by (simp_all add: live_buf_def)

end
