(* ===== verification/RRD_Issue.thy ===== *)
theory RRD_Issue
  imports RRD_Types
begin

text \<open>
  The string code that turns an issue request into nodes and names: the splitting and
  sanitising functions of \<^verbatim>\<open>rrdJsonParser.c\<close> and \<^verbatim>\<open>rrdEventProcess.c\<close>, the append
  suffix test of \<^verbatim>\<open>rrdInterface.c\<close>, \<^verbatim>\<open>normalizeIssueName\<close> of \<^verbatim>\<open>rrdExecuteScript.c\<close>
  and the device-profile lookup. An argument \<open>mem\<close> is the outcome of the allocation
  the function makes.
\<close>

section \<open>Model\<close>

subsection \<open>removeSpecialChar, normalizeIssueName\<close>

fun rsch_loop :: "string \<Rightarrow> nat \<Rightarrow> nat \<Rightarrow> string" where
  "rsch_loop str index 0 = str"
| "rsch_loop str index (Suc n) =
     (if str ! index = CARRIAGE_RETURN \<or> str ! index = NEWLINE then take index str
      else rsch_loop str (Suc index) n)"

definition removeSpecialChar :: "string \<Rightarrow> string" where
  "removeSpecialChar str = rsch_loop str 0 (length str)"

fun nin_loop :: "string \<Rightarrow> nat \<Rightarrow> nat \<Rightarrow> string" where
  "nin_loop str index 0 = str"
| "nin_loop str index (Suc n) =
     nin_loop (if str ! index = CHR ''.'' then str[index := CHR ''_''] else str) (Suc index) n"

definition normalizeIssueName :: "string \<Rightarrow> string" where
  "normalizeIssueName str = nin_loop str 0 (length str)"

subsection \<open>split_issue_type\<close>

definition RRD_MAX_SUFFIX_LEN :: nat where
  "RRD_MAX_SUFFIX_LEN = 9"

definition suffix_char :: "char \<Rightarrow> bool" where
  "suffix_char ch = (c_isalnum ch \<or> ch = CHR ''_'' \<or> ch = CHR ''-'')"

fun sit_copy :: "string \<Rightarrow> nat \<Rightarrow> string \<Rightarrow> string" where
  "sit_copy [] max_copy suf = suf"
| "sit_copy (ch # us) max_copy suf =
     (if length suf < max_copy
      then sit_copy us max_copy (if suffix_char ch then suf @ [ch] else suf)
      else suf)"

text \<open>
  A buffer argument is NULL or a size with the old contents; the result is what the two
  buffers hold afterwards.
\<close>

definition clear_buf :: "(nat \<times> string) option \<Rightarrow> string option" where
  "clear_buf b = map_option (\<lambda>(n, old). if n > 0 then [] else old) b"

definition split_issue_type ::
  "string option \<Rightarrow> (nat \<times> string) option \<Rightarrow> (nat \<times> string) option
   \<Rightarrow> string option \<times> string option" where
  "split_issue_type input base suf =
     (case (input, base, suf) of
        (Some inp, Some (base_len, _), Some (suffix_len, _)) \<Rightarrow>
          (if base_len = 0 \<or> suffix_len = 0 then (clear_buf base, clear_buf suf)
           else (case c_strchr inp (CHR ''_'') of
                   Some underscore \<Rightarrow>
                     (let b_len = length inp - length underscore;
                          b_len' = (if b_len \<ge> base_len then base_len - 1 else b_len)
                      in (Some (take b_len' inp),
                          if length underscore \<le> RRD_MAX_SUFFIX_LEN
                          then Some (sit_copy underscore (suffix_len - 1) [])
                          else Some []))
                 | None \<Rightarrow> (Some (take (base_len - 1) inp), Some [])))
      | _ \<Rightarrow> (clear_buf base, clear_buf suf))"

subsection \<open>getParamcount, getIssueInfo\<close>

lemma strstr_dot_tl [termination_simp]:
  "c_strstr s ''.'' = Some m \<Longrightarrow> length m - Suc 0 < length s"
  using c_strstr_length [of s "''.''" m] c_strstr_needle_length [of s "''.''" m] by auto

fun getParamcount :: "string \<Rightarrow> nat" where
  "getParamcount str =
     (case c_strstr str ''.'' of None \<Rightarrow> 0 | Some m \<Rightarrow> Suc (getParamcount (tl m)))"

declare getParamcount.simps [simp del]

text \<open>
  \<open>array\<close> has \<open>nodes + 1\<close> slots, of which the \<open>strtok\<close> loop fills as many as there are
  tokens; reading a slot that was not filled reads an uninitialised pointer.
\<close>

definition getIssueInfo :: "bool \<Rightarrow> string \<Rightarrow> fault + issueNodeData" where
  "getIssueInfo mem issuestr =
     (let nodes = getParamcount issuestr; tokens = c_tokens (CHR ''.'') issuestr
      in if length tokens > nodes + 1 then Inl BufferOverflow
         else if length tokens = 0 then Inl UninitRead
         else if \<not> mem then Inl NullDeref
         else if nodes \<noteq> 0 then
                (if length tokens < 2 then Inl UninitRead
                 else Inr \<lparr>Node = Own (tokens ! 0), subNode = Own (tokens ! 1)\<rparr>)
         else Inr \<lparr>Node = Own (tokens ! 0), subNode = Null\<rparr>)"

subsection \<open>removeSpecialCharacterfromIssueTypeList, issueTypeSplitter\<close>

definition issue_char :: "char \<Rightarrow> bool" where
  "issue_char c = (c_isalnum c \<or> c = CHR '','' \<or> c = CHR ''.'')"

definition removeSpecialCharacterfromIssueTypeList :: "string \<Rightarrow> string" where
  "removeSpecialCharacterfromIssueTypeList str = compact_loop issue_char str 0 0"

text \<open>One round of the counting loop looks at the two characters behind the current one.\<close>

fun its_count :: "char \<Rightarrow> string \<Rightarrow> nat" where
  "its_count d [] = 0"
| "its_count d (_ # str2) =
     (if c_at str2 0 = d \<and> c_at str2 1 \<noteq> d \<and> c_at str2 1 \<noteq> NUL then 1 else 0) + its_count d str2"

text \<open>
  The pieces its cutting loop takes, one per round: the splitter itself, which allocates
  each of them, is a statement of \<open>RRD_Event\<close>.
\<close>

fun its_pieces :: "nat \<Rightarrow> char \<Rightarrow> string \<Rightarrow> string list" where
  "its_pieces 0 d str = []"
| "its_pieces (Suc n) d str =
     takeWhile (\<lambda>c. c \<noteq> d) str
     # its_pieces n d (dropWhile (\<lambda>c. c = d) (dropWhile (\<lambda>c. c \<noteq> d) str))"

subsection \<open>checkAppendRequest\<close>

definition checkAppendRequest :: "string \<Rightarrow> bool \<times> string" where
  "checkAppendRequest issueRequest =
     (let issuestr_len = length issueRequest; suffixstr_len = length APPEND_SUFFIX
      in if issuestr_len \<ge> suffixstr_len
         then if drop (issuestr_len - suffixstr_len) issueRequest = APPEND_SUFFIX
              then (True, take (issuestr_len - suffixstr_len) issueRequest)
              else (False, issueRequest)
         else (False, issueRequest))"

subsection \<open>RRDStoreDeviceInfo, lookupRrdProfileList, getRrdProfileName\<close>

text \<open>\<open>getline\<close> until the end of the file: lines of any length, newline included.\<close>

definition c_getline_all :: "string \<Rightarrow> string list" where
  "c_getline_all s = c_fgets_all (length s + 3) s"

fun device_name_line :: "bool \<Rightarrow> string list \<Rightarrow> string option" where
  "device_name_line mem [] = None"
| "device_name_line mem (line # lines) =
     (if prefix ''DEVICE_NAME='' line
      then (if \<not> mem then None
            else (case c_tokens NEWLINE (c_str (drop (length ''DEVICE_NAME='') line)) of
                    [] \<Rightarrow> Some []
                  | valueString # _ \<Rightarrow> Some (removeSpecialChar valueString)))
      else device_name_line mem lines)"

definition RRDStoreDeviceInfo :: "bool \<Rightarrow> string option \<Rightarrow> devicePropertiesData" where
  "RRDStoreDeviceInfo mem file =
     (case file of None \<Rightarrow> \<lparr>deviceType = None\<rparr>
      | Some txt \<Rightarrow> \<lparr>deviceType = device_name_line mem (c_getline_all txt)\<rparr>)"

definition lookupRrdProfileList :: "build \<Rightarrow> bool \<Rightarrow> string option \<Rightarrow> bool" where
  "lookupRrdProfileList B mem profile =
     (case profile of None \<Rightarrow> False
      | Some p \<Rightarrow> (if p = [] then False
                    else if \<not> mem then False
                    else List.member (c_tokens (CHR '','') (RRD_DEVICE_PROFILE B)) p))"

definition getRrdProfileName :: "build \<Rightarrow> bool \<Rightarrow> devicePropertiesData \<Rightarrow> string" where
  "getRrdProfileName B mem dev =
     (if lookupRrdProfileList B mem (deviceType dev)
      then (case deviceType dev of None \<Rightarrow> [] | Some t \<Rightarrow> t) else [])"

section \<open>Lemmas\<close>

lemma rsch_loop_takeWhile:
  "i + n = length s \<Longrightarrow> (\<forall>c \<in> set (take i s). c \<noteq> CARRIAGE_RETURN \<and> c \<noteq> NEWLINE) \<Longrightarrow>
   rsch_loop s i n = takeWhile (\<lambda>c. c \<noteq> CARRIAGE_RETURN \<and> c \<noteq> NEWLINE) s"
proof (induction n arbitrary: i)
  case 0
  then show ?case by simp
next
  case (Suc n)
  have s: "s = take i s @ s ! i # drop (Suc i) s"
    using Suc.prems(1) by (simp add: id_take_nth_drop)
  show ?case
  proof (cases "s ! i = CARRIAGE_RETURN \<or> s ! i = NEWLINE")
    case True
    then have "takeWhile (\<lambda>c. c \<noteq> CARRIAGE_RETURN \<and> c \<noteq> NEWLINE) (take i s @ s ! i # drop (Suc i) s) = take i s"
      using Suc.prems(2) by (auto simp: takeWhile_append)
    with True s show ?thesis by simp
  next
    case False
    have "set (take (Suc i) s) = insert (s ! i) (set (take i s))"
      using Suc.prems(1) by (simp add: take_Suc_conv_app_nth)
    with False Suc show ?thesis by simp
  qed
qed

lemma removeSpecialChar_takeWhile:
  "removeSpecialChar s = takeWhile (\<lambda>c. c \<noteq> CARRIAGE_RETURN \<and> c \<noteq> NEWLINE) s"
  by (simp add: removeSpecialChar_def rsch_loop_takeWhile)

lemma nin_loop_map:
  "i + n = length s \<Longrightarrow>
   nin_loop s i n = take i s @ map (\<lambda>c. if c = CHR ''.'' then CHR ''_'' else c) (drop i s)"
proof (induction n arbitrary: i s)
  case 0
  then show ?case by simp
next
  case (Suc n)
  have d: "drop i s = s ! i # drop (Suc i) s"
    using Suc.prems by (simp add: Cons_nth_drop_Suc)
  let ?s = "if s ! i = CHR ''.'' then s[i := CHR ''_''] else s"
  have "nin_loop s i (Suc n) = nin_loop ?s (Suc i) n" by simp
  also have "\<dots> = take (Suc i) ?s @ map (\<lambda>c. if c = CHR ''.'' then CHR ''_'' else c) (drop (Suc i) ?s)"
    by (rule Suc.IH) (use Suc.prems in simp)
  also have "\<dots> = take i s @ map (\<lambda>c. if c = CHR ''.'' then CHR ''_'' else c) (drop i s)"
    using Suc.prems by (cases "s ! i = CHR ''.''") (simp_all add: d take_Suc_conv_app_nth)
  finally show ?case .
qed

lemma normalizeIssueName_map:
  "normalizeIssueName s = map (\<lambda>c. if c = CHR ''.'' then CHR ''_'' else c) s"
  by (simp add: normalizeIssueName_def nin_loop_map)

lemma sit_copy_filter:
  "length acc \<le> m \<Longrightarrow> sit_copy us m acc = take m (acc @ filter suffix_char us)"
  by (induction us m acc rule: sit_copy.induct) (auto simp: take_Cons')

lemma sit_copy_take: "sit_copy us m [] = take m (filter suffix_char us)"
  by (simp add: sit_copy_filter)

lemma getParamcount_count: "getParamcount s = count_list s (CHR ''.'')"
proof (induction s rule: length_induct)
  case (1 s)
  show ?case
  proof (cases "c_strstr s ''.''")
    case None
    then have "getParamcount s = 0" by (subst getParamcount.simps) simp
    moreover from None have "CHR ''.'' \<notin> set s" by (simp add: c_strstr_None)
    ultimately show ?thesis by (simp add: count_list_0_iff)
  next
    case (Some m)
    from c_strstr_SomeD [OF Some] obtain r where m: "m = CHR ''.'' # r" by (auto simp: prefix_def)
    have "m = dropWhile (\<lambda>c. c \<noteq> CHR ''.'') s"
      using Some by (induction s) (auto split: if_splits)
    then have "s = takeWhile (\<lambda>c. c \<noteq> CHR ''.'') s @ CHR ''.'' # r" using m by simp
    moreover have "CHR ''.'' \<notin> set (takeWhile (\<lambda>c. c \<noteq> CHR ''.'') s)" by (auto dest: set_takeWhileD)
    ultimately obtain t where "s = t @ CHR ''.'' # r" "CHR ''.'' \<notin> set t" by blast
    then have "count_list s (CHR ''.'') = Suc (count_list r (CHR ''.''))" by simp
    moreover have "length r < length s" using c_strstr_length [OF Some] m by simp
    ultimately show ?thesis using "1" Some m by (simp add: getParamcount.simps [of s])
  qed
qed

lemma its_count_no_delim: "d \<notin> set a \<Longrightarrow> d \<noteq> NUL \<Longrightarrow> its_count d a = 0"
  by (induction a) (auto simp: c_at_def)

lemma its_count_append:
  assumes "a \<noteq> []" and "d \<notin> set a" and "NUL \<notin> set s"
  shows "its_count d (a @ d # s) = (if s \<noteq> [] \<and> hd s \<noteq> d then 1 else 0) + its_count d (d # s)"
  using assms(1,2)
proof (induction a)
  case (Cons c cs)
  show ?case
  proof (cases cs)
    case Nil
    with assms(3) show ?thesis by (cases s) (auto simp: c_at_def)
  next
    case (Cons c' cs')
    with Cons.IH Cons.prems show ?thesis by (auto simp: c_at_def)
  qed
qed simp

text \<open>Behind a delimiter, the counting loop counts the tokens that follow.\<close>

lemma its_count_tokens:
  assumes "d \<noteq> NUL" and "NUL \<notin> set s"
  shows "its_count d (d # s) + (if s \<noteq> [] \<and> hd s \<noteq> d then 1 else 0) = length (c_tokens d s)"
  using assms(2)
proof (induction s rule: c_tokens_induct [where d = d])
  case Nil
  then show ?case by (simp add: c_at_def assms(1))
next
  case (Delim s)
  have "its_count d (d # d # s) = (if s \<noteq> [] \<and> hd s \<noteq> d then 1 else 0) + its_count d (d # s)"
    using Delim.prems assms(1) by (cases s) (auto simp: c_at_def)
  with Delim show ?case by simp
next
  case (Last a)
  then have "hd a \<noteq> d" by (metis list.set_sel(1))
  with Last its_count_no_delim [OF Last(2) assms(1)] assms(1) show ?case
    by (cases a) (auto simp: c_at_def c_tokens_single)
next
  case (Token a s)
  then have hd: "hd (a @ d # s) \<noteq> d" by (metis hd_append2 list.set_sel(1))
  have "its_count d (d # a @ d # s) = its_count d (a @ d # s)"
    using hd Token(1) by (cases a) (auto simp: c_at_def)
  also have "\<dots> = (if s \<noteq> [] \<and> hd s \<noteq> d then 1 else 0) + its_count d (d # s)"
    using Token by (intro its_count_append) auto
  also have "\<dots> = length (c_tokens d s)" using Token by simp
  finally show ?case using hd Token by (simp add: c_tokens_append)
qed

lemma its_count_start:
  assumes "d \<noteq> NUL" and "NUL \<notin> set s" and "s = [] \<or> hd s \<noteq> d"
  shows "1 + its_count d s = max 1 (length (c_tokens d s))"
proof (cases s)
  case (Cons c cs)
  with assms have "its_count d (d # s) = its_count d s" by (auto simp: c_at_def)
  with its_count_tokens [OF assms(1,2)] Cons assms(3) show ?thesis by auto
qed simp

lemma c_tokens_dropWhile [simp]: "c_tokens d (dropWhile (\<lambda>c. c = d) s) = c_tokens d s"
  by (induction s) auto

lemma its_pieces_tokens:
  "its_pieces (length (c_tokens d s)) d (dropWhile (\<lambda>c. c = d) s) = c_tokens d s"
proof (induction s rule: c_tokens_induct [where d = d])
  case (Last a)
  then have "dropWhile (\<lambda>c. c = d) a = a" by (cases a) auto
  with Last show ?case by (simp add: c_tokens_single takeWhile_neq_id)
next
  case (Token a s)
  have "dropWhile (\<lambda>c. c = d) (a @ d # s) = a @ d # s" using Token by (cases a) auto
  then show ?case
    using Token by (simp add: c_tokens_append takeWhile_neq_append dropWhile_neq_append)
qed simp_all

lemma its_pieces_counted:
  assumes "d \<noteq> NUL" and "NUL \<notin> set s"
  shows "its_pieces (1 + its_count d (dropWhile (\<lambda>c. c = d) s)) d (dropWhile (\<lambda>c. c = d) s) = (if c_tokens d s = [] then [[]] else c_tokens d s)"
proof -
  let ?s = "dropWhile (\<lambda>c. c = d) s"
  have hd: "?s = [] \<or> hd ?s \<noteq> d" by (metis (mono_tags) hd_dropWhile)
  have "NUL \<notin> set ?s" using assms(2) by (auto dest: set_dropWhileD)
  from its_count_start [OF assms(1) this hd]
  have cnt: "1 + its_count d ?s = max 1 (length (c_tokens d s))" by simp
  show ?thesis
  proof (cases "c_tokens d s = []")
    case True
    then have "?s = []" by (intro dropWhile_all) (auto simp: c_tokens_eq_Nil)
    with True show ?thesis by simp
  next
    case False
    then have "max 1 (length (c_tokens d s)) = length (c_tokens d s)"
      by (cases "c_tokens d s") auto
    with False cnt its_pieces_tokens [of d s] show ?thesis by (simp only: if_False)
  qed
qed

lemma split_issue_type_bufs:
  assumes "0 < bl" and "0 < sl"
  shows "split_issue_type (Some s) (Some (bl, x)) (Some (sl, y)) =
    (Some (take (bl - 1) (takeWhile (\<lambda>c. c \<noteq> CHR ''_'') s)),
     Some (let u = dropWhile (\<lambda>c. c \<noteq> CHR ''_'') s
           in if length u \<le> RRD_MAX_SUFFIX_LEN then take (sl - 1) (filter suffix_char u) else []))"
proof (cases "c_strchr s (CHR ''_'')")
  case None
  then have "takeWhile (\<lambda>c. c \<noteq> CHR ''_'') s = s" "dropWhile (\<lambda>c. c \<noteq> CHR ''_'') s = []"
    by (simp_all add: takeWhile_neq_id dropWhile_neq_Nil)
  with None assms show ?thesis by (simp add: split_issue_type_def del: c_strchr_None)
next
  case (Some u)
  then have u: "u = dropWhile (\<lambda>c. c \<noteq> CHR ''_'') s" by (simp add: c_strchr_Some)
  have s: "s = takeWhile (\<lambda>c. c \<noteq> CHR ''_'') s @ u" using u by simp
  then have "length s - length u = length (takeWhile (\<lambda>c. c \<noteq> CHR ''_'') s)"
    by (metis add_diff_cancel_right' length_append)
  moreover have "take n s = take n (takeWhile (\<lambda>c. c \<noteq> CHR ''_'') s)"
    if "n \<le> length (takeWhile (\<lambda>c. c \<noteq> CHR ''_'') s)" for n
    using that by (subst s) simp
  ultimately show ?thesis
    using Some assms u by (auto simp: split_issue_type_def Let_def sit_copy_take)
qed

lemma getIssueInfo_True:
  "getIssueInfo True s =
    (let ts = c_tokens (CHR ''.'') s in
     if ts = [] \<or> (CHR ''.'' \<in> set s \<and> length ts = 1) then Inl UninitRead
     else Inr \<lparr>Node = Own (ts ! 0), subNode = (if CHR ''.'' \<in> set s then Own (ts ! 1) else Null)\<rparr>)"
proof -
  have "length (c_tokens (CHR ''.'') s) \<le> Suc (getParamcount s)"
    by (simp add: getParamcount_count length_c_tokens)
  moreover have "getParamcount s = 0 \<longleftrightarrow> CHR ''.'' \<notin> set s"
    by (simp add: getParamcount_count count_list_0_iff)
  ultimately show ?thesis
    by (cases "c_tokens (CHR ''.'') s") (auto simp: getIssueInfo_def Let_def Suc_lessI)
qed

lemma checkAppendRequest_suffix:
  "checkAppendRequest s =
     (if suffix APPEND_SUFFIX s then (True, take (length s - length APPEND_SUFFIX) s) else (False, s))"
proof -
  have "suffix APPEND_SUFFIX s \<longleftrightarrow>
      length APPEND_SUFFIX \<le> length s \<and> drop (length s - length APPEND_SUFFIX) s = APPEND_SUFFIX"
    by (auto simp: suffix_def) (metis append_take_drop_id)
  then show ?thesis by (auto simp: checkAppendRequest_def Let_def)
qed

lemma hd_filter_take:
  "take n (filter P (c # cs)) \<noteq> [] \<Longrightarrow> P c \<Longrightarrow> hd (take n (filter P (c # cs))) = c"
  by (cases n) auto

lemma dropWhile_neq_hd: "dropWhile (\<lambda>c. c \<noteq> d) s = [] \<or> (\<exists>r. dropWhile (\<lambda>c. c \<noteq> d) s = d # r)"
  by (induction s) auto

lemma take_filter_suffix:
  "take n (filter suffix_char (dropWhile (\<lambda>c. c \<noteq> CHR ''_'') s)) = []
   \<or> hd (take n (filter suffix_char (dropWhile (\<lambda>c. c \<noteq> CHR ''_'') s))) = CHR ''_''"
  using dropWhile_neq_hd [of "CHR ''_''" s] hd_filter_take [of n suffix_char "CHR ''_''"]
  by (auto simp: suffix_char_def)

section \<open>Properties\<close>

text \<open>
  C17: Splitting an issue type into buffers of nonzero size: the base is the text before
  the first underscore, cut to the buffer, and never holds an underscore; the suffix fits
  its buffer, has at most nine characters, only letters, digits, underscore and hyphen,
  starts with the underscore, and is the sanitised tail when that tail has at most nine
  characters and the buffer is larger than nine.
\<close>

theorem split_issue_type_safe:
  assumes "0 < bl" and "0 < sl"
  shows "\<exists>b u. split_issue_type (Some s) (Some (bl, x)) (Some (sl, y)) = (Some b, Some u)
    \<and> b = take (bl - 1) (takeWhile (\<lambda>c. c \<noteq> CHR ''_'') s) \<and> CHR ''_'' \<notin> set b \<and> length b < bl
    \<and> length u < sl \<and> length u \<le> RRD_MAX_SUFFIX_LEN \<and> list_all suffix_char u
    \<and> (u = [] \<or> hd u = CHR ''_'')
    \<and> (RRD_MAX_SUFFIX_LEN < sl \<longrightarrow>
         u = (if length (dropWhile (\<lambda>c. c \<noteq> CHR ''_'') s) \<le> RRD_MAX_SUFFIX_LEN
              then filter suffix_char (dropWhile (\<lambda>c. c \<noteq> CHR ''_'') s) else []))"
proof -
  let ?u = "dropWhile (\<lambda>c. c \<noteq> CHR ''_'') s"
  let ?f = "filter suffix_char ?u"
  have short: "length ?f \<le> RRD_MAX_SUFFIX_LEN" if "length ?u \<le> RRD_MAX_SUFFIX_LEN"
    using that length_filter_le [of suffix_char ?u] by (rule le_trans [rotated])
  then have "length (take (sl - 1) ?f) \<le> RRD_MAX_SUFFIX_LEN" if "length ?u \<le> RRD_MAX_SUFFIX_LEN"
    using that by simp
  moreover have "take (sl - 1) ?f = ?f"
    if "length ?u \<le> RRD_MAX_SUFFIX_LEN" "RRD_MAX_SUFFIX_LEN < sl"
    using short that by simp
  moreover have "length (take (sl - 1) ?f) < sl" using assms(2) by simp
  moreover have "CHR ''_'' \<notin> set (take (bl - 1) (takeWhile (\<lambda>c. c \<noteq> CHR ''_'') s))"
    by (auto dest: in_set_takeD set_takeWhileD)
  moreover have "list_all suffix_char (take (sl - 1) (filter suffix_char ?u))"
    by (auto simp: list_all_iff dest: in_set_takeD)
  moreover have "length (take (bl - 1) (takeWhile (\<lambda>c. c \<noteq> CHR ''_'') s)) < bl"
    using assms(1) by simp
  ultimately show ?thesis
    using assms take_filter_suffix [of "sl - 1" s]
    by (auto simp: split_issue_type_bufs Let_def simp del: length_take take_all_iff)
qed

theorem split_issue_type_safe_witness:
  "split_issue_type (Some ''Device.DeviceTime_ab;rm'') (Some (128, [])) (Some (128, []))
     = (Some ''Device.DeviceTime'', Some ''_abrm'')"
proof -
  have "(0::nat) < 128" by simp
  from split_issue_type_safe [OF this this, of "''Device.DeviceTime_ab;rm''" "[]" "[]"]
  show ?thesis
    by (simp add: RRD_MAX_SUFFIX_LEN_def suffix_char_def c_class_defs)
qed

text \<open>
  C19: Extracting the nodes of an issue string, in every case: it reads an uninitialised
  pointer exactly when the string holds no token, or holds a dot and only one token (as
  in a trailing dot); otherwise the node is the first token and the sub-node the second
  one if there is a dot. The token array itself is never overrun.
\<close>

theorem getIssueInfo_outcome:
  "getIssueInfo True s =
    (let ts = c_tokens (CHR ''.'') s in
     if ts = [] \<or> (CHR ''.'' \<in> set s \<and> length ts = 1) then Inl UninitRead
     else Inr \<lparr>Node = Own (ts ! 0), subNode = (if CHR ''.'' \<in> set s then Own (ts ! 1) else Null)\<rparr>)"
  by (rule getIssueInfo_True)

text \<open>An issue type with a trailing dot passes every earlier check and reads garbage.\<close>

lemma trailing_dot_reads_uninitialised:
  "removeSpecialCharacterfromIssueTypeList ''Device.'' = ''Device.''
   \<and> getIssueInfo True ''Device.'' = Inl UninitRead"
  by (simp add: removeSpecialCharacterfromIssueTypeList_def compact_filter issue_char_def
      c_class_defs getIssueInfo_True c_tokens_Cons)

text \<open>
  The append mark that the download request stores is recognised and removed again,
  and only strings that end with it are recognised; any other string is left alone.
\<close>

theorem checkAppendRequest_roundtrip:
  "checkAppendRequest (s @ APPEND_SUFFIX) = (True, s)
   \<and> fst (checkAppendRequest t) = suffix APPEND_SUFFIX t
   \<and> t = snd (checkAppendRequest t) @ (if fst (checkAppendRequest t) then APPEND_SUFFIX else [])"
proof -
  have "t = take (length t - length APPEND_SUFFIX) t @ APPEND_SUFFIX" if "suffix APPEND_SUFFIX t"
    using that by (auto simp: suffix_def)
  then show ?thesis by (auto simp: checkAppendRequest_suffix suffix_def)
qed

end
