(* ===== verification/RRD_Cache.thy ===== *)
theory RRD_Cache
  imports RRD_Types
begin

text \<open>
  The package cache of \<^verbatim>\<open>src/src/rrdRunCmdThread.c\<close>: a doubly linked list on the heap
  that remembers which issue asked for which package while the download manager works.
  Nodes live in an explicit store, so that reading or freeing a node after \<open>free\<close> is a
  fault. The lemmas show that the pointer code implements a list with the newest request
  in front; the locale \<open>pending_packages\<close> is what the download handlers use of it.
  The mutex only makes each operation atomic: an operation here is one critical section.
\<close>

section \<open>Model\<close>

record cacheData =
  c_mdata :: "string cptr"
  c_issueString :: "string cptr"
  c_next :: "nat option"
  c_prev :: "nat option"

text \<open>
  The heap of cache nodes, the global \<open>cacheDataNode\<close>, and the number of nodes allocated
  so far, which is the address of the next one.
\<close>

record cstate =
  cheap :: "nat \<Rightarrow> cacheData option"
  cacheDataNode :: "nat option"
  cfresh :: nat

definition initCache :: "cstate \<Rightarrow> cstate" where
  "initCache cs = cs\<lparr>cacheDataNode := None\<rparr>"

definition cache_start :: cstate where
  "cache_start = initCache \<lparr>cheap = (\<lambda>_. None), cacheDataNode = None, cfresh = 0\<rparr>"

definition node_at :: "cstate \<Rightarrow> nat \<Rightarrow> fault + cacheData" where
  "node_at cs a = (case cheap cs a of None \<Rightarrow> Inl UseAfterFree | Some n \<Rightarrow> Inr n)"

text \<open>
  \<open>print_items\<close>: what the loop logs. A walk that visits more nodes than were ever
  allocated has met a node twice, so the loop would not end.
\<close>

fun print_loop :: "nat \<Rightarrow> cstate \<Rightarrow> nat option \<Rightarrow> fault + (string cptr \<times> string cptr) list" where
  "print_loop fuel cs None = Inr []"
| "print_loop 0 cs (Some a) = Inl NoReturn"
| "print_loop (Suc fuel) cs (Some a) =
     (case node_at cs a of
        Inl e \<Rightarrow> Inl e
      | Inr n \<Rightarrow> (case print_loop fuel cs (c_next n) of
                   Inl e \<Rightarrow> Inl e
                 | Inr rest \<Rightarrow> Inr ((c_mdata n, c_issueString n) # rest)))"

definition print_items :: "nat option \<Rightarrow> cstate \<Rightarrow> fault + (string cptr \<times> string cptr) list" where
  "print_items node cs = print_loop (cfresh cs) cs node"

definition createCache :: "bool \<Rightarrow> string cptr \<Rightarrow> string cptr \<Rightarrow> cstate \<Rightarrow> nat option \<times> cstate" where
  "createCache mem pkgData issueTypeData cs =
     (if mem
      then (Some (cfresh cs),
            cs\<lparr>cheap := (cheap cs)(cfresh cs \<mapsto>
                 \<lparr>c_mdata = pkgData, c_issueString = issueTypeData, c_next = None, c_prev = None\<rparr>),
               cfresh := Suc (cfresh cs)\<rparr>)
      else (None, cs))"

definition set_next :: "nat \<Rightarrow> nat option \<Rightarrow> cstate \<Rightarrow> fault + cstate" where
  "set_next a v cs = (case node_at cs a of Inl e \<Rightarrow> Inl e
     | Inr n \<Rightarrow> Inr (cs\<lparr>cheap := (cheap cs)(a \<mapsto> n\<lparr>c_next := v\<rparr>)\<rparr>))"

definition set_prev :: "nat \<Rightarrow> nat option \<Rightarrow> cstate \<Rightarrow> fault + cstate" where
  "set_prev a v cs = (case node_at cs a of Inl e \<Rightarrow> Inl e
     | Inr n \<Rightarrow> Inr (cs\<lparr>cheap := (cheap cs)(a \<mapsto> n\<lparr>c_prev := v\<rparr>)\<rparr>))"

definition append_item :: "bool \<Rightarrow> string cptr \<Rightarrow> string cptr \<Rightarrow> cstate \<Rightarrow> fault + cstate" where
  "append_item mem pkgData issueTypeData cs =
     (case createCache mem pkgData issueTypeData cs of
        (None, cs1) \<Rightarrow> Inr cs1
      | (Some tmp, cs1) \<Rightarrow>
          (case cacheDataNode cs1 of
             None \<Rightarrow> Inr (cs1\<lparr>cacheDataNode := Some tmp\<rparr>)
           | Some rrdCachecnode \<Rightarrow>
               (case set_next tmp (Some rrdCachecnode) cs1 of Inl e \<Rightarrow> Inl e
                | Inr cs2 \<Rightarrow>
                  (case set_prev rrdCachecnode (Some tmp) cs2 of Inl e \<Rightarrow> Inl e
                   | Inr cs3 \<Rightarrow> Inr (cs3\<lparr>cacheDataNode := Some tmp\<rparr>)))))"

text \<open>\<open>strcmp\<close> of a node's package name; a NULL name does not match.\<close>

definition name_matches :: "string cptr \<Rightarrow> string \<Rightarrow> fault + bool" where
  "name_matches p pkgData = (case p of Null \<Rightarrow> Inr False | Dangling \<Rightarrow> Inl UseAfterFree
     | Own s \<Rightarrow> Inr (s = pkgData))"

fun find_loop :: "nat \<Rightarrow> cstate \<Rightarrow> nat option \<Rightarrow> string \<Rightarrow> fault + nat option" where
  "find_loop fuel cs None pkgData = Inr None"
| "find_loop 0 cs (Some a) pkgData = Inl NoReturn"
| "find_loop (Suc fuel) cs (Some a) pkgData =
     (case node_at cs a of
        Inl e \<Rightarrow> Inl e
      | Inr n \<Rightarrow> (case name_matches (c_mdata n) pkgData of
                   Inl e \<Rightarrow> Inl e
                 | Inr True \<Rightarrow> Inr (Some a)
                 | Inr False \<Rightarrow> find_loop fuel cs (c_next n) pkgData))"

definition findPresentInCache :: "string \<Rightarrow> cstate \<Rightarrow> fault + nat option" where
  "findPresentInCache pkgData cs = find_loop (cfresh cs) cs (cacheDataNode cs) pkgData"

definition freecacheDataCacheNode :: "nat \<Rightarrow> cstate \<Rightarrow> fault + cstate" where
  "freecacheDataCacheNode a cs =
     (case node_at cs a of Inl e \<Rightarrow> Inl e
      | Inr n \<Rightarrow> (case c_free (c_mdata n) of Inl e \<Rightarrow> Inl e
        | Inr _ \<Rightarrow> (case c_free (c_issueString n) of Inl e \<Rightarrow> Inl e
          | Inr _ \<Rightarrow> Inr (cs\<lparr>cheap := (cheap cs)(a := None)\<rparr>))))"

definition unlink :: "nat \<Rightarrow> cstate \<Rightarrow> fault + cstate" where
  "unlink cache cs =
     (case node_at cs cache of Inl e \<Rightarrow> Inl e
      | Inr n \<Rightarrow>
          (if cacheDataNode cs = Some cache
           then (case c_next n of
                   None \<Rightarrow> Inr (cs\<lparr>cacheDataNode := None\<rparr>)
                 | Some nx \<Rightarrow> set_prev nx None (cs\<lparr>cacheDataNode := Some nx\<rparr>))
           else (case (case c_next n of None \<Rightarrow> Inr cs | Some nx \<Rightarrow> set_prev nx (c_prev n) cs) of
                   Inl e \<Rightarrow> Inl e
                 | Inr cs1 \<Rightarrow> (case c_prev n of None \<Rightarrow> Inr cs1 | Some pv \<Rightarrow> set_next pv (c_next n) cs1))))"

definition remove_item :: "nat option \<Rightarrow> cstate \<Rightarrow> fault + cstate" where
  "remove_item cache cs =
     (case cache of
        None \<Rightarrow> Inr cs
      | Some a \<Rightarrow> (case unlink a cs of Inl e \<Rightarrow> Inl e | Inr cs1 \<Rightarrow> freecacheDataCacheNode a cs1))"

section \<open>The shape of the list\<close>

definition first_addr :: "nat list \<Rightarrow> nat option \<Rightarrow> nat option" where
  "first_addr as q = (case as of [] \<Rightarrow> q | b # _ \<Rightarrow> Some b)"

definition last_addr :: "nat option \<Rightarrow> nat list \<Rightarrow> nat option" where
  "last_addr p as = (if as = [] then p else Some (last as))"

fun dll :: "(nat \<Rightarrow> cacheData option) \<Rightarrow> nat option \<Rightarrow> nat list \<Rightarrow> nat option \<Rightarrow> bool" where
  "dll h p [] q = True"
| "dll h p (a # as) q =
     (\<exists>n. h a = Some n \<and> c_prev n = p \<and> c_next n = first_addr as q \<and> dll h (Some a) as q)"

definition node_live :: "cacheData \<Rightarrow> bool" where
  "node_live n \<longleftrightarrow> live (c_mdata n) \<and> live (c_issueString n)"

definition cache_inv :: "cstate \<Rightarrow> nat list \<Rightarrow> bool" where
  "cache_inv cs as \<longleftrightarrow>
     dll (cheap cs) None as None \<and> cacheDataNode cs = first_addr as None \<and> distinct as
     \<and> dom (cheap cs) = set as \<and> (\<forall>a \<in> set as. a < cfresh cs)
     \<and> (\<forall>a \<in> set as. node_live (the (cheap cs a)))"

definition node_item :: "cacheData \<Rightarrow> string cptr \<times> string cptr" where
  "node_item n = (c_mdata n, c_issueString n)"

definition items_of :: "cstate \<Rightarrow> nat list \<Rightarrow> (string cptr \<times> string cptr) list" where
  "items_of cs as = map (\<lambda>a. node_item (the (cheap cs a))) as"

lemma first_addr_simps [simp]: "first_addr [] q = q" "first_addr (b # bs) q = Some b"
  by (simp_all add: first_addr_def)

lemma last_addr_simps [simp]: "last_addr p [] = p" "last_addr p (as @ [b]) = Some b"
  by (simp_all add: last_addr_def)

lemma last_addr_Cons: "last_addr p (a # as) = last_addr (Some a) as"
  by (simp add: last_addr_def)

lemma dll_append:
  "dll h p (xs @ ys) q \<longleftrightarrow> dll h p xs (first_addr ys q) \<and> dll h (last_addr p xs) ys q"
proof (induction xs arbitrary: p)
  case (Cons a xs)
  have "first_addr (xs @ ys) q = first_addr xs (first_addr ys q)" by (cases xs) auto
  with Cons show ?case by (auto simp: last_addr_Cons)
qed simp

lemma dll_upd [simp]: "a \<notin> set as \<Longrightarrow> dll (h(a := x)) p as q = dll h p as q"
  by (induction as arbitrary: p) auto

text \<open>Replacing the back pointer of the first node, and the forward pointer of the last.\<close>

lemma dll_set_prev:
  assumes "dll h p as q" and "as = b # bs" and "distinct as"
  shows "dll (h(b \<mapsto> the (h b)\<lparr>c_prev := p'\<rparr>)) p' as q"
  using assms by auto

lemma dll_set_next:
  "dll h p (bs @ [b]) q \<Longrightarrow> b \<notin> set bs \<Longrightarrow>
   dll (h(b \<mapsto> the (h b)\<lparr>c_next := q'\<rparr>)) p (bs @ [b]) q'"
  by (auto simp: dll_append)

lemma node_at_simps [simp]:
  "cheap cs a = Some n \<Longrightarrow> node_at cs a = Inr n"
  "cheap cs a = None \<Longrightarrow> node_at cs a = Inl UseAfterFree"
  by (simp_all add: node_at_def)

lemma cache_inv_length: "cache_inv cs as \<Longrightarrow> length as \<le> cfresh cs"
proof -
  assume "cache_inv cs as"
  then have "distinct as" "set as \<subseteq> {..<cfresh cs}" by (auto simp: cache_inv_def)
  then show ?thesis
    using card_mono [of "{..<cfresh cs}" "set as"] distinct_card [of as] by simp
qed

section \<open>Walking the list\<close>

lemma print_loop_dll:
  "dll (cheap cs) p as None \<Longrightarrow> length as \<le> fuel \<Longrightarrow>
   print_loop fuel cs (first_addr as None) = Inr (items_of cs as)"
proof (induction as arbitrary: p fuel)
  case (Cons a as)
  then show ?case
    by (cases fuel) (auto simp: items_of_def node_item_def)
qed (simp add: items_of_def)

lemma print_items_inv:
  "cache_inv cs as \<Longrightarrow> print_items (cacheDataNode cs) cs = Inr (items_of cs as)"
  using print_loop_dll cache_inv_length unfolding print_items_def cache_inv_def by auto

definition has_name :: "string \<Rightarrow> string cptr \<times> string cptr \<Rightarrow> bool" where
  "has_name pkg it \<longleftrightarrow> fst it = Own pkg"

definition node_named :: "cstate \<Rightarrow> string \<Rightarrow> nat \<Rightarrow> bool" where
  "node_named cs pkg a \<longleftrightarrow> has_name pkg (node_item (the (cheap cs a)))"

lemma find_loop_dll:
  "dll (cheap cs) p as None \<Longrightarrow> \<forall>a \<in> set as. node_live (the (cheap cs a)) \<Longrightarrow> length as \<le> fuel \<Longrightarrow>
   find_loop fuel cs (first_addr as None) pkg = Inr (List.find (node_named cs pkg) as)"
proof (induction as arbitrary: p fuel)
  case (Cons a as)
  then obtain f where "fuel = Suc f" by (cases fuel) auto
  with Cons show ?case
    by (auto simp: name_matches_def node_named_def has_name_def node_item_def node_live_def
        split: cptr.splits)
qed simp

lemma findPresentInCache_inv:
  "cache_inv cs as \<Longrightarrow> findPresentInCache pkg cs = Inr (List.find (node_named cs pkg) as)"
  using find_loop_dll cache_inv_length unfolding findPresentInCache_def cache_inv_def by auto

section \<open>Changing the list\<close>

lemma cache_start_inv: "cache_inv cache_start []"
  by (simp add: cache_inv_def cache_start_def initCache_def)

lemma append_item_fail: "append_item False p i cs = Inr cs"
  by (simp add: append_item_def createCache_def)

lemma append_item_inv:
  assumes inv: "cache_inv cs as" and live: "live p" "live i"
  shows "\<exists>cs'. append_item True p i cs = Inr cs' \<and> cache_inv cs' (cfresh cs # as)
     \<and> items_of cs' (cfresh cs # as) = (p, i) # items_of cs as"
proof (cases as)
  case Nil
  with assms show ?thesis
    by (auto simp: append_item_def createCache_def cache_inv_def items_of_def node_item_def node_live_def)
next
  case (Cons b bs)
  let ?a = "cfresh cs"
  from inv have new: "?a \<notin> set as" by (auto simp: cache_inv_def)
  from inv Cons obtain n where n: "cheap cs b = Some n" by (auto simp: cache_inv_def)
  from Cons new have "?a \<noteq> b" by auto
  let ?h = "(cheap cs)(?a \<mapsto> \<lparr>c_mdata = p, c_issueString = i, c_next = Some b, c_prev = None\<rparr>,
    b \<mapsto> n\<lparr>c_prev := Some ?a\<rparr>)"
  let ?cs = "cs\<lparr>cheap := ?h, cfresh := Suc ?a, cacheDataNode := Some ?a\<rparr>"
  have eq: "append_item True p i cs = Inr ?cs"
    using inv Cons n \<open>?a \<noteq> b\<close>
    by (simp add: append_item_def createCache_def cache_inv_def set_next_def set_prev_def node_at_def)
  have "dom ?h = insert ?a (set as)"
    using inv Cons by (auto simp: cache_inv_def dom_def)
  moreover have "\<forall>x \<in> set (?a # as). node_live (the (?h x))"
    using inv live n by (auto simp: cache_inv_def node_live_def)
  moreover have "dll ?h None (?a # as) None"
    using inv Cons n new \<open>?a \<noteq> b\<close> by (auto simp: cache_inv_def)
  ultimately have "cache_inv ?cs (?a # as)"
    using inv new by (auto simp: cache_inv_def less_Suc_eq)
  moreover have "items_of ?cs (?a # as) = (p, i) # items_of cs as"
    using new n \<open>?a \<noteq> b\<close> by (auto simp: items_of_def node_item_def)
  ultimately show ?thesis using eq by blast
qed

text \<open>
  Unlinking a node: the neighbours point past it, no other field changes, so the other
  nodes keep their items.
\<close>

definition same_items :: "cstate \<Rightarrow> cstate \<Rightarrow> bool" where
  "same_items cs cs' \<longleftrightarrow> cfresh cs' = cfresh cs \<and> dom (cheap cs') = dom (cheap cs)
     \<and> (\<forall>a. map_option node_item (cheap cs' a) = map_option node_item (cheap cs a))"

lemma same_items_upd:
  assumes "cheap cs b = Some n" and "node_item n' = node_item n"
  shows "same_items cs (cs\<lparr>cheap := (cheap cs)(b \<mapsto> n')\<rparr>)"
  using assms by (auto simp: same_items_def dom_def)

lemma same_items_trans: "same_items a b \<Longrightarrow> same_items b c \<Longrightarrow> same_items a c"
  by (simp add: same_items_def)

lemma same_items_refl [simp]: "same_items a a"
  by (simp add: same_items_def)

lemma same_items_the:
  assumes "same_items cs cs'" and "a \<in> dom (cheap cs)"
  shows "node_item (the (cheap cs' a)) = node_item (the (cheap cs a))"
  using assms unfolding same_items_def by (metis (no_types) domIff option.map_sel)

lemma set_prev_links:
  assumes "dll (cheap cs) p (a # as) q" and "distinct (a # as)"
  shows "\<exists>cs'. set_prev a v cs = Inr cs' \<and> dll (cheap cs') v (a # as) q \<and> same_items cs cs'
    \<and> cacheDataNode cs' = cacheDataNode cs \<and> (\<forall>x. x \<noteq> a \<longrightarrow> cheap cs' x = cheap cs x)"
proof -
  from assms obtain n where "cheap cs a = Some n" by auto
  with assms same_items_upd [of cs a n "n\<lparr>c_prev := v\<rparr>"] show ?thesis
    by (auto simp: set_prev_def node_item_def)
qed

lemma set_next_links:
  assumes "dll (cheap cs) p (as @ [a]) q" and "a \<notin> set as"
  shows "\<exists>cs'. set_next a v cs = Inr cs' \<and> dll (cheap cs') p (as @ [a]) v \<and> same_items cs cs'
    \<and> cacheDataNode cs' = cacheDataNode cs \<and> (\<forall>x. x \<noteq> a \<longrightarrow> cheap cs' x = cheap cs x)"
proof -
  from assms obtain n where "cheap cs a = Some n" by (auto simp: dll_append)
  with assms same_items_upd [of cs a n "n\<lparr>c_next := v\<rparr>"] show ?thesis
    by (auto simp: set_next_def node_item_def dll_append)
qed

lemma dll_cong:
  "(\<And>x. x \<in> set as \<Longrightarrow> h' x = h x) \<Longrightarrow> dll h' p as q = dll h p as q"
  by (induction as arbitrary: p) auto

text \<open>The node left of the removed one gets its forward pointer.\<close>

lemma relink_prev:
  assumes "dll (cheap cs) None xs q" and "xs = bs @ [b]" and "distinct xs"
  shows "\<exists>cs'. set_next b v cs = Inr cs' \<and> dll (cheap cs') None xs v \<and> same_items cs cs'
    \<and> cacheDataNode cs' = cacheDataNode cs \<and> (\<forall>x. x \<notin> set xs \<longrightarrow> cheap cs' x = cheap cs x)"
  using set_next_links [of cs None bs b q v] assms by auto

text \<open>The node right of the removed one, if any, gets its back pointer.\<close>

lemma relink_next:
  assumes "dll (cheap cs) p ys None" and "distinct ys"
  shows "\<exists>cs'. (case first_addr ys None of None \<Rightarrow> Inr cs | Some nx \<Rightarrow> set_prev nx v cs) = Inr cs'
    \<and> dll (cheap cs') v ys None \<and> same_items cs cs' \<and> cacheDataNode cs' = cacheDataNode cs
    \<and> (\<forall>x. x \<notin> set ys \<longrightarrow> cheap cs' x = cheap cs x)"
proof (cases ys)
  case (Cons c zs)
  then show ?thesis using set_prev_links [of cs p c zs None v] assms by auto
qed simp

lemma unlink_head:
  assumes "dll (cheap cs) None (a # ys) None" and "distinct (a # ys)" and "cacheDataNode cs = Some a"
  shows "\<exists>cs'. unlink a cs = Inr cs' \<and> dll (cheap cs') None ys None
    \<and> cacheDataNode cs' = first_addr ys None \<and> same_items cs cs'"
proof -
  let ?cs = "cs\<lparr>cacheDataNode := first_addr ys None\<rparr>"
  have same: "same_items cs ?cs" by (simp add: same_items_def)
  from assms have "dll (cheap ?cs) (Some a) ys None" "distinct ys" by auto
  from relink_next [OF this, of None] obtain cs'
    where "(case first_addr ys None of None \<Rightarrow> Inr ?cs | Some nx \<Rightarrow> set_prev nx None ?cs) = Inr cs'"
      and "dll (cheap cs') None ys None" "same_items ?cs cs'" "cacheDataNode cs' = first_addr ys None"
    by auto
  moreover from this have "unlink a cs = Inr cs'"
    using assms by (cases ys) (auto simp: unlink_def)
  ultimately show ?thesis using same_items_trans [OF same] by auto
qed

lemma unlink_inner:
  assumes dll: "dll (cheap cs) None (xs @ a # ys) None" and "distinct (xs @ a # ys)"
    and "cacheDataNode cs = first_addr (xs @ a # ys) None" and xs: "xs = bs @ [b]"
  shows "\<exists>cs'. unlink a cs = Inr cs' \<and> dll (cheap cs') None (xs @ ys) None
    \<and> cacheDataNode cs' = first_addr (xs @ ys) None \<and> same_items cs cs'"
proof -
  from assms obtain n where n: "cheap cs a = Some n" "c_prev n = Some b" "c_next n = first_addr ys None"
    by (auto simp: dll_append)
  from dll have parts: "dll (cheap cs) None xs (Some a)" "dll (cheap cs) (Some a) ys None"
    by (auto simp: dll_append)
  from relink_next [OF parts(2), of "Some b"] assms(2) obtain cs1
    where cs1: "(case first_addr ys None of None \<Rightarrow> Inr cs | Some nx \<Rightarrow> set_prev nx (Some b) cs) = Inr cs1"
      "dll (cheap cs1) (Some b) ys None" "same_items cs cs1" "cacheDataNode cs1 = cacheDataNode cs"
      "\<forall>x. x \<notin> set ys \<longrightarrow> cheap cs1 x = cheap cs x"
    by auto
  have "dll (cheap cs1) None xs (Some a)"
    using parts(1) cs1(5) assms(2) by (subst dll_cong [where h = "cheap cs"]) auto
  from relink_prev [OF this xs, of "first_addr ys None"] assms(2) obtain cs2
    where cs2: "set_next b (first_addr ys None) cs1 = Inr cs2" "dll (cheap cs2) None xs (first_addr ys None)"
      "same_items cs1 cs2" "cacheDataNode cs2 = cacheDataNode cs1"
      "\<forall>x. x \<notin> set xs \<longrightarrow> cheap cs2 x = cheap cs1 x"
    by auto
  have "dll (cheap cs2) (Some b) ys None"
    using cs1(2) cs2(5) assms(2) by (subst dll_cong [where h = "cheap cs1"]) auto
  with cs2(2) xs have "dll (cheap cs2) None (xs @ ys) None" by (simp add: dll_append)
  moreover have "cacheDataNode cs \<noteq> Some a"
    using assms by (cases bs) auto
  then have "unlink a cs = Inr cs2"
    by (simp only: unlink_def node_at_simps(1) [OF n(1)] n(2,3) cs1(1) cs2(1) if_False sum.case option.case)
  moreover have "cacheDataNode cs2 = first_addr (xs @ ys) None"
    using cs1(4) cs2(4) assms(3) xs by (cases bs) auto
  ultimately show ?thesis using same_items_trans [OF cs1(3) cs2(3)] by blast
qed

lemma unlink_inv:
  assumes "cache_inv cs (xs @ a # ys)"
  shows "\<exists>cs'. unlink a cs = Inr cs' \<and> dll (cheap cs') None (xs @ ys) None
    \<and> cacheDataNode cs' = first_addr (xs @ ys) None \<and> same_items cs cs'"
  using assms unlink_head [of cs a ys] unlink_inner [of cs xs a ys "butlast xs" "last xs"]
  by (cases "xs = []") (auto simp: cache_inv_def)

lemma remove_item_inv:
  assumes inv: "cache_inv cs (xs @ a # ys)"
  shows "\<exists>cs'. remove_item (Some a) cs = Inr cs' \<and> cache_inv cs' (xs @ ys)
    \<and> items_of cs' (xs @ ys) = items_of cs (xs @ ys)"
proof -
  let ?as = "xs @ a # ys"
  from unlink_inv [OF inv] obtain cs1 where
    cs1: "unlink a cs = Inr cs1" "dll (cheap cs1) None (xs @ ys) None"
      "cacheDataNode cs1 = first_addr (xs @ ys) None" "same_items cs cs1" by blast
  have same: "node_item (the (cheap cs1 x)) = node_item (the (cheap cs x))" if "x \<in> set ?as" for x
    using that inv by (intro same_items_the [OF cs1(4)]) (auto simp: cache_inv_def)
  then have live: "node_live (the (cheap cs1 x))" if "x \<in> set ?as" for x
    using that inv by (auto simp: cache_inv_def node_live_def node_item_def)
  have dom: "dom (cheap cs1) = set ?as" and fresh: "cfresh cs1 = cfresh cs"
    using cs1(4) inv by (auto simp: same_items_def cache_inv_def)
  then obtain n where n: "cheap cs1 a = Some n" by fastforce
  let ?cs = "cs1\<lparr>cheap := (cheap cs1)(a := None)\<rparr>"
  have "remove_item (Some a) cs = Inr ?cs"
    using cs1(1) n live [of a] by (auto simp: remove_item_def freecacheDataCacheNode_def node_live_def)
  moreover have "cache_inv ?cs (xs @ ys)"
    using inv cs1(2,3) dom fresh live by (auto simp: cache_inv_def)
  moreover have "items_of ?cs (xs @ ys) = items_of cs (xs @ ys)"
    using inv same by (auto simp: items_of_def cache_inv_def)
  ultimately show ?thesis by blast
qed

section \<open>The cache implements a list\<close>

text \<open>
  The specification: the list of (package, issue) pairs, newest first. A completed
  download takes the newest entry with that package name.
\<close>

type_synonym cache_spec = "(string cptr \<times> string cptr) list"

definition cache_rep :: "cstate \<Rightarrow> cache_spec \<Rightarrow> bool" where
  "cache_rep cs its \<longleftrightarrow> (\<exists>as. cache_inv cs as \<and> items_of cs as = its)"

fun drop_first :: "string \<Rightarrow> cache_spec \<Rightarrow> cache_spec" where
  "drop_first pkg [] = []"
| "drop_first pkg (it # its) = (if has_name pkg it then its else it # drop_first pkg its)"

lemma cache_rep_start: "cache_rep cache_start []"
  using cache_start_inv by (auto simp: cache_rep_def items_of_def)

lemma cache_rep_print: "cache_rep cs its \<Longrightarrow> print_items (cacheDataNode cs) cs = Inr its"
  using print_items_inv by (auto simp: cache_rep_def)

lemma cache_rep_append:
  "cache_rep cs its \<Longrightarrow> live p \<Longrightarrow> live i \<Longrightarrow>
   \<exists>cs'. append_item True p i cs = Inr cs' \<and> cache_rep cs' ((p, i) # its)"
  using append_item_inv unfolding cache_rep_def by blast

lemma find_split:
  "List.find (node_named cs pkg) as = Some a \<Longrightarrow>
   \<exists>xs ys. as = xs @ a # ys \<and> (\<forall>x \<in> set xs. \<not> node_named cs pkg x) \<and> node_named cs pkg a"
  by (induction as) (auto split: if_splits intro: exI [of _ "[]"], metis append_Cons set_ConsD)

lemma drop_first_items:
  "(\<forall>x \<in> set xs. \<not> node_named cs pkg x) \<Longrightarrow> node_named cs pkg a \<Longrightarrow>
   drop_first pkg (items_of cs (xs @ a # ys)) = items_of cs (xs @ ys)"
  by (induction xs) (auto simp: items_of_def node_named_def)

text \<open>Looking up: NULL exactly when no entry has the name, otherwise the newest one.\<close>

lemma cache_rep_find:
  assumes "cache_rep cs its"
  shows "(findPresentInCache pkg cs = Inr None \<and> List.find (has_name pkg) its = None)
    \<or> (\<exists>a n. findPresentInCache pkg cs = Inr (Some a) \<and> cheap cs a = Some n
        \<and> List.find (has_name pkg) its = Some (node_item n) \<and> live (c_issueString n))"
proof -
  from assms obtain as where as: "cache_inv cs as" "items_of cs as = its"
    by (auto simp: cache_rep_def)
  have find: "List.find (has_name pkg) its =
      map_option (\<lambda>a. node_item (the (cheap cs a))) (List.find (node_named cs pkg) as)"
    unfolding as(2) [symmetric] items_of_def by (induction as) (auto simp: node_named_def)
  show ?thesis
  proof (cases "List.find (node_named cs pkg) as")
    case None
    with find findPresentInCache_inv [OF as(1)] show ?thesis by simp
  next
    case (Some a)
    then have "a \<in> set as" by (auto dest: find_split)
    moreover from this have "a \<in> dom (cheap cs)" using as(1) by (simp add: cache_inv_def)
    then obtain n where "cheap cs a = Some n" by blast
    moreover from calculation have "node_live n" using as(1) by (fastforce simp: cache_inv_def)
    ultimately have "cheap cs a = Some n" "node_live n" by simp_all
    with Some find findPresentInCache_inv [OF as(1)] show ?thesis
      by (auto simp: node_live_def)
  qed
qed

lemma cache_rep_remove:
  assumes "cache_rep cs its" and "findPresentInCache pkg cs = Inr (Some a)"
  shows "\<exists>cs'. remove_item (Some a) cs = Inr cs' \<and> cache_rep cs' (drop_first pkg its)"
proof -
  from assms(1) obtain as where as: "cache_inv cs as" "items_of cs as = its"
    by (auto simp: cache_rep_def)
  with assms(2) have "List.find (node_named cs pkg) as = Some a"
    using findPresentInCache_inv [OF as(1), of pkg] by simp
  then obtain xs ys where "as = xs @ a # ys" "\<forall>x \<in> set xs. \<not> node_named cs pkg x" "node_named cs pkg a"
    using find_split by blast
  with as remove_item_inv [of cs xs a ys] drop_first_items [of xs cs pkg a ys] show ?thesis
    by (auto simp: cache_rep_def)
qed

lemma remove_item_None [simp]: "remove_item None cs = Inr cs"
  by (simp add: remove_item_def)

section \<open>The interface of the download handlers\<close>

text \<open>
  What the download code relies on: a request is remembered, a completed download is
  looked up by package name and forgotten. \<open>issue_of\<close> is the issue string stored for a
  package.
\<close>

locale pending_packages =
  fixes start :: 's
    and inv :: "'s \<Rightarrow> bool"
    and request :: "string \<Rightarrow> string \<Rightarrow> 's \<Rightarrow> 's"
    and complete :: "string \<Rightarrow> 's \<Rightarrow> 's"
    and issue_of :: "'s \<Rightarrow> string \<Rightarrow> string option"
    and waiting :: "'s \<Rightarrow> string \<Rightarrow> string list"
  assumes start_inv: "inv start"
    and request_inv: "inv s \<Longrightarrow> inv (request p i s)"
    and complete_inv: "inv s \<Longrightarrow> inv (complete p s)"
    and waiting_start: "waiting start q = []"
    and waiting_request: "inv s \<Longrightarrow> waiting (request p i s) q = (if p = q then [i] else []) @ waiting s q"
    and waiting_complete: "inv s \<Longrightarrow> waiting (complete p s) q = (if p = q then tl (waiting s q) else waiting s q)"
    and issue_waiting: "inv s \<Longrightarrow> issue_of s q = (case waiting s q of [] \<Rightarrow> None | i # _ \<Rightarrow> Some i)"
begin

lemma requests_inv: "inv s \<Longrightarrow> inv (fold (\<lambda>(p, i). request p i) rs s)"
  by (induction rs arbitrary: s) (auto intro: request_inv)

lemma requests_other:
  "inv s \<Longrightarrow> q \<notin> fst ` set rs \<Longrightarrow> waiting (fold (\<lambda>(p, i). request p i) rs s) q = waiting s q"
  by (induction rs arbitrary: s) (auto simp: waiting_request request_inv)

text \<open>The answer to a download is the issue that asked for it last, whatever else is requested.\<close>

lemma request_answered:
  assumes "inv s" and "p \<notin> fst ` set rs"
  shows "issue_of (fold (\<lambda>(p, i). request p i) rs (request p i s)) p = Some i"
  using assms by (simp add: issue_waiting requests_inv request_inv requests_other waiting_request)

text \<open>Completing a package once per request leaves nothing of it behind.\<close>

lemma request_complete:
  assumes "inv s"
  shows "waiting (complete p (request p i s)) q = waiting s q"
  using assms by (simp add: waiting_complete waiting_request request_inv)

end

text \<open>
  The cache as such a store. The laws speak of the operations the handlers call:
  \<^term>\<open>append_item\<close> with a fresh allocation, and \<^term>\<open>findPresentInCache\<close> followed by
  \<^term>\<open>remove_item\<close>. A fault leaves the state alone; the laws show there is none.
\<close>

definition cache_request :: "string \<Rightarrow> string \<Rightarrow> cstate \<Rightarrow> cstate" where
  "cache_request p i cs = (case append_item True (Own p) (Own i) cs of Inl _ \<Rightarrow> cs | Inr cs' \<Rightarrow> cs')"

definition cache_complete :: "string \<Rightarrow> cstate \<Rightarrow> cstate" where
  "cache_complete p cs = (case findPresentInCache p cs of Inl _ \<Rightarrow> cs
     | Inr a \<Rightarrow> (case remove_item a cs of Inl _ \<Rightarrow> cs | Inr cs' \<Rightarrow> cs'))"

definition cache_issue :: "cstate \<Rightarrow> string \<Rightarrow> string option" where
  "cache_issue cs p = (case findPresentInCache p cs of
     Inr (Some a) \<Rightarrow> (case node_at cs a of Inr n \<Rightarrow>
        (case c_issueString n of Own i \<Rightarrow> Some i | _ \<Rightarrow> None) | Inl _ \<Rightarrow> None)
   | _ \<Rightarrow> None)"

definition cache_waiting :: "cstate \<Rightarrow> string \<Rightarrow> string list" where
  "cache_waiting cs q = (case print_items (cacheDataNode cs) cs of
     Inl _ \<Rightarrow> []
   | Inr its \<Rightarrow> map (\<lambda>it. case snd it of Own i \<Rightarrow> i | _ \<Rightarrow> []) (filter (has_name q) its))"

text \<open>All entries that the handlers make hold two strings.\<close>

definition owned_items :: "cache_spec \<Rightarrow> bool" where
  "owned_items its \<longleftrightarrow> (\<forall>it \<in> set its. \<exists>p i. it = (Own p, Own i))"

definition cache_good :: "cstate \<Rightarrow> bool" where
  "cache_good cs \<longleftrightarrow> (\<exists>its. cache_rep cs its \<and> owned_items its)"

lemma cache_waiting_rep:
  "cache_rep cs its \<Longrightarrow>
   cache_waiting cs q = map (\<lambda>it. case snd it of Own i \<Rightarrow> i | _ \<Rightarrow> []) (filter (has_name q) its)"
  by (simp add: cache_waiting_def cache_rep_print)

lemma cache_request_rep: "cache_rep cs its \<Longrightarrow> cache_rep (cache_request p i cs) ((Own p, Own i) # its)"
  using cache_rep_append [of cs its "Own p" "Own i"] by (auto simp: cache_request_def)

lemma drop_first_absent: "List.find (has_name p) its = None \<Longrightarrow> drop_first p its = its"
  by (induction its) (auto split: if_splits)

lemma cache_complete_rep:
  assumes "cache_rep cs its"
  shows "cache_rep (cache_complete p cs) (drop_first p its)"
  using cache_rep_find [OF assms, of p]
proof
  assume "findPresentInCache p cs = Inr None \<and> List.find (has_name p) its = None"
  with assms show ?thesis by (simp add: cache_complete_def drop_first_absent)
next
  assume "\<exists>a n. findPresentInCache p cs = Inr (Some a) \<and> cheap cs a = Some n
        \<and> List.find (has_name p) its = Some (node_item n) \<and> live (c_issueString n)"
  then obtain a where a: "findPresentInCache p cs = Inr (Some a)" by blast
  with cache_rep_remove [OF assms a] show ?thesis by (auto simp: cache_complete_def)
qed

lemma drop_first_subset: "set (drop_first p its) \<subseteq> set its"
  by (induction its) auto

lemma filter_drop_first:
  "filter (has_name q) (drop_first p its) =
     (if p = q then tl (filter (has_name q) its) else filter (has_name q) its)"
  by (induction its) (auto simp: has_name_def [of _ "(_, _)"])

lemma cache_issue_waiting:
  assumes "cache_rep cs its" and "owned_items its"
  shows "cache_issue cs q = (case cache_waiting cs q of [] \<Rightarrow> None | i # _ \<Rightarrow> Some i)"
proof -
  have find: "List.find (has_name q) its = (case filter (has_name q) its of [] \<Rightarrow> None | it # _ \<Rightarrow> Some it)"
    by (induction its) auto
  then have "it \<in> set its" if "List.find (has_name q) its = Some it" for it
    using that by (metis (mono_tags) find_Some_iff nth_mem)
  with assms(2) have own: "\<exists>p i. it = (Own p, Own i)" if "List.find (has_name q) its = Some it" for it
    using that by (auto simp: owned_items_def)
  from cache_rep_find [OF assms(1), of q] show ?thesis
  proof
    assume "findPresentInCache q cs = Inr None \<and> List.find (has_name q) its = None"
    with find show ?thesis
      by (auto simp: cache_issue_def cache_waiting_rep [OF assms(1)] split: list.splits)
  next
    assume "\<exists>a n. findPresentInCache q cs = Inr (Some a) \<and> cheap cs a = Some n
        \<and> List.find (has_name q) its = Some (node_item n) \<and> live (c_issueString n)"
    then obtain a n where *: "findPresentInCache q cs = Inr (Some a)" "cheap cs a = Some n"
      "List.find (has_name q) its = Some (node_item n)" by blast
    with own [of "node_item n"] find show ?thesis
      by (auto simp: cache_issue_def cache_waiting_rep [OF assms(1)] node_item_def split: list.splits)
  qed
qed

interpretation pkg: pending_packages cache_start cache_good cache_request cache_complete cache_issue cache_waiting
proof unfold_locales
  show "cache_good cache_start"
    using cache_rep_start by (auto simp: cache_good_def owned_items_def)
next
  fix cs p i
  assume "cache_good cs"
  then obtain its where its: "cache_rep cs its" "owned_items its" by (auto simp: cache_good_def)
  show "cache_good (cache_request p i cs)"
    using cache_request_rep [OF its(1)] its(2)
    unfolding cache_good_def by (intro exI [of _ "(Own p, Own i) # its"]) (auto simp: owned_items_def)
  show "cache_good (cache_complete p cs)"
    using cache_complete_rep [OF its(1), of p] its(2) drop_first_subset [of p its]
    unfolding cache_good_def owned_items_def by (intro exI [of _ "drop_first p its"]) blast
  fix q
  show "cache_waiting (cache_request p i cs) q = (if p = q then [i] else []) @ cache_waiting cs q"
    using cache_waiting_rep [OF cache_request_rep [OF its(1)]] cache_waiting_rep [OF its(1)]
    by (auto simp: has_name_def [of _ "(_, _)"])
  show "cache_waiting (cache_complete p cs) q = (if p = q then tl (cache_waiting cs q) else cache_waiting cs q)"
    using cache_waiting_rep [OF cache_complete_rep [OF its(1)]] cache_waiting_rep [OF its(1)]
    by (auto simp: filter_drop_first map_tl)
  show "cache_issue cs q = (case cache_waiting cs q of [] \<Rightarrow> None | i # _ \<Rightarrow> Some i)"
    by (rule cache_issue_waiting [OF its])
next
  fix q
  show "cache_waiting cache_start q = []"
    using cache_rep_start by (simp add: cache_waiting_rep)
qed

section \<open>Properties\<close>

text \<open>A sequence of cache operations, as the handlers make them.\<close>

datatype cache_op = Append string string | TakeOut string

fun run_cache :: "cache_op list \<Rightarrow> cstate \<Rightarrow> fault + cstate" where
  "run_cache [] cs = Inr cs"
| "run_cache (Append p i # ops) cs =
     (case append_item True (Own p) (Own i) cs of Inl e \<Rightarrow> Inl e | Inr cs' \<Rightarrow> run_cache ops cs')"
| "run_cache (TakeOut p # ops) cs =
     (case findPresentInCache p cs of Inl e \<Rightarrow> Inl e
      | Inr a \<Rightarrow> (case remove_item a cs of Inl e \<Rightarrow> Inl e | Inr cs' \<Rightarrow> run_cache ops cs'))"

fun spec_cache :: "cache_op list \<Rightarrow> cache_spec \<Rightarrow> cache_spec" where
  "spec_cache [] its = its"
| "spec_cache (Append p i # ops) its = spec_cache ops ((Own p, Own i) # its)"
| "spec_cache (TakeOut p # ops) its = spec_cache ops (drop_first p its)"

lemma run_cache_rep:
  "cache_rep cs its \<Longrightarrow> \<exists>cs'. run_cache ops cs = Inr cs' \<and> cache_rep cs' (spec_cache ops its)"
proof (induction ops its arbitrary: cs rule: spec_cache.induct)
  case (2 p i ops its)
  from cache_rep_append [OF "2.prems", of "Own p" "Own i"] "2.IH" show ?case by auto
next
  case (3 p ops its)
  from cache_rep_find [OF "3.prems", of p] show ?case
  proof
    assume "findPresentInCache p cs = Inr None \<and> List.find (has_name p) its = None"
    with "3.prems" "3.IH" show ?thesis by (auto simp: drop_first_absent)
  next
    assume "\<exists>a n. findPresentInCache p cs = Inr (Some a) \<and> cheap cs a = Some n
        \<and> List.find (has_name p) its = Some (node_item n) \<and> live (c_issueString n)"
    then obtain a where a: "findPresentInCache p cs = Inr (Some a)" by blast
    with cache_rep_remove [OF "3.prems" a] "3.IH" show ?thesis by auto
  qed
qed simp

text \<open>
  C20: Whatever sequence of requests and completed downloads arrives, the pointer code
  neither reads nor frees a freed node, every walk ends, and the list that the nodes
  form is the list of the specification: newest request first, the newest entry of a
  package taken out first.
\<close>

theorem cache_refines_list:
  "\<exists>cs. run_cache ops cache_start = Inr cs
     \<and> print_items (cacheDataNode cs) cs = Inr (spec_cache ops [])"
  using run_cache_rep [OF cache_rep_start, of ops] cache_rep_print by blast

text \<open>
  A package that was requested for an issue is answered with that issue when its
  download completes, however many other packages were requested in between; and once
  it is answered and taken out, the requests of every package are as before.
\<close>

theorem cache_answers_request:
  assumes "p \<notin> fst ` set later" and "cs = fold (\<lambda>(p, i). cache_request p i) earlier cache_start"
  shows "cache_issue (fold (\<lambda>(p, i). cache_request p i) later (cache_request p i cs)) p = Some i
    \<and> cache_waiting (cache_complete p (cache_request p i cs)) q = cache_waiting cs q"
  using assms pkg.request_answered pkg.request_complete pkg.requests_inv pkg.start_inv by blast

theorem cache_answers_request_witness:
  "cache_issue (fold (\<lambda>(p, i). cache_request p i) [(''RDK-RRD-Wifi'', ''Wifi.Scan'')]
     (cache_request ''RDK-RRD-Device'' ''Device.Info'' cache_start)) ''RDK-RRD-Device''
     = Some ''Device.Info''"
  using cache_answers_request
    [of "''RDK-RRD-Device''" "[(''RDK-RRD-Wifi'', ''Wifi.Scan'')]" cache_start "[]" "''Device.Info''"]
  by simp

text \<open>Removing a node twice through a stale pointer is caught as a fault.\<close>

lemma stale_remove_faults:
  assumes "cheap cs a = None"
  shows "remove_item (Some a) cs = Inl UseAfterFree"
  using assms by (simp add: remove_item_def unlink_def)

end
