(* ===== verification/RRD_World.thy ===== *)
theory RRD_World
  imports RRD_Issue RRD_Cache
begin

text \<open>
  The world the daemon runs in. Code under \<^verbatim>\<open>src/\<close> is modelled; the operating system,
  the message bus and the libraries it calls are functions of a record \<open>platform\<close>, which
  every definition takes as an argument. An answer may depend on how many questions were
  asked before (the field \<open>tick\<close> of the world), so a platform may fail any single call.
  What the daemon does to the outside is recorded as a list of events.

  A statement is a function on worlds; its result is a value with the new world, or a
  fault with the world at that moment, so that what was done before a crash is not lost.
  The second half of the theory is the small Hoare logic that the safety proofs use.
\<close>

section \<open>World\<close>

text \<open>Calls of the bus and power libraries when the daemon connects and disconnects.\<close>

datatype handler = IssueHandler | WebCfgHandler | DownloadHandler

datatype bus_call =
    IARM_Bus_Init
  | IARM_Bus_Connect
  | IARM_Register_RDMMGR
  | IARM_Register_PWRMGR
  | IARM_Bus_Disconnect
  | IARM_Bus_Term
  | IARM_UnRegister_RDMMGR
  | IARM_UnRegister_PWRMGR
  | PowerController_Init
  | PowerController_Connect
  | PowerController_Register
  | PowerController_UnRegister
  | PowerController_Term
  | Pthread_create
  | Pthread_detach
  | Rbus_open
  | RbusEvent_SubscribeEx "(string \<times> handler) list"
  | Rbus_regDataElements "string list"
  | RbusEvent_UnsubscribeEx nat
  | Rbus_unregDataElements "string list"
  | Rbus_close
  | Register_sub_docs string

datatype event =
    EvMkdir string
  | EvChdir string
  | EvFopen string
  | EvWrite string string
  | EvSystemdRun string string
  | EvJournalctl string
  | EvSystemctlStop string
  | EvSleep "32 word"
  | EvRbusSet string string
  | EvScript string string
  | EvUploadLogs "string list"
  | EvRemove string
  | EvSystem string
  | EvRename string string
  | EvUsleep nat
  | EvBus bus_call

record world =
  tick :: nat
  trace :: "event list"
  cache :: cstate
  mq :: "data_buf list"
  devPropData :: devicePropertiesData
  profileCategory :: string
  gWebCfgBloBVersion :: "32 word"
  isPwrCtlInterface :: bool

text \<open>The broken-down time of \<open>localtime\<close>, and the answers of \<open>flock\<close> and \<open>rename\<close>.\<close>

record tm =
  tm_year :: nat
  tm_mon :: nat
  tm_mday :: nat
  tm_hour :: nat
  tm_min :: nat
  tm_sec :: nat

datatype flock_answer = LockOpenFails | LockFree | LockHeld | LockError

datatype rename_answer = Renamed | RenameNoent | RenameError

text \<open>
  A snapshot of a directory tree as \<open>lstat\<close>, \<open>opendir\<close>, \<open>readdir\<close> and \<open>read\<close> show
  it: a file whose contents may be unreadable, a directory that may not open and whose
  entries may fail to \<open>lstat\<close>, anything else.
\<close>

record stat =
  st_mode :: "32 word"
  st_uid :: "32 word"
  st_gid :: "32 word"
  st_size :: nat
  st_mtime :: nat

datatype fdata = Unopenable | Readable string | ReadFails string

datatype fnode =
    FFile stat fdata
  | FDir stat bool "(string \<times> fnode option) list"
  | FOther stat

record 'j platform =
  bld :: build
  json :: "'j cjson_api"
  malloc_ok :: "nat \<Rightarrow> bool"
  mkdir_ok :: "nat \<Rightarrow> string \<Rightarrow> bool"
  chdir_ok :: "nat \<Rightarrow> string \<Rightarrow> bool"
  getcwd_text :: "nat \<Rightarrow> string"
  strftime_text :: "nat \<Rightarrow> string"
  epoch :: "nat \<Rightarrow> int"
  localtime :: "nat \<Rightarrow> tm option"
  pthread_id :: "nat \<Rightarrow> 64 word"
  fopen_w_ok :: "nat \<Rightarrow> string \<Rightarrow> bool"
  fprintf_ok :: "nat \<Rightarrow> bool"
  file_text :: "nat \<Rightarrow> string \<Rightarrow> string option"
  file_size :: "nat \<Rightarrow> string \<Rightarrow> nat option"
  fread_len :: "nat \<Rightarrow> nat \<Rightarrow> nat"
  secure_popen :: "nat \<Rightarrow> event \<Rightarrow> string option"
  popen_text :: "nat \<Rightarrow> string \<Rightarrow> (string \<times> int) option"
  system_rc :: "nat \<Rightarrow> string \<Rightarrow> int"
  script_rc :: "nat \<Rightarrow> string \<Rightarrow> string \<Rightarrow> int"
  opendir_names :: "nat \<Rightarrow> string \<Rightarrow> string list option"
  dir_tree :: "nat \<Rightarrow> string \<Rightarrow> fnode option"
  remove_ok :: "nat \<Rightarrow> string \<Rightarrow> bool"
  rename_rc :: "nat \<Rightarrow> string \<Rightarrow> string \<Rightarrow> rename_answer"
  gzopen_ok :: "nat \<Rightarrow> string \<Rightarrow> bool"
  gzwrite_ok :: "nat \<Rightarrow> bool"
  getpwuid :: "nat \<Rightarrow> 32 word \<Rightarrow> string option"
  getgrgid :: "nat \<Rightarrow> 32 word \<Rightarrow> string option"
  GetEstbMac :: "nat \<Rightarrow> string"
  flock_upload :: "nat \<Rightarrow> flock_answer"
  uploadstblogs_rc :: "nat \<Rightarrow> string list \<Rightarrow> int"
  rbus_set_ok :: "nat \<Rightarrow> string \<Rightarrow> string \<Rightarrow> bool"
  msgsnd_ok :: "nat \<Rightarrow> bool"
  msgrcv_ok :: "nat \<Rightarrow> bool"
  msgget_ok :: "nat \<Rightarrow> bool"
  bus_rc :: "nat \<Rightarrow> bus_call \<Rightarrow> int"
  rfc_enable :: "nat \<Rightarrow> string option"
  syscfg_init_ok :: "nat \<Rightarrow> bool"
  syscfg_get :: "nat \<Rightarrow> string option"

text \<open>
  A platform on which every call succeeds, with given files, given JSON library and given
  build; used to evaluate the model.
\<close>

definition calm :: "build \<Rightarrow> 'j cjson_api \<Rightarrow> (string \<Rightarrow> string option) \<Rightarrow> 'j platform" where
  "calm b J files =
     \<lparr>bld = b, json = J, malloc_ok = (\<lambda>_. True), mkdir_ok = (\<lambda>_ _. True), chdir_ok = (\<lambda>_ _. True),
      getcwd_text = (\<lambda>_. ''/tmp/rrd''), strftime_text = (\<lambda>_. ''2025-01-02-03-04-05''),
      epoch = (\<lambda>_. 42),
      localtime = (\<lambda>_. Some \<lparr>tm_year = 125, tm_mon = 0, tm_mday = 2, tm_hour = 3, tm_min = 4, tm_sec = 5\<rparr>),
      pthread_id = (\<lambda>_. 7), fopen_w_ok = (\<lambda>_ _. True), fprintf_ok = (\<lambda>_. True), file_text = (\<lambda>_. files),
      file_size = (\<lambda>_ f. map_option length (files f)), fread_len = (\<lambda>_ n. n),
      secure_popen = (\<lambda>_ _. Some ''output''), popen_text = (\<lambda>_ _. None), system_rc = (\<lambda>_ _. 0),
      script_rc = (\<lambda>_ _ _. 0), opendir_names = (\<lambda>_ _. Some [''.'', ''..'', ''debug_outputs.txt'']),
      dir_tree = (\<lambda>_ _. None), remove_ok = (\<lambda>_ _. True), rename_rc = (\<lambda>_ _ _. RenameNoent),
      gzopen_ok = (\<lambda>_ _. True), gzwrite_ok = (\<lambda>_. True), getpwuid = (\<lambda>_ _. None), getgrgid = (\<lambda>_ _. None),
      GetEstbMac = (\<lambda>_. ''AA:BB:CC:DD:EE:FF''), flock_upload = (\<lambda>_. LockFree),
      uploadstblogs_rc = (\<lambda>_ _. 0), rbus_set_ok = (\<lambda>_ _ _. True), msgsnd_ok = (\<lambda>_. True),
      msgrcv_ok = (\<lambda>_. True), msgget_ok = (\<lambda>_. True), bus_rc = (\<lambda>_ _. 0), rfc_enable = (\<lambda>_. Some ''true''),
      syscfg_init_ok = (\<lambda>_. True), syscfg_get = (\<lambda>_. Some ''true'')\<rparr>"

definition fresh_world :: world where
  "fresh_world = \<lparr>tick = 0, trace = [], cache = cache_start, mq = [],
     devPropData = \<lparr>deviceType = None\<rparr>, profileCategory = ''all'', gWebCfgBloBVersion = 0, isPwrCtlInterface = False\<rparr>"

lemma calm_sel [simp]:
  "bld (calm b J files) = b" "json (calm b J files) = J" "malloc_ok (calm b J files) t"
  "mkdir_ok (calm b J files) t p" "chdir_ok (calm b J files) t p" "fopen_w_ok (calm b J files) t p" "fprintf_ok (calm b J files) t"
  "strftime_text (calm b J files) t = ''2025-01-02-03-04-05''" "file_text (calm b J files) t = files"
  "fread_len (calm b J files) t n = n" "rbus_set_ok (calm b J files) t p v" "msgsnd_ok (calm b J files) t"
  "msgrcv_ok (calm b J files) t" "msgget_ok (calm b J files) t" "bus_rc (calm b J files) t c = 0"
  "rfc_enable (calm b J files) t = Some ''true''" "syscfg_init_ok (calm b J files) t"
  "syscfg_get (calm b J files) t = Some ''true''"
  by (simp_all add: calm_def)

lemma fresh_world_sel [simp]:
  "trace fresh_world = []" "cache fresh_world = cache_start" "mq fresh_world = []"
  "devPropData fresh_world = \<lparr>deviceType = None\<rparr>" "profileCategory fresh_world = ''all''"
  by (simp_all add: fresh_world_def)

section \<open>Statements\<close>

datatype 'a run = Ret 'a (end_world: world) | Crash fault (end_world: world)

type_synonym 'a prog = "world \<Rightarrow> 'a run"

definition ret :: "'a \<Rightarrow> 'a prog" where
  "ret x w = Ret x w"

definition crash :: "fault \<Rightarrow> 'a prog" where
  "crash e w = Crash e w"

definition bnd :: "'a prog \<Rightarrow> ('a \<Rightarrow> 'b prog) \<Rightarrow> 'b prog" where
  "bnd m k w = (case m w of Ret x w' \<Rightarrow> k x w' | Crash e w' \<Rightarrow> Crash e w')"

definition lift :: "fault + 'a \<Rightarrow> 'a prog" where
  "lift r w = (case r of Inl e \<Rightarrow> Crash e w | Inr x \<Rightarrow> Ret x w)"

definition ask :: "(nat \<Rightarrow> 'a) \<Rightarrow> 'a prog" where
  "ask f w = Ret (f (tick w)) (w\<lparr>tick := Suc (tick w)\<rparr>)"

definition emit :: "event \<Rightarrow> unit prog" where
  "emit ev w = Ret () (w\<lparr>trace := trace w @ [ev]\<rparr>)"

definition peek :: "(world \<Rightarrow> 'a) \<Rightarrow> 'a prog" where
  "peek f w = Ret (f w) w"

definition modify :: "(world \<Rightarrow> world) \<Rightarrow> unit prog" where
  "modify f w = Ret () (f w)"

definition on_cache :: "(cstate \<Rightarrow> fault + cstate) \<Rightarrow> unit prog" where
  "on_cache f w = (case f (cache w) of Inl e \<Rightarrow> Crash e w | Inr cs \<Rightarrow> Ret () (w\<lparr>cache := cs\<rparr>))"

text \<open>\<open>malloc\<close>, \<open>calloc\<close>, \<open>strdup\<close> and \<open>asprintf\<close>: whether the allocation succeeds.\<close>

definition malloc :: "'j platform \<Rightarrow> bool prog" where
  "malloc E = ask (malloc_ok E)"

text \<open>\<open>printf\<close> of a NULL string argument.\<close>

definition shown :: "string option \<Rightarrow> string" where
  "shown s = (case s of None \<Rightarrow> ''(null)'' | Some t \<Rightarrow> t)"

section \<open>Reasoning about statements\<close>

lemma bnd_simps [simp]:
  "bnd (ret x) k = k x"
  "bnd (crash e) k = crash e"
  "bnd (bnd m k) l = bnd m (\<lambda>x. bnd (k x) l)"
  "bnd (lift (Inr x)) k = k x"
  "bnd (lift (Inl e)) k = crash e"
  by (auto simp: bnd_def ret_def crash_def lift_def fun_eq_iff split: run.splits)

lemmas run_defs = bnd_def ret_def crash_def lift_def ask_def emit_def peek_def modify_def malloc_def

text \<open>
  \<open>hoare P m Q R\<close>: from a world with \<open>P\<close> the statement ends with a value and a world
  in \<open>Q\<close> or crashes in \<open>R\<close>. \<open>keeps I m\<close>: \<open>I\<close> holds afterwards, also at a crash.
\<close>

definition hoare ::
  "(world \<Rightarrow> bool) \<Rightarrow> 'a prog \<Rightarrow> ('a \<Rightarrow> world \<Rightarrow> bool) \<Rightarrow> (fault \<Rightarrow> world \<Rightarrow> bool) \<Rightarrow> bool" where
  "hoare P m Q R \<longleftrightarrow> (\<forall>w. P w \<longrightarrow> (case m w of Ret x w' \<Rightarrow> Q x w' | Crash e w' \<Rightarrow> R e w'))"

definition keeps :: "(world \<Rightarrow> bool) \<Rightarrow> 'a prog \<Rightarrow> bool" where
  "keeps I m \<longleftrightarrow> hoare I m (\<lambda>_. I) (\<lambda>_. I)"

text \<open>\<open>runs P m Q\<close>: total correctness, no fault happens.\<close>

definition runs :: "(world \<Rightarrow> bool) \<Rightarrow> 'a prog \<Rightarrow> ('a \<Rightarrow> world \<Rightarrow> bool) \<Rightarrow> bool" where
  "runs P m Q \<longleftrightarrow> hoare P m Q (\<lambda>_ _. False)"

named_theorems keep_rules \<open>rules that push an invariant through a statement\<close>

lemma hoare_bnd:
  "hoare P m A R \<Longrightarrow> (\<And>x. hoare (A x) (k x) Q R) \<Longrightarrow> hoare P (bnd m k) Q R"
  by (fastforce simp: hoare_def bnd_def split: run.splits)

lemma hoare_weaken:
  assumes "hoare P m Q R" and "\<And>x w. Q x w \<Longrightarrow> Q' x w" and "\<And>e w. R e w \<Longrightarrow> R' e w"
  shows "hoare P m Q' R'"
  unfolding hoare_def
proof (intro allI impI)
  fix w
  assume "P w"
  with assms(1) have "case m w of Ret x w' \<Rightarrow> Q x w' | Crash e w' \<Rightarrow> R e w'" by (simp add: hoare_def)
  with assms(2,3) show "case m w of Ret x w' \<Rightarrow> Q' x w' | Crash e w' \<Rightarrow> R' e w'" by (cases "m w") auto
qed

lemma keeps_bnd [keep_rules]:
  "keeps I m \<Longrightarrow> (\<And>x. keeps I (k x)) \<Longrightarrow> keeps I (bnd m k)"
  unfolding keeps_def by (rule hoare_bnd)

lemma keeps_ret [keep_rules]: "keeps I (ret x)"
  by (simp add: keeps_def hoare_def ret_def)

lemma keeps_crash [keep_rules]: "keeps I (crash e)"
  by (simp add: keeps_def hoare_def crash_def)

lemma keeps_lift [keep_rules]: "keeps I (lift r)"
  by (simp add: keeps_def hoare_def lift_def split: sum.splits)

lemma keeps_peek [keep_rules]: "keeps I (peek f)"
  by (simp add: keeps_def hoare_def peek_def)

lemma keeps_if [keep_rules]:
  "(b \<Longrightarrow> keeps I m) \<Longrightarrow> (\<not> b \<Longrightarrow> keeps I n) \<Longrightarrow> keeps I (if b then m else n)"
  by simp

lemma keeps_option [keep_rules]:
  "(x = None \<Longrightarrow> keeps I m) \<Longrightarrow> (\<And>y. x = Some y \<Longrightarrow> keeps I (n y)) \<Longrightarrow>
   keeps I (case x of None \<Rightarrow> m | Some y \<Rightarrow> n y)"
  by (cases x) auto

lemma keeps_sum [keep_rules]:
  "(\<And>e. x = Inl e \<Longrightarrow> keeps I (m e)) \<Longrightarrow> (\<And>y. x = Inr y \<Longrightarrow> keeps I (n y)) \<Longrightarrow>
   keeps I (case x of Inl e \<Rightarrow> m e | Inr y \<Rightarrow> n y)"
  by (cases x) auto

lemma keeps_cptr [keep_rules]:
  "(x = Null \<Longrightarrow> keeps I m) \<Longrightarrow> (\<And>y. x = Own y \<Longrightarrow> keeps I (n y)) \<Longrightarrow> (x = Dangling \<Longrightarrow> keeps I d) \<Longrightarrow>
   keeps I (case x of Null \<Rightarrow> m | Own y \<Rightarrow> n y | Dangling \<Rightarrow> d)"
  by (cases x) auto

lemma keeps_prod [keep_rules]:
  "(\<And>a b. x = (a, b) \<Longrightarrow> keeps I (m a b)) \<Longrightarrow> keeps I (case x of (a, b) \<Rightarrow> m a b)"
  by (cases x) auto

lemma keeps_Let [keep_rules]: "(\<And>y. y = x \<Longrightarrow> keeps I (m y)) \<Longrightarrow> keeps I (let y = x in m y)"
  by simp

lemma keeps_lift_bnd:
  "(\<And>x. r = Inr x \<Longrightarrow> keeps I (k x)) \<Longrightarrow> keeps I (bnd (lift r) k)"
  by (auto simp: keeps_def hoare_def bnd_def lift_def split: sum.splits)

lemma keepsD: "keeps I m \<Longrightarrow> I w \<Longrightarrow> I (end_world (m w))"
  by (cases "m w") (auto simp: keeps_def hoare_def dest!: spec [of _ w])

text \<open>Invariants of the trace and of the cache do not depend on the clock.\<close>

definition timeless :: "(world \<Rightarrow> bool) \<Rightarrow> bool" where
  "timeless I \<longleftrightarrow> (\<forall>w t. I (w\<lparr>tick := t\<rparr>) = I w)"

lemma keeps_ask: "timeless I \<Longrightarrow> keeps I (ask f)"
  by (simp add: keeps_def hoare_def ask_def timeless_def)

lemma keeps_malloc: "timeless I \<Longrightarrow> keeps I (malloc E)"
  by (simp add: malloc_def keeps_ask)

lemma keeps_ask_bnd: "timeless I \<Longrightarrow> (\<And>t. keeps I (k (f t))) \<Longrightarrow> keeps I (bnd (ask f) k)"
  by (auto simp: keeps_def hoare_def bnd_def ask_def timeless_def)

lemma keeps_malloc_bnd: "timeless I \<Longrightarrow> (\<And>m. keeps I (k m)) \<Longrightarrow> keeps I (bnd (malloc E) k)"
  unfolding malloc_def by (rule keeps_ask_bnd)

lemma keeps_emit: "(\<And>w. I w \<Longrightarrow> I (w\<lparr>trace := trace w @ [ev]\<rparr>)) \<Longrightarrow> keeps I (emit ev)"
  by (simp add: keeps_def hoare_def emit_def)

lemma keeps_modify: "(\<And>w. I w \<Longrightarrow> I (f w)) \<Longrightarrow> keeps I (modify f)"
  by (simp add: keeps_def hoare_def modify_def)

lemma keeps_on_cache:
  "(\<And>w cs. I w \<Longrightarrow> f (cache w) = Inr cs \<Longrightarrow> I (w\<lparr>cache := cs\<rparr>)) \<Longrightarrow> keeps I (on_cache f)"
  by (auto simp: keeps_def hoare_def on_cache_def split: sum.splits)

text \<open>The two kinds of invariant: every event satisfies a predicate; the cache is well formed.\<close>

definition all_events :: "(event \<Rightarrow> bool) \<Rightarrow> world \<Rightarrow> bool" where
  "all_events Q w \<longleftrightarrow> list_all Q (trace w)"

definition cache_wf :: "world \<Rightarrow> bool" where
  "cache_wf w \<longleftrightarrow> (\<exists>its. cache_rep (cache w) its)"

lemma timeless_invs [simp]: "timeless (all_events Q)" "timeless cache_wf"
  by (simp_all add: timeless_def all_events_def cache_wf_def)

lemma keeps_all_events_prims [keep_rules]:
  "keeps (all_events Q) (ask f)"
  "keeps (all_events Q) (malloc E)"
  "keeps (all_events Q) (on_cache g)"
  "Q ev \<Longrightarrow> keeps (all_events Q) (emit ev)"
  by (auto intro!: keeps_ask keeps_malloc keeps_emit keeps_on_cache simp: all_events_def)

lemma keeps_cache_wf_prims [keep_rules]:
  "keeps cache_wf (ask f)"
  "keeps cache_wf (malloc E)"
  "keeps cache_wf (emit ev)"
  by (auto intro!: keeps_ask keeps_malloc keeps_emit simp: cache_wf_def)

lemma all_eventsD:
  "keeps (all_events Q) m \<Longrightarrow> trace w = [] \<Longrightarrow> list_all Q (trace (end_world (m w)))"
  using keepsD [of "all_events Q" m w] by (simp add: all_events_def)

text \<open>Total correctness.\<close>

lemma runs_bnd: "runs P m A \<Longrightarrow> (\<And>x. runs (A x) (k x) Q) \<Longrightarrow> runs P (bnd m k) Q"
  unfolding runs_def by (rule hoare_bnd)

lemma runs_ret: "(\<And>w. P w \<Longrightarrow> Q x w) \<Longrightarrow> runs P (ret x) Q"
  by (simp add: runs_def hoare_def ret_def)

lemma runsD: "runs P m Q \<Longrightarrow> P w \<Longrightarrow> \<exists>x w'. m w = Ret x w' \<and> Q x w'"
  by (cases "m w") (auto simp: runs_def hoare_def dest!: spec [of _ w])

lemma runsI: "(\<And>w. P w \<Longrightarrow> \<exists>x w'. m w = Ret x w' \<and> Q x w') \<Longrightarrow> runs P m Q"
  by (fastforce simp: runs_def hoare_def)

text \<open>
  \<open>reads m Q\<close>: the statement only asks questions; it does not fault, leaves everything
  but the clock alone, and its value is in \<open>Q\<close>.
\<close>

definition reads :: "'a prog \<Rightarrow> ('a \<Rightarrow> bool) \<Rightarrow> bool" where
  "reads m Q \<longleftrightarrow> (\<forall>w. \<exists>x t. m w = Ret x (w\<lparr>tick := t\<rparr>) \<and> Q x)"

named_theorems read_rules \<open>rules for statements that only ask questions\<close>

lemma reads_ret [read_rules]: "Q x \<Longrightarrow> reads (ret x) Q"
  unfolding reads_def ret_def by (metis world.surjective world.update_convs(1))

lemma reads_bnd: "reads m A \<Longrightarrow> (\<And>x. A x \<Longrightarrow> reads (k x) Q) \<Longrightarrow> reads (bnd m k) Q"
  unfolding reads_def
proof (intro allI)
  fix w
  assume m: "\<forall>w. \<exists>x t. m w = Ret x (w\<lparr>tick := t\<rparr>) \<and> A x"
    and k: "\<And>x. A x \<Longrightarrow> \<forall>w. \<exists>y t. k x w = Ret y (w\<lparr>tick := t\<rparr>) \<and> Q y"
  from m obtain x t where x: "m w = Ret x (w\<lparr>tick := t\<rparr>)" "A x" by blast
  from k [OF x(2)] obtain y t' where "k x (w\<lparr>tick := t\<rparr>) = Ret y (w\<lparr>tick := t, tick := t'\<rparr>)" "Q y" by blast
  with x show "\<exists>y t. bnd m k w = Ret y (w\<lparr>tick := t\<rparr>) \<and> Q y" by (auto simp: bnd_def)
qed

lemma reads_ask: "(\<And>t. Q (f t)) \<Longrightarrow> reads (ask f) Q"
  by (auto simp: reads_def ask_def)

lemma reads_ask_bnd [read_rules]: "(\<And>t. reads (k (f t)) Q) \<Longrightarrow> reads (bnd (ask f) k) Q"
  by (rule reads_bnd [where A = "\<lambda>x. \<exists>t. x = f t"]) (auto intro: reads_ask)

lemma reads_if [read_rules]:
  "(b \<Longrightarrow> reads m Q) \<Longrightarrow> (\<not> b \<Longrightarrow> reads n Q) \<Longrightarrow> reads (if b then m else n) Q"
  by simp

lemma reads_option [read_rules]:
  "(x = None \<Longrightarrow> reads m Q) \<Longrightarrow> (\<And>y. x = Some y \<Longrightarrow> reads (n y) Q) \<Longrightarrow>
   reads (case x of None \<Rightarrow> m | Some y \<Rightarrow> n y) Q"
  by (cases x) auto

lemma reads_prod [read_rules]:
  "(\<And>a b. x = (a, b) \<Longrightarrow> reads (m a b) Q) \<Longrightarrow> reads (case x of (a, b) \<Rightarrow> m a b) Q"
  by (cases x) auto

lemma reads_Let [read_rules]: "reads (m x) Q \<Longrightarrow> reads (let y = x in m y) Q"
  by simp

lemma reads_weaken: "reads m A \<Longrightarrow> (\<And>x. A x \<Longrightarrow> Q x) \<Longrightarrow> reads m Q"
  unfolding reads_def by blast

lemma reads_keeps:
  assumes "timeless I" and "reads m Q"
  shows "keeps I m"
  unfolding keeps_def hoare_def
proof (intro allI impI)
  fix w
  assume "I w"
  from assms(2) obtain x t where "m w = Ret x (w\<lparr>tick := t\<rparr>)"
    unfolding reads_def by blast
  with assms(1) \<open>I w\<close> show "case m w of Ret x w' \<Rightarrow> I w' | Crash e w' \<Rightarrow> I w'"
    by (simp add: timeless_def)
qed

text \<open>
  \<open>acts m Q\<close>: the statement does not fault, asks questions and acts on the outside;
  value and events are in \<open>Q\<close>.
\<close>

definition acts :: "'a prog \<Rightarrow> ('a \<Rightarrow> event list \<Rightarrow> bool) \<Rightarrow> bool" where
  "acts m Q \<longleftrightarrow> (\<forall>w. \<exists>x t es. m w = Ret x (w\<lparr>tick := t, trace := trace w @ es\<rparr>) \<and> Q x es)"

named_theorems act_rules \<open>rules for statements that act on the outside\<close>

lemma acts_reads: "reads m A \<Longrightarrow> (\<And>x. A x \<Longrightarrow> Q x []) \<Longrightarrow> acts m Q"
  unfolding acts_def
proof
  fix w
  assume m: "reads m A" and Q: "\<And>x. A x \<Longrightarrow> Q x []"
  from m obtain x t where "m w = Ret x (w\<lparr>tick := t\<rparr>)" "A x" unfolding reads_def by blast
  moreover have "w\<lparr>tick := t\<rparr> = w\<lparr>tick := t, trace := trace w @ []\<rparr>" by (cases w) simp
  ultimately show "\<exists>x t es. m w = Ret x (w\<lparr>tick := t, trace := trace w @ es\<rparr>) \<and> Q x es"
    using Q by metis
qed

lemma acts_ret [act_rules]: "Q x [] \<Longrightarrow> acts (ret x) Q"
  by (rule acts_reads [OF reads_ret [where Q = "\<lambda>y. y = x"]]) auto

lemma acts_emit: "Q () [ev] \<Longrightarrow> acts (emit ev) Q"
  unfolding acts_def emit_def by (metis world.surjective world.update_convs(1) world.update_convs(2))

lemma acts_bnd:
  assumes "acts m A" and "\<And>x es. A x es \<Longrightarrow> acts (k x) (\<lambda>y fs. Q y (es @ fs))"
  shows "acts (bnd m k) Q"
  unfolding acts_def
proof
  fix w
  from assms(1) obtain x t es where x: "m w = Ret x (w\<lparr>tick := t, trace := trace w @ es\<rparr>)" "A x es"
    unfolding acts_def by blast
  let ?w = "w\<lparr>tick := t, trace := trace w @ es\<rparr>"
  from assms(2) [OF x(2)] obtain y t' fs
    where "k x ?w = Ret y (?w\<lparr>tick := t', trace := trace ?w @ fs\<rparr>)" "Q y (es @ fs)"
    unfolding acts_def by blast
  with x show "\<exists>y t es. bnd m k w = Ret y (w\<lparr>tick := t, trace := trace w @ es\<rparr>) \<and> Q y es"
    by (intro exI [of _ y] exI [of _ t'] exI [of _ "es @ fs"]) (simp add: bnd_def)
qed

lemma acts_bnd_reads: "reads m A \<Longrightarrow> (\<And>x. A x \<Longrightarrow> acts (k x) Q) \<Longrightarrow> acts (bnd m k) Q"
  by (rule acts_bnd [where A = "\<lambda>x es. A x \<and> es = []"]) (auto intro: acts_reads)

lemma acts_bnd_ask [act_rules]: "(\<And>t. acts (k (f t)) Q) \<Longrightarrow> acts (bnd (ask f) k) Q"
  by (rule acts_bnd_reads [where A = "\<lambda>x. \<exists>t. x = f t"]) (auto intro: reads_ask)

lemma acts_bnd_emit [act_rules]: "acts (k ()) (\<lambda>y fs. Q y (ev # fs)) \<Longrightarrow> acts (bnd (emit ev) k) Q"
  by (rule acts_bnd [where A = "\<lambda>x es. es = [ev]"]) (auto intro: acts_emit)

lemma acts_if [act_rules]:
  "(b \<Longrightarrow> acts m Q) \<Longrightarrow> (\<not> b \<Longrightarrow> acts n Q) \<Longrightarrow> acts (if b then m else n) Q"
  by simp

lemma acts_option [act_rules]:
  "(x = None \<Longrightarrow> acts m Q) \<Longrightarrow> (\<And>y. x = Some y \<Longrightarrow> acts (n y) Q) \<Longrightarrow>
   acts (case x of None \<Rightarrow> m | Some y \<Rightarrow> n y) Q"
  by (cases x) auto

lemma acts_prod [act_rules]:
  "(\<And>a b. x = (a, b) \<Longrightarrow> acts (m a b) Q) \<Longrightarrow> acts (case x of (a, b) \<Rightarrow> m a b) Q"
  by (cases x) auto

lemma acts_Let [act_rules]: "acts (m x) Q \<Longrightarrow> acts (let y = x in m y) Q"
  by simp

lemma acts_weaken: "acts m A \<Longrightarrow> (\<And>x es. A x es \<Longrightarrow> Q x es) \<Longrightarrow> acts m Q"
  unfolding acts_def by blast

lemma actsD:
  "acts m Q \<Longrightarrow> \<exists>x w' es. m w = Ret x w' \<and> trace w' = trace w @ es \<and> cache w' = cache w \<and> mq w' = mq w \<and> Q x es"
proof -
  assume "acts m Q"
  then obtain x t es where "m w = Ret x (w\<lparr>tick := t, trace := trace w @ es\<rparr>)" "Q x es"
    unfolding acts_def by blast
  then show ?thesis
    by (intro exI [of _ x] exI [of _ "w\<lparr>tick := t, trace := trace w @ es\<rparr>"] exI [of _ es]) simp
qed

lemma acts_keeps:
  assumes "acts m (\<lambda>_ es. list_all Q es)"
  shows "keeps (all_events Q) m"
proof -
  have "case m w of Ret x w' \<Rightarrow> all_events Q w' | Crash e w' \<Rightarrow> all_events Q w'" if "all_events Q w" for w
    using actsD [OF assms, of w] that by (auto simp: all_events_def)
  then show ?thesis by (simp add: keeps_def hoare_def)
qed

text \<open>An invariant that every event keeps is kept by every statement that acts.\<close>

definition eventless :: "(world \<Rightarrow> bool) \<Rightarrow> bool" where
  "eventless I \<longleftrightarrow> timeless I \<and> (\<forall>ev. keeps I (emit ev))"

lemma eventless_trace: "eventless I \<Longrightarrow> I w \<Longrightarrow> I (w\<lparr>trace := trace w @ es\<rparr>)"
proof (induction es rule: rev_induct)
  case (snoc ev es)
  then have "I (w\<lparr>trace := trace w @ es\<rparr>)" by blast
  with snoc.prems show ?case
    using keepsD [of I "emit ev" "w\<lparr>trace := trace w @ es\<rparr>"] by (simp add: eventless_def emit_def)
qed simp

lemma acts_keeps_any:
  assumes "eventless I" and "acts m Q"
  shows "keeps I m"
  unfolding keeps_def hoare_def
proof (intro allI impI)
  fix w
  assume "I w"
  from assms(2) obtain x t es where m: "m w = Ret x (w\<lparr>tick := t, trace := trace w @ es\<rparr>)"
    unfolding acts_def by blast
  from \<open>I w\<close> assms(1) have "I (w\<lparr>tick := t\<rparr>)" by (simp add: eventless_def timeless_def)
  with assms(1) have "I (w\<lparr>tick := t, trace := trace w @ es\<rparr>)" using eventless_trace [of I "w\<lparr>tick := t\<rparr>" es] by simp
  with m show "case m w of Ret x w' \<Rightarrow> I w' | Crash e w' \<Rightarrow> I w'" by simp
qed

lemma eventless_cache_wf [simp]: "eventless cache_wf"
  by (simp add: eventless_def keeps_cache_wf_prims)

lemma acts_keeps_cache:
  assumes "acts m Q"
  shows "keeps cache_wf m"
proof -
  have "case m w of Ret x w' \<Rightarrow> cache_wf w' | Crash e w' \<Rightarrow> cache_wf w'" if "cache_wf w" for w
    using actsD [OF assms, of w] that by (auto simp: cache_wf_def)
  then show ?thesis by (simp add: keeps_def hoare_def)
qed

text \<open>
  \<open>asks m Q\<close>: the statement may fault, but it only asks questions; a value is in \<open>Q\<close>.
\<close>

definition asks :: "'a prog \<Rightarrow> ('a \<Rightarrow> bool) \<Rightarrow> bool" where
  "asks m Q \<longleftrightarrow> (\<forall>w. (\<exists>x t. m w = Ret x (w\<lparr>tick := t\<rparr>) \<and> Q x) \<or> (\<exists>e t. m w = Crash e (w\<lparr>tick := t\<rparr>)))"

named_theorems ask_rules \<open>rules for statements that only ask questions but may fault\<close>

lemma asks_reads: "reads m Q \<Longrightarrow> asks m Q"
  unfolding reads_def asks_def by blast

lemma asks_ret [ask_rules]: "Q x \<Longrightarrow> asks (ret x) Q"
  by (rule asks_reads, rule reads_ret)

lemma asks_crash [ask_rules]: "asks (crash e) Q"
  unfolding asks_def crash_def by (metis world.surjective world.update_convs(1))

lemma asks_lift: "(\<And>x. r = Inr x \<Longrightarrow> Q x) \<Longrightarrow> asks (lift r) Q"
proof (cases r)
  case (Inl e)
  then have "lift r = crash e" by (simp add: lift_def crash_def fun_eq_iff)
  then show ?thesis by (simp add: asks_crash)
next
  case (Inr x)
  assume "\<And>x. r = Inr x \<Longrightarrow> Q x"
  moreover from Inr have "lift r = ret x" by (simp add: lift_def ret_def fun_eq_iff)
  ultimately show ?thesis using Inr by (simp add: asks_ret)
qed

lemma asks_bnd: "asks m A \<Longrightarrow> (\<And>x. A x \<Longrightarrow> asks (k x) Q) \<Longrightarrow> asks (bnd m k) Q"
  unfolding asks_def [of "bnd m k"]
proof
  fix w
  assume m: "asks m A" and k: "\<And>x. A x \<Longrightarrow> asks (k x) Q"
  from m consider x t where "m w = Ret x (w\<lparr>tick := t\<rparr>)" "A x" | e t where "m w = Crash e (w\<lparr>tick := t\<rparr>)"
    unfolding asks_def by blast
  then show "(\<exists>x t. bnd m k w = Ret x (w\<lparr>tick := t\<rparr>) \<and> Q x) \<or> (\<exists>e t. bnd m k w = Crash e (w\<lparr>tick := t\<rparr>))"
  proof cases
    case 1
    from k [OF 1(2)] have "(\<exists>y t'. k x (w\<lparr>tick := t\<rparr>) = Ret y (w\<lparr>tick := t, tick := t'\<rparr>) \<and> Q y)
        \<or> (\<exists>e t'. k x (w\<lparr>tick := t\<rparr>) = Crash e (w\<lparr>tick := t, tick := t'\<rparr>))"
      unfolding asks_def by blast
    with 1(1) show ?thesis by (auto simp: bnd_def)
  qed (auto simp: bnd_def)
qed

lemma asks_bnd_lift [ask_rules]: "(\<And>x. r = Inr x \<Longrightarrow> asks (k x) Q) \<Longrightarrow> asks (bnd (lift r) k) Q"
  by (rule asks_bnd [OF asks_lift [where Q = "\<lambda>x. r = Inr x"]]) auto

lemma asks_bnd_ask [ask_rules]: "(\<And>t. asks (k (f t)) Q) \<Longrightarrow> asks (bnd (ask f) k) Q"
  by (rule asks_bnd [where A = "\<lambda>x. \<exists>t. x = f t"]) (auto intro: asks_reads reads_ask)

lemma asks_bnd_malloc [ask_rules]: "(\<And>m. asks (k m) Q) \<Longrightarrow> asks (bnd (malloc E) k) Q"
  unfolding malloc_def by (rule asks_bnd_ask)

lemma asks_if [ask_rules]:
  "(b \<Longrightarrow> asks m Q) \<Longrightarrow> (\<not> b \<Longrightarrow> asks n Q) \<Longrightarrow> asks (if b then m else n) Q"
  by simp

lemma asks_option [ask_rules]:
  "(x = None \<Longrightarrow> asks m Q) \<Longrightarrow> (\<And>y. x = Some y \<Longrightarrow> asks (n y) Q) \<Longrightarrow>
   asks (case x of None \<Rightarrow> m | Some y \<Rightarrow> n y) Q"
  by (cases x) auto

lemma asks_prod [ask_rules]:
  "(\<And>a b. x = (a, b) \<Longrightarrow> asks (m a b) Q) \<Longrightarrow> asks (case x of (a, b) \<Rightarrow> m a b) Q"
  by (cases x) auto

lemma asks_Let [ask_rules]: "asks (m x) Q \<Longrightarrow> asks (let y = x in m y) Q"
  by simp

lemma asks_weaken: "asks m A \<Longrightarrow> (\<And>x. A x \<Longrightarrow> Q x) \<Longrightarrow> asks m Q"
  unfolding asks_def by blast

lemma keeps_bnd_asks:
  assumes "timeless I" and "asks m A" and "\<And>x. A x \<Longrightarrow> keeps I (k x)"
  shows "keeps I (bnd m k)"
  unfolding keeps_def hoare_def
proof (intro allI impI)
  fix w
  assume "I w"
  from assms(2) consider x t where "m w = Ret x (w\<lparr>tick := t\<rparr>)" "A x" | e t where "m w = Crash e (w\<lparr>tick := t\<rparr>)"
    unfolding asks_def by blast
  then show "case bnd m k w of Ret x w' \<Rightarrow> I w' | Crash e w' \<Rightarrow> I w'"
  proof cases
    case 1
    with assms(1) \<open>I w\<close> have "I (w\<lparr>tick := t\<rparr>)" by (simp add: timeless_def)
    with assms(3) [OF 1(2)] 1(1) show ?thesis by (simp add: keeps_def hoare_def bnd_def)
  qed (use assms(1) \<open>I w\<close> in \<open>simp add: bnd_def timeless_def\<close>)
qed

section \<open>Values, invariants and faults together\<close>

text \<open>
  \<open>safe I F m Q\<close>: the invariant survives, a value is in \<open>Q\<close>, and a fault, if there is
  one, is in \<open>F\<close>.
\<close>

definition safe :: "(world \<Rightarrow> bool) \<Rightarrow> (fault \<Rightarrow> bool) \<Rightarrow> 'a prog \<Rightarrow> ('a \<Rightarrow> bool) \<Rightarrow> bool" where
  "safe I F m Q \<longleftrightarrow> hoare I m (\<lambda>x w. I w \<and> Q x) (\<lambda>e w. I w \<and> F e)"

named_theorems safe_rules \<open>rules for invariant, value and fault\<close>

lemma safe_bnd: "safe I F m A \<Longrightarrow> (\<And>x. A x \<Longrightarrow> safe I F (k x) Q) \<Longrightarrow> safe I F (bnd m k) Q"
  unfolding safe_def by (rule hoare_bnd) (auto simp: hoare_def)

lemma safe_ret [safe_rules]: "Q x \<Longrightarrow> safe I F (ret x) Q"
  by (simp add: safe_def hoare_def ret_def)

lemma safe_crash [safe_rules]: "F e \<Longrightarrow> safe I F (crash e) Q"
  by (simp add: safe_def hoare_def crash_def)

lemma safe_lift: "(\<And>x. r = Inr x \<Longrightarrow> Q x) \<Longrightarrow> (\<And>e. r = Inl e \<Longrightarrow> F e) \<Longrightarrow> safe I F (lift r) Q"
  by (cases r) (auto simp: safe_def hoare_def lift_def)

lemma safe_bnd_lift [safe_rules]:
  "(\<And>e. r = Inl e \<Longrightarrow> F e) \<Longrightarrow> (\<And>x. r = Inr x \<Longrightarrow> safe I F (k x) Q) \<Longrightarrow> safe I F (bnd (lift r) k) Q"
  by (rule safe_bnd [OF safe_lift [where Q = "\<lambda>x. r = Inr x"]]) auto

lemma safe_asks: "timeless I \<Longrightarrow> reads m Q \<Longrightarrow> safe I F m Q"
  unfolding safe_def hoare_def reads_def timeless_def by (metis run.case(1))

lemma safe_bnd_ask: "timeless I \<Longrightarrow> (\<And>t. safe I F (k (f t)) Q) \<Longrightarrow> safe I F (bnd (ask f) k) Q"
  by (rule safe_bnd [OF safe_asks [where Q = "\<lambda>x. \<exists>t. x = f t"]]) (auto intro: reads_ask)

lemma safe_bnd_malloc: "timeless I \<Longrightarrow> (\<And>m. safe I F (k m) Q) \<Longrightarrow> safe I F (bnd (malloc E) k) Q"
  unfolding malloc_def by (rule safe_bnd_ask)

lemma safe_if [safe_rules]:
  "(b \<Longrightarrow> safe I F m Q) \<Longrightarrow> (\<not> b \<Longrightarrow> safe I F n Q) \<Longrightarrow> safe I F (if b then m else n) Q"
  by simp

lemma safe_option [safe_rules]:
  "(x = None \<Longrightarrow> safe I F m Q) \<Longrightarrow> (\<And>y. x = Some y \<Longrightarrow> safe I F (n y) Q) \<Longrightarrow>
   safe I F (case x of None \<Rightarrow> m | Some y \<Rightarrow> n y) Q"
  by (cases x) auto

lemma safe_prod [safe_rules]:
  "(\<And>a b. x = (a, b) \<Longrightarrow> safe I F (m a b) Q) \<Longrightarrow> safe I F (case x of (a, b) \<Rightarrow> m a b) Q"
  by (cases x) auto

lemma safe_Let [safe_rules]: "safe I F (m x) Q \<Longrightarrow> safe I F (let y = x in m y) Q"
  by simp

lemma safe_weaken: "safe I F m A \<Longrightarrow> (\<And>x. A x \<Longrightarrow> Q x) \<Longrightarrow> safe I F m Q"
  unfolding safe_def by (erule hoare_weaken) auto

lemma safe_keeps: "safe I F m Q \<Longrightarrow> keeps I m"
  unfolding safe_def keeps_def by (erule hoare_weaken) auto

lemma keeps_safe: "keeps I m \<Longrightarrow> safe I (\<lambda>_. True) m (\<lambda>_. True)"
  by (simp add: safe_def keeps_def)

lemma safe_bnd_asks:
  assumes "timeless I" and "asks m A" and "\<And>x. A x \<Longrightarrow> safe I (\<lambda>_. True) (k x) Q"
  shows "safe I (\<lambda>_. True) (bnd m k) Q"
proof (rule safe_bnd [OF _ assms(3)])
  show "safe I (\<lambda>_. True) m A"
    using assms(1,2) unfolding safe_def hoare_def asks_def timeless_def by (metis run.case)
qed

lemma safeD: "safe I F m Q \<Longrightarrow> I w \<Longrightarrow>
  (\<exists>x w'. m w = Ret x w' \<and> I w' \<and> Q x) \<or> (\<exists>e w'. m w = Crash e w' \<and> I w' \<and> F e)"
  by (cases "m w") (auto simp: safe_def hoare_def dest!: spec [of _ w])

end
