(* ===== verification/RRD_Archive.thy ===== *)
theory RRD_Archive
  imports RRD_World
begin

unbundle bit_operations_syntax

text \<open>
  The archive writer of \<^verbatim>\<open>src/src/rrd_archive.c\<close>: the ustar header with its checksum,
  file contents padded to blocks, the walk over a directory tree and the end marker. The
  bytes handed to zlib are a string that the functions extend; zlib itself is the
  \<open>gzwrite_ok\<close> answer of the platform. The directory tree is a snapshot.
\<close>

section \<open>Model\<close>

record posix_header =
  h_name :: string
  h_mode :: string
  h_uid :: string
  h_gid :: string
  h_size :: string
  h_mtime :: string
  h_chksum :: string
  h_typeflag :: char
  h_linkname :: string
  h_magic :: string
  h_version :: string
  h_uname :: string
  h_gname :: string
  h_devmajor :: string
  h_devminor :: string
  h_prefix :: string

text \<open>A zeroed char array of \<open>n\<close> bytes after a string was put into it.\<close>

definition arr :: "nat \<Rightarrow> string \<Rightarrow> string" where
  "arr n s = take n s @ replicate (n - length s) NUL"

definition header_bytes :: "posix_header \<Rightarrow> string" where
  "header_bytes h =
     arr 100 (h_name h) @ arr 8 (h_mode h) @ arr 8 (h_uid h) @ arr 8 (h_gid h) @ arr 12 (h_size h)
     @ arr 12 (h_mtime h) @ arr 8 (h_chksum h) @ [h_typeflag h] @ arr 100 (h_linkname h)
     @ arr 6 (h_magic h) @ arr 2 (h_version h) @ arr 32 (h_uname h) @ arr 32 (h_gname h)
     @ arr 8 (h_devmajor h) @ arr 8 (h_devminor h) @ arr 155 (h_prefix h) @ replicate 12 NUL"

definition calculate_checksum :: "string \<Rightarrow> 32 word" where
  "calculate_checksum block = foldl (\<lambda>sum c. sum + of_nat (of_char c)) 0 block"

definition write_block :: "'j platform \<Rightarrow> string \<Rightarrow> string \<Rightarrow> (int \<times> string) prog" where
  "write_block E out buf = bnd (ask (gzwrite_ok E)) (\<lambda>ok. if ok then ret (0, out @ buf) else ret (-1, out))"

function write_zeros :: "'j platform \<Rightarrow> string \<Rightarrow> nat \<Rightarrow> (int \<times> string) prog" where
  "write_zeros E out sz =
     (if sz > 0
      then (let chunk = (if sz > 512 then 512 else sz) in
            bnd (write_block E out (replicate chunk NUL)) (\<lambda>(rc, out').
            if rc \<noteq> 0 then ret (-1, out') else write_zeros E out' (sz - chunk)))
      else ret (0, out))"
  by pat_completeness auto
termination
  by (relation "measure (\<lambda>(E, out, sz). sz)") auto

declare write_zeros.simps [simp del]

text \<open>
  The name field and the prefix field: up to 100 characters go into the name field, more
  are split, with the character between the two parts dropped.
\<close>

definition tar_name :: "string \<Rightarrow> (string \<times> string) option" where
  "tar_name name =
     (let name_len = length name in
      if name_len \<le> 100 then Some ([], c_strncpy 99 name)
      else if name_len \<le> 255
      then (let prefix_len = name_len - 100 - 1 in
            if prefix_len > 155 then None
            else Some (take (if prefix_len < 155 then prefix_len else 154) (c_strncpy prefix_len name),
                       c_strncpy 99 (drop (prefix_len + 1) name)))
      else None)"

definition tar_header :: "string \<Rightarrow> string \<Rightarrow> stat \<Rightarrow> char \<Rightarrow> string option \<Rightarrow> string option \<Rightarrow> posix_header" where
  "tar_header pfx name st typeflag pw gr =
     \<lparr>h_name = name,
      h_mode = fst (c_snprintf 8 (c_format_nat 7 8 (unat (st_mode st AND 0xFFF)))),
      h_uid = fst (c_snprintf 8 (c_format_nat 7 8 (unat (st_uid st)))),
      h_gid = fst (c_snprintf 8 (c_format_nat 7 8 (unat (st_gid st)))),
      h_size = fst (c_snprintf 12 (c_format_nat 11 8 (if typeflag = CHR ''5'' then 0 else st_size st))),
      h_mtime = fst (c_snprintf 12 (c_format_nat 11 8 (st_mtime st))),
      h_chksum = replicate 8 (CHR '' ''),
      h_typeflag = typeflag,
      h_linkname = [],
      h_magic = ''ustar'',
      h_version = ''00'',
      h_uname = (case pw of None \<Rightarrow> [] | Some n \<Rightarrow> c_strncpy 31 n),
      h_gname = (case gr of None \<Rightarrow> [] | Some n \<Rightarrow> c_strncpy 31 n),
      h_devmajor = [],
      h_devminor = [],
      h_prefix = pfx\<rparr>"

definition seal_header :: "posix_header \<Rightarrow> posix_header" where
  "seal_header hdr = hdr\<lparr>h_chksum := fst (c_snprintf 8
     (c_format_nat 6 8 (unat (calculate_checksum (header_bytes hdr))) @ '' ''))\<rparr>"

definition write_tar_header ::
  "'j platform \<Rightarrow> string \<Rightarrow> string \<Rightarrow> stat \<Rightarrow> char \<Rightarrow> (int \<times> string) prog" where
  "write_tar_header E out name st typeflag =
     (case tar_name name of
        None \<Rightarrow> ret (-1, out)
      | Some (pfx, nm) \<Rightarrow>
          bnd (ask (\<lambda>t. getpwuid E t (st_uid st))) (\<lambda>pw.
          bnd (ask (\<lambda>t. getgrgid E t (st_gid st))) (\<lambda>gr.
          bnd (write_block E out (header_bytes (seal_header (tar_header pfx nm st typeflag pw gr)))) (\<lambda>(rc, out').
          ret (if rc \<noteq> 0 then -1 else 0, out')))))"

text \<open>The read loop hands over at most 8192 bytes at a time.\<close>

function copy_chunks :: "'j platform \<Rightarrow> string \<Rightarrow> string \<Rightarrow> (int \<times> string) prog" where
  "copy_chunks E out text =
     (if text = [] then ret (0, out)
      else bnd (write_block E out (take 8192 text)) (\<lambda>(rc, out').
           if rc \<noteq> 0 then ret (-1, out') else copy_chunks E out' (drop 8192 text)))"
  by pat_completeness auto
termination
  by (relation "measure (\<lambda>(E, out, text). length text)") auto

declare copy_chunks.simps [simp del]

definition write_file_contents ::
  "'j platform \<Rightarrow> string \<Rightarrow> fdata \<Rightarrow> stat \<Rightarrow> (int \<times> string) prog" where
  "write_file_contents E out data st =
     (case data of Unopenable \<Rightarrow> ret (-1, out)
      | _ \<Rightarrow> bnd (malloc E) (\<lambda>mem. if \<not> mem then ret (-1, out) else
          bnd (copy_chunks E out (case data of Readable s \<Rightarrow> s | ReadFails s \<Rightarrow> s | Unopenable \<Rightarrow> [])) (\<lambda>(rc, out').
          if rc \<noteq> 0 then ret (-1, out')
          else (case data of ReadFails _ \<Rightarrow> ret (-1, out')
            | _ \<Rightarrow> (let pad = (512 - st_size st mod 512) mod 512 in
                   if pad \<noteq> 0
                   then bnd (write_zeros E out' pad) (\<lambda>(rc, out''). ret (if rc \<noteq> 0 then -1 else 0, out''))
                   else ret (0, out'))))))"

definition child_name :: "string \<Rightarrow> string \<Rightarrow> string" where
  "child_name current_relpath d_name =
     fst (c_snprintf 8192 (if current_relpath \<noteq> [] then current_relpath @ ''/'' @ d_name else d_name))"

fun node_stat :: "fnode \<Rightarrow> stat" where
  "node_stat (FFile st _) = st"
| "node_stat (FDir st _ _) = st"
| "node_stat (FOther st) = st"

fun archive_path_recursive ::
  "'j platform \<Rightarrow> string \<Rightarrow> string \<Rightarrow> string \<Rightarrow> fnode \<Rightarrow> (int \<times> string) prog"
and archive_entries ::
  "'j platform \<Rightarrow> string \<Rightarrow> string \<Rightarrow> string \<Rightarrow> (string \<times> fnode option) list \<Rightarrow> (int \<times> string) prog"
where
  "archive_path_recursive E out source_root rel node =
     (if length source_root + 1 + length rel + 1 \<ge> 8192 then ret (-1, out)
      else (case node of
        FDir st True entries \<Rightarrow> archive_entries E out source_root rel entries
      | FFile st data \<Rightarrow>
          bnd (write_tar_header E out rel st (CHR ''0'')) (\<lambda>(rc, out').
          if rc \<noteq> 0 then ret (-1, out') else write_file_contents E out' data st)
      | _ \<Rightarrow> write_tar_header E out rel (node_stat node) (CHR ''0'')))"
| "archive_entries E out source_root rel [] = ret (0, out)"
| "archive_entries E out source_root rel ((d_name, child) # entries) =
     (if d_name = ''.'' \<or> d_name = ''..'' then archive_entries E out source_root rel entries
      else bnd (malloc E) (\<lambda>m1. bnd (malloc E) (\<lambda>m2.
       if \<not> m1 \<or> \<not> m2 then ret (-1, out)
       else (case child of
           None \<Rightarrow> ret (-1, out)
         | Some (FDir st opens sub) \<Rightarrow>
             bnd (write_tar_header E out (fst (c_snprintf 8200 (child_name rel d_name @ ''/''))) st (CHR ''5'')) (\<lambda>(rc, out').
             if rc \<noteq> 0 then ret (-1, out')
             else bnd (archive_path_recursive E out' source_root (child_name rel d_name) (FDir st opens sub)) (\<lambda>(rc2, out'').
             if rc2 \<noteq> 0 then ret (-1, out'') else archive_entries E out'' source_root rel entries))
         | Some (FFile st data) \<Rightarrow>
             bnd (write_tar_header E out (child_name rel d_name) st (CHR ''0'')) (\<lambda>(rc, out').
             if rc \<noteq> 0 then ret (-1, out')
             else bnd (write_file_contents E out' data st) (\<lambda>(rc2, out'').
             if rc2 \<noteq> 0 then ret (-1, out'') else archive_entries E out'' source_root rel entries))
         | Some (FOther st) \<Rightarrow> archive_entries E out source_root rel entries))))"

declare archive_path_recursive.simps [simp del] archive_entries.simps [simp del]

text \<open>\<open>strrchr(source_dir, '/') + 1\<close>, or the whole path.\<close>

definition base_name :: "string \<Rightarrow> string" where
  "base_name path = rev (takeWhile (\<lambda>c. c \<noteq> CHR ''/'') (rev path))"

definition archive_body :: "'j platform \<Rightarrow> string \<Rightarrow> fnode \<Rightarrow> (int \<times> string) prog" where
  "archive_body E source_dir root =
     bnd (case root of
        FDir st opens sub \<Rightarrow> archive_path_recursive E [] source_dir [] root
      | FFile st data \<Rightarrow>
          bnd (write_tar_header E [] (base_name source_dir) st (CHR ''0'')) (\<lambda>(rc, out).
          if rc \<noteq> 0 then ret (-1, out)
          else bnd (write_file_contents E out data st) (\<lambda>(rc, out). ret (if rc \<noteq> 0 then -1 else 0, out)))
      | FOther st \<Rightarrow> ret (-2, [])) (\<lambda>(rc, out).
     if rc = 0
     then bnd (write_zeros E out 512) (\<lambda>(z1, out1).
          bnd (write_zeros E out1 512) (\<lambda>(z2, out2).
          ret (if z1 \<noteq> 0 \<or> z2 \<noteq> 0 then -1 else 0, out2)))
     else ret (rc, out))"

definition rrd_archive_create ::
  "'j platform \<Rightarrow> string option \<Rightarrow> string option \<Rightarrow> string option \<Rightarrow> int prog" where
  "rrd_archive_create E source_dir working_dir archive_filename =
     (case (source_dir, archive_filename) of
        (Some src, Some fname) \<Rightarrow>
          (let outpath = (case working_dir of
               Some wd \<Rightarrow> (if wd \<noteq> [] then fst (c_snprintf 8192 (wd @ ''/'' @ fname)) else fst (c_snprintf 8192 fname))
             | None \<Rightarrow> fst (c_snprintf 8192 fname)) in
           bnd (ask (\<lambda>t. gzopen_ok E t outpath)) (\<lambda>opened.
           if \<not> opened then ret (-2) else
           bnd (ask (\<lambda>t. dir_tree E t src)) (\<lambda>tree. case tree of
             None \<Rightarrow> bnd (emit (EvWrite outpath [])) (\<lambda>_. ret (-2))
           | Some root \<Rightarrow>
               bnd (archive_body E src root) (\<lambda>(rc, out).
               bnd (emit (EvWrite outpath out)) (\<lambda>_.
               (case root of FOther st \<Rightarrow> ret (-2)
                | _ \<Rightarrow> bnd (ask (\<lambda>t. file_size E t outpath)) (\<lambda>sz.
                    ret (case sz of None \<Rightarrow> -3
                         | Some n \<Rightarrow> if n = 0 then -3 else if rc = 0 then 0 else -2))))))))
      | _ \<Rightarrow> ret (-1))"

definition rrd_archive_generate_filename ::
  "string option \<Rightarrow> string option \<Rightarrow> string option \<Rightarrow> nat \<Rightarrow> int \<times> string" where
  "rrd_archive_generate_filename mac issue_type timestamp sz =
     (case (mac, issue_type, timestamp) of
        (Some m, Some i, Some ts) \<Rightarrow>
          (if sz < 128 then (-1, [])
           else (let (txt, n) = c_snprintf sz (m @ ''_'' @ i @ ''_'' @ ts @ ''_RRD_DEBUG_LOGS.tgz'')
                 in (if n \<ge> sz then -1 else 0, txt)))
      | _ \<Rightarrow> (-1, []))"

definition rrd_archive_cleanup :: "'j platform \<Rightarrow> string option \<Rightarrow> int prog" where
  "rrd_archive_cleanup E archive_path =
     (case archive_path of None \<Rightarrow> ret (-1)
      | Some p \<Rightarrow> bnd (emit (EvRemove p)) (\<lambda>_. bnd (ask (\<lambda>t. remove_ok E t p)) (\<lambda>ok. ret (if ok then 0 else -2))))"

end
