(* ===== verification/RRD_Tar.thy ===== *)
theory RRD_Tar
  imports RRD_Archive
begin

text \<open>
  What the archive writer guarantees. A reference reader of the tar format is defined; the
  header blocks of the writer have the right size and checksum, and for a directory tree
  that fits the format the reader finds in the archive what the tree holds.
\<close>

section \<open>A reader for the tar format\<close>

text \<open>
  What an unpacker does with the archive: header blocks of 512 bytes whose checksum must
  be right, the octal size, the contents rounded up to blocks, a block of zeros at the end.
\<close>

definition field :: "nat \<Rightarrow> nat \<Rightarrow> string \<Rightarrow> string" where
  "field off n bs = take n (drop off bs)"

definition octal_field :: "string \<Rightarrow> nat" where
  "octal_field s = digits_value 8 (takeWhile c_isdigit s)"

definition byte_sum :: "string \<Rightarrow> nat" where
  "byte_sum bs = sum_list (map of_char bs)"

definition checksum_ok :: "string \<Rightarrow> bool" where
  "checksum_ok h \<longleftrightarrow> octal_field (field 148 8 h) = byte_sum (take 148 h @ replicate 8 (CHR '' '') @ drop 156 h)"

definition entry_name :: "string \<Rightarrow> string" where
  "entry_name h = (let p = c_str (field 345 155 h); n = c_str (field 0 100 h) in if p = [] then n else p @ ''/'' @ n)"

definition padded :: "nat \<Rightarrow> nat" where
  "padded n = n + (512 - n mod 512) mod 512"

type_synonym tar_entry = "string \<times> char \<times> string"

function untar :: "string \<Rightarrow> tar_entry list option" where
  "untar s =
     (if length s < 512 then None
      else (let h = take 512 s; r = drop 512 s; n = octal_field (field 124 12 h) in
        if list_all (\<lambda>c. c = NUL) h then Some []
        else if \<not> checksum_ok h \<or> length r < padded n then None
        else map_option (\<lambda>es. (entry_name h, h ! 156, take n r) # es) (untar (drop (padded n) r))))"
  by pat_completeness auto
termination
  by (relation "measure length") (auto simp: not_less)

declare untar.simps [simp del]

section \<open>Octal numbers\<close>

lemma octal_field_digits:
  assumes "n < 8 ^ w" and "rest = [] \<or> \<not> c_isdigit (hd rest)"
  shows "octal_field (digits_go w 8 n @ rest) = n"
  using assms by (simp add: octal_field_def takeWhile_digits digits_value_digits)

section \<open>Headers\<close>

lemma length_arr [simp]: "length (arr n s) = n"
  by (simp add: arr_def)

lemma length_header [simp]: "length (header_bytes h) = 512"
  by (simp add: header_bytes_def)

lemma field_append: "off \<ge> length a \<Longrightarrow> field off n (a @ b) = field (off - length a) n b"
  by (simp add: field_def)

lemma field_Cons: "0 < off \<Longrightarrow> field off n (c # b) = field (off - 1) n b"
  by (simp add: field_def drop_Cons')

lemma field_here: "length a = n \<Longrightarrow> field 0 n (a @ b) = a"
  by (simp add: field_def)

lemma header_fields:
  "field 0 100 (header_bytes h @ r) = arr 100 (h_name h)"
  "field 124 12 (header_bytes h @ r) = arr 12 (h_size h)"
  "field 148 8 (header_bytes h @ r) = arr 8 (h_chksum h)"
  "field 345 155 (header_bytes h @ r) = arr 155 (h_prefix h)"
  "(header_bytes h @ r) ! 156 = h_typeflag h"
  by (simp_all add: header_bytes_def field_append field_Cons field_here nth_append)

lemma c_str_arr: "NUL \<notin> set s \<Longrightarrow> length s < n \<Longrightarrow> c_str (arr n s) = s"
proof -
  assume s: "NUL \<notin> set s" "length s < n"
  then have "arr n s = s @ NUL # replicate (n - length s - 1) NUL"
    by (simp add: arr_def flip: replicate_Suc)
  with takeWhile_neq_append [OF s(1)] show ?thesis by (simp add: c_str_def)
qed

lemma byte_le: "(of_char (c :: char) :: nat) \<le> 255"
  using nat_of_char_less_256 [of c] by linarith

lemma byte_sum_le: "byte_sum bs \<le> 255 * length bs"
proof (induction bs)
  case (Cons c bs)
  with byte_le [of c] show ?case by (simp add: byte_sum_def)
qed (simp add: byte_sum_def)

lemma checksum_foldl:
  "foldl (\<lambda>sum c. sum + of_nat (of_char c)) (a :: 32 word) bs = a + of_nat (byte_sum bs)"
  by (induction bs arbitrary: a) (simp_all add: byte_sum_def)

lemma checksum_value:
  assumes "length bs = 512"
  shows "unat (calculate_checksum bs) = byte_sum bs" and "byte_sum bs < 8 ^ 6"
proof -
  from assms byte_sum_le [of bs] have le: "byte_sum bs \<le> 130560" by simp
  then show "byte_sum bs < 8 ^ 6" by simp
  have "unat (of_nat (byte_sum bs) :: 32 word) = byte_sum bs"
    using le by (simp add: unat_of_nat)
  then show "unat (calculate_checksum bs) = byte_sum bs"
    by (simp add: calculate_checksum_def checksum_foldl)
qed

text \<open>The bytes around the checksum field.\<close>

lemma header_split:
  "header_bytes (h\<lparr>h_chksum := c\<rparr>) = take 148 (header_bytes h) @ arr 8 c @ drop 156 (header_bytes h)"
  by (simp add: header_bytes_def)

lemma seal_chksum:
  assumes "h_chksum h = replicate 8 (CHR '' '')"
  shows "checksum_ok (header_bytes (seal_header h))"
proof -
  let ?n = "byte_sum (header_bytes h)"
  let ?c = "digits_go 6 8 ?n @ '' ''"
  note v = checksum_value [OF length_header [of h]]
  have seal: "seal_header h = h\<lparr>h_chksum := ?c\<rparr>"
    using v by (simp add: seal_header_def c_snprintf_def c_format_fits)
  have "arr 8 ?c = digits_go 6 8 ?n @ '' '' @ [NUL]" by (simp add: arr_def)
  then have "octal_field (arr 8 ?c) = ?n"
    using octal_field_digits [OF v(2), of "'' '' @ [NUL]"] by (simp add: c_class_defs)
  moreover have "header_bytes h = take 148 (header_bytes h) @ replicate 8 (CHR '' '') @ drop 156 (header_bytes h)"
  proof -
    have "h\<lparr>h_chksum := replicate 8 (CHR '' '')\<rparr> = h" using assms by (cases h) simp
    with header_split [where h = h and c = "replicate 8 (CHR '' '')"] show ?thesis
      by (simp add: arr_def)
  qed
  moreover have "field 148 8 (header_bytes (seal_header h)) = arr 8 ?c"
    using header_fields(3) [of "seal_header h" "[]"] seal by simp
  ultimately show ?thesis
    using header_split [where h = h and c = ?c] seal by (simp add: checksum_ok_def)
qed

lemma seal_other [simp]:
  "h_name (seal_header h) = h_name h" "h_size (seal_header h) = h_size h"
  "h_prefix (seal_header h) = h_prefix h" "h_typeflag (seal_header h) = h_typeflag h"
  by (simp_all add: seal_header_def)

section \<open>What the writer emits\<close>

text \<open>\<open>emits es b\<close>: a reader that meets the bytes \<open>b\<close> sees the entries \<open>es\<close> first.\<close>

definition emits :: "tar_entry list \<Rightarrow> string \<Rightarrow> bool" where
  "emits es b \<longleftrightarrow> (\<forall>rest. untar (b @ rest) = map_option ((@) es) (untar rest))"

lemma emits_Nil: "emits [] []"
proof -
  have "map_option ((@) []) x = x" for x :: "tar_entry list option" by (cases x) auto
  then show ?thesis by (simp add: emits_def)
qed

lemma emits_append: "emits es a \<Longrightarrow> emits fs b \<Longrightarrow> emits (es @ fs) (a @ b)"
proof -
  have "map_option ((@) es) (map_option ((@) fs) x) = map_option ((@) (es @ fs)) x" for x :: "tar_entry list option"
    by (cases x) auto
  then show "emits es a \<Longrightarrow> emits fs b \<Longrightarrow> ?thesis" by (simp add: emits_def)
qed

lemma untar_end: "untar (replicate 512 NUL @ rest) = Some []"
  by (simp add: untar.simps [of "replicate 512 NUL @ rest"] list_all_iff)

definition block_pad :: "nat \<Rightarrow> string" where
  "block_pad n = replicate ((512 - n mod 512) mod 512) NUL"

lemma header_not_zero: "\<not> list_all (\<lambda>c. c = NUL) (header_bytes (seal_header (tar_header pfx nm st t pw gr)))"
proof -
  have "CHR ''u'' \<in> set (header_bytes (seal_header (tar_header pfx nm st t pw gr)))"
    by (simp add: header_bytes_def seal_header_def tar_header_def arr_def)
  moreover have "CHR ''u'' \<noteq> NUL" by simp
  ultimately show ?thesis unfolding list_all_iff by blast
qed

text \<open>A header with the contents it announces is one entry.\<close>

lemma emits_entry:
  assumes name: "length nm < 100" "NUL \<notin> set nm"
    and n: "n = (if t = CHR ''5'' then 0 else st_size st)" "n < 8 ^ 11" "length data = n"
  shows "emits [(nm, t, data)] (header_bytes (seal_header (tar_header [] nm st t pw gr)) @ data @ block_pad n)"
  unfolding emits_def
proof
  fix rest
  let ?h = "seal_header (tar_header [] nm st t pw gr)"
  let ?s = "(header_bytes ?h @ data @ block_pad n) @ rest"
  have take: "take 512 ?s = header_bytes ?h" and drop: "drop 512 ?s = data @ block_pad n @ rest" by simp_all
  have "h_size ?h = digits_go 11 8 n"
    using n by (simp add: tar_header_def c_snprintf_def c_format_fits)
  then have size: "octal_field (field 124 12 (header_bytes ?h)) = n"
    using header_fields(2) [of ?h "[]"] octal_field_digits [OF n(2), of "[NUL]"]
    by (simp add: arr_def c_class_defs)
  have ok: "checksum_ok (header_bytes ?h)"
    by (rule seal_chksum) (simp add: tar_header_def)
  have nm: "entry_name (header_bytes ?h) = nm"
    using name header_fields(1,4) [of ?h "[]"] c_str_arr [of nm 100] c_str_arr [of "[]" 155]
    by (simp add: entry_name_def Let_def tar_header_def)
  have t: "header_bytes ?h ! 156 = t"
    using header_fields(5) [of ?h "[]"] by (simp add: tar_header_def)
  have pad: "length (data @ block_pad n @ rest) \<ge> padded n" "drop (padded n) (data @ block_pad n @ rest) = rest"
    "take n (data @ block_pad n @ rest) = data"
    using n(3) by (simp_all add: padded_def block_pad_def)
  have "untar ?s = map_option (\<lambda>es. (nm, t, data) # es) (untar rest)"
    by (subst untar.simps) (simp only: take drop size Let_def header_not_zero if_False ok nm t pad not_less
        simp_thms, simp add: padded_def block_pad_def n(3))
  then show "untar ?s = map_option ((@) [(nm, t, data)]) (untar rest)" by (cases "untar rest") simp_all
qed

text \<open>
  A platform on which no allocation and no write fails. \<open>wrote ok out es\<close> is what a
  writing statement promises: success means the entries \<open>es\<close> were added, and it
  succeeds when \<open>ok\<close>.
\<close>

definition no_failures :: "'j platform \<Rightarrow> bool" where
  "no_failures E \<longleftrightarrow> (\<forall>t. malloc_ok E t \<and> gzwrite_ok E t)"

definition wrote :: "bool \<Rightarrow> string \<Rightarrow> tar_entry list \<Rightarrow> int \<times> string \<Rightarrow> bool" where
  "wrote ok out es r \<longleftrightarrow> (fst r = 0 \<longrightarrow> (\<exists>b. snd r = out @ b \<and> emits es b)) \<and> (ok \<longrightarrow> fst r = 0)"

definition added :: "bool \<Rightarrow> string \<Rightarrow> string \<Rightarrow> int \<times> string \<Rightarrow> bool" where
  "added ok out b r \<longleftrightarrow> (fst r = 0 \<longrightarrow> snd r = out @ b) \<and> (ok \<longrightarrow> fst r = 0)"

lemma reads_write_block: "reads (write_block E out buf) (added (no_failures E) out buf)"
  unfolding write_block_def by (intro read_rules) (auto simp: added_def no_failures_def)

lemma reads_malloc [read_rules]: "(\<And>t. reads (k (malloc_ok E t)) Q) \<Longrightarrow> reads (bnd (malloc E) k) Q"
  unfolding malloc_def by (rule reads_ask_bnd)

lemma added_append: "added ok out a (0, out') \<Longrightarrow> added ok out' b r \<Longrightarrow> added ok out (a @ b) r"
  by (simp add: added_def)

lemma reads_then_added:
  assumes "reads m (added ok out a)" and "\<And>out'. reads (k out') (added ok out' b)"
  shows "reads (bnd m (\<lambda>(rc, out'). if rc \<noteq> 0 then ret (-1, out') else k out')) (added ok out (a @ b))"
proof (rule reads_bnd [OF assms(1)])
  fix r
  assume r: "added ok out a r"
  obtain rc out' where rc: "r = (rc, out')" by (cases r)
  have "reads (k out') (added ok out (a @ b))" if "rc = 0"
    using reads_weaken [OF assms(2)] added_append r rc that by blast
  moreover have "added ok out (a @ b) (-1, out')" if "rc \<noteq> 0"
    using r rc that by (simp add: added_def)
  ultimately show "reads (case r of (rc, out') \<Rightarrow> if rc \<noteq> 0 then ret (-1, out') else k out') (added ok out (a @ b))"
    using rc by (auto intro: reads_ret)
qed

lemma reads_write_zeros: "reads (write_zeros E out n) (added (no_failures E) out (replicate n NUL))"
proof (induction n arbitrary: out rule: less_induct)
  case (less n)
  let ?c = "if n > 512 then 512 else n"
  have split: "replicate n NUL = replicate ?c NUL @ replicate (n - ?c) NUL"
    by (simp flip: replicate_add)
  show ?case
  proof (cases "n = 0")
    case True
    then show ?thesis by (subst write_zeros.simps) (auto intro!: read_rules simp: added_def)
  next
    case False
    then have IH: "reads (write_zeros E o' (n - ?c)) (added (no_failures E) o' (replicate (n - ?c) NUL))" for o'
      by (intro less.IH) auto
    have "reads (write_zeros E out n) (added (no_failures E) out (replicate ?c NUL @ replicate (n - ?c) NUL))"
      using reads_then_added [OF reads_write_block [of E out "replicate ?c NUL"] IH] False
      by (simp only: write_zeros.simps [of E out n] Let_def) simp
    with split show ?thesis by simp
  qed
qed

lemma reads_copy_chunks: "reads (copy_chunks E out s) (added (no_failures E) out s)"
proof (induction s arbitrary: out rule: length_induct)
  case (1 s)
  show ?case
  proof (cases "s = []")
    case True
    then show ?thesis by (subst copy_chunks.simps) (auto intro!: read_rules simp: added_def)
  next
    case False
    then have "length (drop 8192 s) < length s" by simp
    with 1 have IH: "reads (copy_chunks E o' (drop 8192 s)) (added (no_failures E) o' (drop 8192 s))" for o'
      by blast
    show ?thesis
      using reads_then_added [OF reads_write_block [of E out "take 8192 s"] IH] False
      by (simp add: copy_chunks.simps [of E out s])
  qed
qed

lemma reads_zero_pad:
  "reads (if n \<noteq> 0 then bnd (write_zeros E out n) (\<lambda>(rc, out''). ret (if rc \<noteq> 0 then -1 else 0, out''))
          else ret (0, out)) (added (no_failures E) out (replicate n NUL))"
  by (auto simp: added_def intro!: read_rules reads_bnd [OF reads_write_zeros])

lemma reads_contents:
  "reads (write_file_contents E out (Readable s) st) (added (no_failures E) out (s @ block_pad (st_size st)))"
proof -
  have "reads (bnd (copy_chunks E out s) (\<lambda>(rc, out'). if rc \<noteq> 0 then ret (-1, out') else
      (if n \<noteq> 0 then bnd (write_zeros E out' n) (\<lambda>(rc, out''). ret (if rc \<noteq> 0 then -1 else 0, out''))
          else ret (0, out')))) (added (no_failures E) out (s @ replicate n NUL))" for n
    by (rule reads_then_added [OF reads_copy_chunks reads_zero_pad])
  moreover have "added (no_failures E) out b (-1, out)" if "\<not> malloc_ok E t" for b t
    using that by (auto simp: added_def no_failures_def)
  ultimately show ?thesis
    unfolding write_file_contents_def Let_def fdata.case block_pad_def
    by (intro reads_malloc reads_if reads_ret)
qed

lemma reads_header:
  assumes "length nm < 100"
  shows "reads (write_tar_header E out nm st t)
    (\<lambda>r. \<exists>pw gr. added (no_failures E) out (header_bytes (seal_header (tar_header [] nm st t pw gr))) r)"
proof -
  have name: "tar_name nm = Some ([], nm)" using assms by (simp add: tar_name_def c_strncpy_def)
  have "reads (bnd (write_block E out h) (\<lambda>(rc, out'). ret (if rc \<noteq> 0 then -1 else 0, out')))
      (added (no_failures E) out h)" for h
    by (auto simp: added_def intro!: reads_ret reads_bnd [OF reads_write_block])
  then show ?thesis unfolding write_tar_header_def name
    by (auto intro!: reads_ask_bnd intro: reads_weaken)
qed

lemma reads_dir_entry:
  assumes "length nm < 100" "NUL \<notin> set nm"
  shows "reads (write_tar_header E out nm st (CHR ''5'')) (wrote (no_failures E) out [(nm, CHR ''5'', [])])"
proof (rule reads_weaken [OF reads_header [OF assms(1)]])
  fix r
  assume "\<exists>pw gr. added (no_failures E) out (header_bytes (seal_header (tar_header [] nm st (CHR ''5'') pw gr))) r"
  moreover have "emits [(nm, CHR ''5'', [])] (header_bytes (seal_header (tar_header [] nm st (CHR ''5'') pw gr)))" for pw gr
    using emits_entry [OF assms, of 0 "CHR ''5''" st "[]" pw gr] by (simp add: block_pad_def)
  ultimately show "wrote (no_failures E) out [(nm, CHR ''5'', [])] r"
    by (auto simp: wrote_def added_def)
qed

lemma reads_file_entry:
  assumes "length nm < 100" "NUL \<notin> set nm" "st_size st < 8 ^ 11" "length s = st_size st"
    and k: "\<And>r. wrote (no_failures E) out [(nm, CHR ''0'', s)] r \<Longrightarrow> reads (k r) Q"
    and fail: "\<And>out'. \<not> no_failures E \<Longrightarrow> Q (-1, out')"
  shows "reads (bnd (write_tar_header E out nm st (CHR ''0'')) (\<lambda>(rc, out').
    if rc \<noteq> 0 then ret (-1, out') else bnd (write_file_contents E out' (Readable s) st) k)) Q"
proof (rule reads_bnd [OF reads_header [OF assms(1)]])
  fix r :: "int \<times> string"
  obtain rc out' where r: "r = (rc, out')" by (cases r)
  assume "\<exists>pw gr. added (no_failures E) out (header_bytes (seal_header (tar_header [] nm st (CHR ''0'') pw gr))) r"
  then obtain pw gr where h: "added (no_failures E) out (header_bytes (seal_header (tar_header [] nm st (CHR ''0'') pw gr))) (rc, out')"
    using r by auto
  have em: "emits [(nm, CHR ''0'', s)] (header_bytes (seal_header (tar_header [] nm st (CHR ''0'') pw gr)) @ s @ block_pad (st_size st))"
    using emits_entry [OF assms(1,2), of "st_size st" "CHR ''0''" st s pw gr] assms(3,4) by simp
  have "reads (k x) Q" if "added (no_failures E) out' (s @ block_pad (st_size st)) x" "rc = 0" for x
    using that h em by (intro k) (auto simp: added_def wrote_def)
  then show "reads (case r of (rc, out') \<Rightarrow>
      if rc \<noteq> 0 then ret (-1, out') else bnd (write_file_contents E out' (Readable s) st) k) Q"
    using h fail unfolding r by (auto simp: added_def intro!: read_rules reads_bnd [OF reads_contents])
qed

section \<open>Directory trees\<close>

text \<open>The entries that a directory should give, in the order of the walk.\<close>

fun tree_entries :: "string \<Rightarrow> (string \<times> fnode option) list \<Rightarrow> tar_entry list" where
  "tree_entries rel [] = []"
| "tree_entries rel ((d, child) # es) =
     (if d = ''.'' \<or> d = ''..'' then []
      else case child of
        Some (FDir st opens sub) \<Rightarrow>
          (child_name rel d @ ''/'', CHR ''5'', []) # tree_entries (child_name rel d) sub
      | Some (FFile st (Readable s)) \<Rightarrow> [(child_name rel d, CHR ''0'', s)]
      | _ \<Rightarrow> []) @ tree_entries rel es"

text \<open>
  Trees that the format can hold: names below 100 bytes with their directory, files below
  8 GiB that can be read and have the size \<open>lstat\<close> gave, directories that open.
\<close>

definition name_fits :: "string \<Rightarrow> bool" where
  "name_fits nm \<longleftrightarrow> length nm < 100 \<and> NUL \<notin> set nm"

fun tree_ok :: "string \<Rightarrow> (string \<times> fnode option) list \<Rightarrow> bool" where
  "tree_ok rel [] = True"
| "tree_ok rel ((d, child) # es) =
     ((d = ''.'' \<or> d = ''..'' \<or> (case child of
         Some (FDir st opens sub) \<Rightarrow>
           opens \<and> name_fits (child_name rel d @ ''/'') \<and> tree_ok (child_name rel d) sub
       | Some (FFile st data) \<Rightarrow> name_fits (child_name rel d) \<and> st_size st < 8 ^ 11
           \<and> (case data of Readable s \<Rightarrow> length s = st_size st | _ \<Rightarrow> False)
       | Some (FOther st) \<Rightarrow> True
       | None \<Rightarrow> False)) \<and> tree_ok rel es)"

lemma wrote_append:
  "wrote ok out es (0, out') \<Longrightarrow> wrote ok out' fs r \<Longrightarrow> wrote ok out (es @ fs) r"
  using emits_append by (fastforce simp: wrote_def)

lemma wrote_weaken: "wrote ok out es r \<Longrightarrow> (ok' \<Longrightarrow> ok) \<Longrightarrow> wrote ok' out es r"
  by (simp add: wrote_def)

lemma wrote_fails: "\<not> ok \<Longrightarrow> wrote ok out es (-1, out')"
  by (simp add: wrote_def)

definition can_write :: "'j platform \<Rightarrow> string \<Rightarrow> bool" where
  "can_write E root \<longleftrightarrow> no_failures E \<and> length root < 8000"

lemma can_write_no_failures: "can_write E root \<Longrightarrow> no_failures E"
  by (simp add: can_write_def)

text \<open>Walking one directory. The recursion goes into subdirectories and along the siblings.\<close>

lemma reads_subdir:
  assumes fits: "name_fits (nm @ ''/'')"
    and sub: "\<And>out. reads (archive_entries E out root nm sub) (wrote (can_write E root) out fs)"
  shows "reads (archive_path_recursive E out root nm (FDir st True sub)) (wrote (can_write E root) out fs)"
  using fits sub by (subst archive_path_recursive.simps)
    (auto simp: name_fits_def can_write_def intro!: read_rules wrote_fails)

lemma reads_then:
  assumes "reads m (wrote ok out es)" and "\<And>out'. reads (k out') (wrote ok out' fs)"
  shows "reads (bnd m (\<lambda>(rc, out'). if rc \<noteq> 0 then ret (-1, out') else k out')) (wrote ok out (es @ fs))"
proof (rule reads_bnd [OF assms(1)])
  fix r
  assume r: "wrote ok out es r"
  obtain rc out' where rc: "r = (rc, out')" by (cases r)
  have "reads (k out') (wrote ok out (es @ fs))" if "rc = 0"
    using reads_weaken [OF assms(2)] wrote_append r rc that by blast
  moreover have "wrote ok out (es @ fs) (-1, out')" if "rc \<noteq> 0"
    using r rc that by (simp add: wrote_def)
  ultimately show "reads (case r of (rc, out') \<Rightarrow> if rc \<noteq> 0 then ret (-1, out') else k out') (wrote ok out (es @ fs))"
    using rc by (auto intro: reads_ret)
qed

lemma child_name_short: "name_fits (child_name rel d @ ''/'') \<Longrightarrow> fst (c_snprintf 8200 (child_name rel d @ ''/'')) = child_name rel d @ ''/''"
  by (auto simp: name_fits_def c_snprintf_def)

lemma reads_archive_entries:
  "tree_ok rel es \<Longrightarrow> reads (archive_entries E out root rel es) (wrote (can_write E root) out (tree_entries rel es))"
proof (induction rel es arbitrary: out rule: tree_entries.induct)
  case (1 rel)
  then show ?case by (simp add: archive_entries.simps) (intro reads_ret, simp add: wrote_def emits_Nil)
next
  case (2 rel d child es)
  let ?W = "\<lambda>out. wrote (can_write E root) out"
  show ?case
  proof (cases "d = ''.'' \<or> d = ''..''")
    case True
    with 2 show ?thesis by (auto simp: archive_entries.simps)
  next
    case False
    with "2.prems" have rest: "reads (archive_entries E out root rel es) (?W out (tree_entries rel es))" for out
      using "2.IH" by auto
    from False "2.prems" consider (Dir) st sub where "child = Some (FDir st True sub)"
        "name_fits (child_name rel d @ ''/'')" "tree_ok (child_name rel d) sub"
      | (File) st s where "child = Some (FFile st (Readable s))" "name_fits (child_name rel d)"
        "st_size st < 8 ^ 11" "length s = st_size st"
      | (Other) st where "child = Some (FOther st)"
      by (auto split: option.splits fnode.splits fdata.splits)
    then show ?thesis
    proof cases
      case Dir
      let ?nm = "child_name rel d"
      have hd: "reads (write_tar_header E out (?nm @ ''/'') st (CHR ''5'')) (?W out [(?nm @ ''/'', CHR ''5'', [])])"
        using Dir(2) by (intro reads_weaken [OF reads_dir_entry]) (auto simp: name_fits_def intro: wrote_weaken can_write_no_failures)
      have sub: "reads (archive_path_recursive E out root ?nm (FDir st True sub)) (?W out (tree_entries ?nm sub))" for out
        using Dir False "2.IH"(1) [OF False, of "FDir st True sub" st True sub] by (intro reads_subdir) auto
      have "reads (bnd (write_tar_header E out (?nm @ ''/'') st (CHR ''5'')) (\<lambda>(rc, out').
             if rc \<noteq> 0 then ret (-1, out')
             else bnd (archive_path_recursive E out' root ?nm (FDir st True sub)) (\<lambda>(rc2, out'').
             if rc2 \<noteq> 0 then ret (-1, out'') else archive_entries E out'' root rel es)))
           (?W out ([(?nm @ ''/'', CHR ''5'', [])] @ tree_entries ?nm sub @ tree_entries rel es))"
        by (intro reads_then hd sub rest)
      then show ?thesis using False Dir(1) child_name_short [OF Dir(2)]
        by (auto simp: archive_entries.simps can_write_def no_failures_def intro!: read_rules wrote_fails)
    next
      case File
      let ?nm = "child_name rel d"
      have "reads (bnd (write_tar_header E out ?nm st (CHR ''0'')) (\<lambda>(rc, out').
             if rc \<noteq> 0 then ret (-1, out')
             else bnd (write_file_contents E out' (Readable s) st) (\<lambda>(rc2, out'').
             if rc2 \<noteq> 0 then ret (-1, out'') else archive_entries E out'' root rel es)))
           (?W out ([(?nm, CHR ''0'', s)] @ tree_entries rel es))"
      proof (rule reads_file_entry)
        fix r
        assume "wrote (no_failures E) out [(?nm, CHR ''0'', s)] r"
        then have r: "?W out [(?nm, CHR ''0'', s)] r" by (rule wrote_weaken) (rule can_write_no_failures)
        obtain rc out' where rc: "r = (rc, out')" by (cases r)
        have "reads (archive_entries E out' root rel es) (?W out ([(?nm, CHR ''0'', s)] @ tree_entries rel es))" if "rc = 0"
          using reads_weaken [OF rest] wrote_append r rc that by blast
        moreover have "?W out ([(?nm, CHR ''0'', s)] @ tree_entries rel es) (-1, out')" if "rc \<noteq> 0"
          using r rc that by (simp add: wrote_def)
        ultimately show "reads (case r of (rc2, out'') \<Rightarrow> if rc2 \<noteq> 0 then ret (-1, out'') else archive_entries E out'' root rel es)
           (?W out ([(?nm, CHR ''0'', s)] @ tree_entries rel es))"
          using rc by (auto intro: reads_ret)
      qed (use File in \<open>auto simp: name_fits_def can_write_def intro!: wrote_fails\<close>)
      then show ?thesis using False File(1)
        by (auto simp: archive_entries.simps can_write_def no_failures_def intro!: read_rules wrote_fails)
    next
      case Other
      then show ?thesis using False rest
        by (auto simp: archive_entries.simps can_write_def no_failures_def intro!: read_rules wrote_fails)
    qed
  qed
qed

lemma reads_archive_body:
  assumes "tree_ok [] sub"
  shows "reads (archive_body E src (FDir st True sub))
    (\<lambda>(rc, out). (rc = 0 \<longrightarrow> untar out = Some (tree_entries [] sub)) \<and> (can_write E src \<longrightarrow> rc = 0))"
proof -
  let ?es = "tree_entries [] sub"
  have dir: "reads (archive_path_recursive E [] src [] (FDir st True sub)) (wrote (can_write E src) [] ?es)"
    using reads_archive_entries [OF assms] by (subst archive_path_recursive.simps)
      (auto simp: can_write_def intro!: read_rules wrote_fails)
  have finished: "untar (b @ replicate 512 NUL @ replicate 512 NUL) = Some ?es" if "emits ?es b" for b
    using that by (simp add: emits_def untar_end)
  have zeros: "reads (bnd (write_zeros E out 512) (\<lambda>(z1, out1). bnd (write_zeros E out1 512) (\<lambda>(z2, out2).
      ret (if z1 \<noteq> 0 \<or> z2 \<noteq> 0 then (-1::int) else 0, out2))))
      (\<lambda>(rc, out'). (rc = 0 \<longrightarrow> untar out' = Some ?es) \<and> (can_write E src \<longrightarrow> rc = 0))" if "emits ?es out" for out
    using finished [OF that] by (auto simp: added_def can_write_def
        intro!: reads_bnd [OF reads_write_zeros] read_rules)
  show ?thesis unfolding archive_body_def
    by (simp, rule reads_bnd [OF dir]) (auto simp: wrote_def intro!: read_rules zeros)
qed

section \<open>Any tree\<close>

text \<open>On every tree the walk ends, without a fault, with some code and some bytes.\<close>

lemma reads_header_any: "reads (write_tar_header E out nm st t) (\<lambda>_. True)"
  unfolding write_tar_header_def by (auto intro!: read_rules reads_bnd [OF reads_write_block] split: option.splits)

lemma reads_zeros_any: "reads (write_zeros E out n) (\<lambda>_. True)"
  by (rule reads_weaken [OF reads_write_zeros]) simp

lemma reads_contents_any: "reads (write_file_contents E out data st) (\<lambda>_. True)"
  unfolding write_file_contents_def Let_def
  by (cases data) (auto intro!: read_rules reads_bnd [OF reads_copy_chunks] reads_bnd [OF reads_zeros_any])

lemma reads_path_any:
  assumes "\<And>out. reads (archive_entries E out root rel sub) (\<lambda>_. True)"
  shows "reads (archive_path_recursive E out root rel (FDir st opens sub)) (\<lambda>_. True)"
  using assms by (subst archive_path_recursive.simps) (auto intro!: read_rules reads_header_any split: bool.splits)

lemma reads_entries_any: "reads (archive_entries E out root rel es) (\<lambda>_. True)"
proof (induction rel es arbitrary: out rule: tree_entries.induct)
  case (1 rel)
  then show ?case by (simp add: archive_entries.simps) (intro read_rules, simp)
next
  case (2 rel d child es)
  show ?case
  proof (cases "d = ''.'' \<or> d = ''..''")
    case True
    with 2 show ?thesis by (auto simp: archive_entries.simps)
  next
    case False
    note rest = "2.IH"(2)
    have sub: "reads (archive_path_recursive E out root (child_name rel d) (FDir st opens sub)) (\<lambda>_. True)"
      if "child = Some (FDir st opens sub)" for st opens sub out
      using "2.IH"(1) [OF False that refl] by (intro reads_path_any)
    show ?thesis
    proof (cases child)
      case (Some n)
      then show ?thesis using False sub rest
        by (cases n) (auto simp: archive_entries.simps intro!: read_rules reads_bnd [OF reads_header_any]
            reads_bnd [OF reads_contents_any] reads_bnd [OF sub])
    qed (use False in \<open>auto simp: archive_entries.simps intro!: read_rules\<close>)
  qed
qed

lemma reads_body_any: "reads (archive_body E src root) (\<lambda>_. True)"
proof -
  have "reads (case root of
        FDir st opens sub \<Rightarrow> archive_path_recursive E [] src [] root
      | FFile st data \<Rightarrow>
          bnd (write_tar_header E [] (base_name src) st (CHR ''0'')) (\<lambda>(rc, out).
          if rc \<noteq> 0 then ret (-1, out)
          else bnd (write_file_contents E out data st) (\<lambda>(rc, out). ret (if rc \<noteq> 0 then -1 else 0, out)))
      | FOther st \<Rightarrow> ret (-2, [])) (\<lambda>_. True)"
    by (cases root) (auto intro!: read_rules reads_path_any reads_entries_any reads_bnd [OF reads_header_any]
        reads_bnd [OF reads_contents_any])
  then show ?thesis unfolding archive_body_def
    by (rule reads_bnd) (auto intro!: read_rules reads_bnd [OF reads_zeros_any])
qed

text \<open>Creating an archive writes one file at most, and writes it when it reports success.\<close>

lemma acts_archive_create:
  "acts (rrd_archive_create E (Some src) (Some wd) (Some f)) (\<lambda>rc es.
     (\<forall>ev \<in> set es. \<exists>p b. ev = EvWrite p b)
     \<and> (rc = 0 \<and> wd \<noteq> [] \<longrightarrow> (\<exists>b. es = [EvWrite (fst (c_snprintf 8192 (wd @ ''/'' @ f))) b])))"
proof -
  have tail: "acts (case root of FOther st \<Rightarrow> ret (-2)
      | _ \<Rightarrow> bnd (ask (\<lambda>t. file_size E t p)) (\<lambda>sz. ret (g sz))) (\<lambda>_ es. es = [])" for root p and g :: "nat option \<Rightarrow> int"
    by (cases root) (auto intro!: act_rules)
  show ?thesis unfolding rrd_archive_create_def Let_def
    by (auto intro!: act_rules acts_bnd_reads [OF reads_body_any] acts_weaken [OF tail])
qed

section \<open>Properties\<close>

text \<open>
  Every header block that the writer produces, for any name, status and owner, is 512
  bytes long and carries the checksum that the format requires; a name that does not fit
  is refused before anything is written.
\<close>

theorem write_tar_header_valid:
  "\<exists>rc out' t'. write_tar_header E out name st t w = Ret (rc, out') (w\<lparr>tick := t'\<rparr>)
     \<and> (if rc = 0
        then length name \<le> 255 \<and> (\<exists>h. out' = out @ h \<and> length h = 512 \<and> checksum_ok h \<and> h ! 156 = t)
        else out' = out)"
proof -
  have ok: "checksum_ok (header_bytes (seal_header (tar_header p n st t pw gr)))"
    "header_bytes (seal_header (tar_header p n st t pw gr)) ! 156 = t" for p n pw gr
    using seal_chksum [of "tar_header p n st t pw gr"] header_fields(5) [of "seal_header (tar_header p n st t pw gr)" "[]"]
    by (simp_all add: tar_header_def)
  have "reads (write_tar_header E out name st t) (\<lambda>(rc, out').
      if rc = 0
      then length name \<le> 255 \<and> (\<exists>h. out' = out @ h \<and> length h = 512 \<and> checksum_ok h \<and> h ! 156 = t)
      else out' = out)"
  proof (cases "tar_name name")
    case (Some pn)
    then have "length name \<le> 255" by (auto simp: tar_name_def Let_def split: if_splits)
    with Some ok show ?thesis
      unfolding write_tar_header_def write_block_def by (auto intro!: read_rules)
  qed (auto simp: write_tar_header_def intro!: read_rules)
  then show ?thesis unfolding reads_def by fastforce
qed


definition sample_stat :: "nat \<Rightarrow> stat" where
  "sample_stat n = \<lparr>st_mode = 0x1FF, st_uid = 0, st_gid = 0, st_size = n, st_mtime = 1700000000\<rparr>"


text \<open>
  C25: Exactly the names below 100 bytes survive in a header: the name that a reader puts
  together from the two fields is the name that was given if and only if it is shorter
  than 100 characters. Longer names are accepted up to 255 bytes but stored with
  characters missing.
\<close>

theorem tar_name_lossless_iff:
  "(\<exists>pfx nm. tar_name name = Some (pfx, nm) \<and> (if pfx = [] then nm else pfx @ ''/'' @ nm) = name)
     \<longleftrightarrow> length name < 100"
proof
  assume "length name < 100"
  then show "\<exists>pfx nm. tar_name name = Some (pfx, nm) \<and> (if pfx = [] then nm else pfx @ ''/'' @ nm) = name"
    by (simp add: tar_name_def c_strncpy_def)
next
  assume "\<exists>pfx nm. tar_name name = Some (pfx, nm) \<and> (if pfx = [] then nm else pfx @ ''/'' @ nm) = name"
  then obtain pfx nm where t: "tar_name name = Some (pfx, nm)" and
    len: "length (if pfx = [] then nm else pfx @ ''/'' @ nm) = length name" by auto
  show "length name < 100"
    using t len by (auto simp: tar_name_def c_strncpy_def Let_def split: if_splits)
qed

end
