(* ===== verification/RRD_Sysinfo.thy ===== *)
theory RRD_Sysinfo
  imports RRD_World
begin

text \<open>
  File and directory helpers of \<^verbatim>\<open>src/rrd_sysinfo.c\<close>: existence, emptiness and the size of
  a directory tree. The helpers name files by path, and the recursive one builds the path
  of an entry in a buffer of 1024 bytes; the model keeps the paths. The files do not change
  during one call. The walk is a partial function: \<open>None\<close> is a recursion that does not end.
\<close>

section \<open>Model\<close>

subsection \<open>The file system, by path\<close>

datatype file_kind = S_IFREG | S_IFDIR | S_IFOTHER

record filesystem =
  access_F_OK :: "string \<Rightarrow> bool"
  stat_path :: "string \<Rightarrow> (file_kind \<times> 64 word) option"
  opendir_path :: "string \<Rightarrow> string list option"

definition dot_name :: "string \<Rightarrow> bool" where
  "dot_name d_name \<longleftrightarrow> d_name = ''.'' \<or> d_name = ''..''"

subsection \<open>Existence and emptiness\<close>

definition rrd_sysinfo_file_exists :: "filesystem \<Rightarrow> string option \<Rightarrow> bool" where
  "rrd_sysinfo_file_exists fs filepath =
     (case filepath of None \<Rightarrow> False | Some p \<Rightarrow> access_F_OK fs p)"

definition rrd_sysinfo_dir_exists :: "filesystem \<Rightarrow> string option \<Rightarrow> bool" where
  "rrd_sysinfo_dir_exists fs dirpath =
     (case dirpath of None \<Rightarrow> False
      | Some p \<Rightarrow> (case stat_path fs p of None \<Rightarrow> False | Some (kind, n) \<Rightarrow> kind = S_IFDIR))"

fun empty_loop :: "string list \<Rightarrow> bool" where
  "empty_loop [] = True"
| "empty_loop (d_name # names) = (if d_name \<noteq> ''.'' \<and> d_name \<noteq> ''..'' then False else empty_loop names)"

definition rrd_sysinfo_dir_is_empty :: "filesystem \<Rightarrow> string option \<Rightarrow> bool" where
  "rrd_sysinfo_dir_is_empty fs dirpath =
     (case dirpath of None \<Rightarrow> False
      | Some p \<Rightarrow> (case opendir_path fs p of None \<Rightarrow> False | Some names \<Rightarrow> empty_loop names))"

subsection \<open>The size of a tree\<close>

text \<open>The path of an entry in \<open>char filepath[1024]\<close>.\<close>

definition entry_path :: "string \<Rightarrow> string \<Rightarrow> string" where
  "entry_path dirpath d_name = fst (c_snprintf 1024 (dirpath @ ''/'' @ d_name))"

text \<open>The loop over the entries, with the recursive call as an argument.\<close>

primrec size_loop ::
  "(string \<Rightarrow> (int \<times> 64 word) option) \<Rightarrow> filesystem \<Rightarrow> string \<Rightarrow> string list \<Rightarrow> 64 word \<Rightarrow> 64 word option" where
  "size_loop walk fs dirpath [] tot = Some tot"
| "size_loop walk fs dirpath (d_name # names) tot =
     (if dot_name d_name then size_loop walk fs dirpath names tot
      else (case stat_path fs (entry_path dirpath d_name) of
          None \<Rightarrow> size_loop walk fs dirpath names tot
        | Some (kind, n) \<Rightarrow>
            (case kind of
               S_IFREG \<Rightarrow> size_loop walk fs dirpath names (tot + n)
             | S_IFDIR \<Rightarrow>
                 Option.bind (walk (entry_path dirpath d_name)) (\<lambda>r.
                 size_loop walk fs dirpath names (if fst r = 0 then tot + snd r else tot))
             | S_IFOTHER \<Rightarrow> size_loop walk fs dirpath names tot)))"

lemma size_loop_mono [partial_function_mono]:
  assumes "\<And>p. mono_option (\<lambda>f. walk f p)"
  shows "mono_option (\<lambda>f. size_loop (\<lambda>p. walk f p) fs dirpath names tot)"
proof (induction names arbitrary: tot)
  case Nil
  show ?case by (simp add: option.const_mono)
next
  case (Cons d names)
  have bind: "mono_option (\<lambda>f. Option.bind (walk f q) (\<lambda>r. size_loop (walk f) fs dirpath names (g r)))" for q g
    by (rule bind_mono [OF assms Cons.IH])
  show ?case
  proof (cases "dot_name d \<or> stat_path fs (entry_path dirpath d) = None")
    case True
    then show ?thesis using Cons.IH by (cases "dot_name d") simp_all
  next
    case False
    then obtain kind n where st: "\<not> dot_name d" "stat_path fs (entry_path dirpath d) = Some (kind, n)" by auto
    then show ?thesis using Cons.IH bind by (cases kind) simp_all
  qed
qed

partial_function (option) dir_size :: "filesystem \<Rightarrow> string \<Rightarrow> (int \<times> 64 word) option" where
  "dir_size fs dirpath =
     (case opendir_path fs dirpath of
        None \<Rightarrow> Some (-1, 0)
      | Some names \<Rightarrow> Option.bind (size_loop (dir_size fs) fs dirpath names 0) (\<lambda>tot. Some (0, tot)))"

text \<open>The return code and the value left in \<open>*size\<close>; a NULL argument leaves it alone.\<close>

definition rrd_sysinfo_get_dir_size ::
  "filesystem \<Rightarrow> string option \<Rightarrow> 64 word option \<Rightarrow> (int \<times> 64 word option) option" where
  "rrd_sysinfo_get_dir_size fs dirpath sz =
     (case (dirpath, sz) of
        (Some p, Some _) \<Rightarrow> map_option (\<lambda>(rc, tot). (rc, Some tot)) (dir_size fs p)
      | _ \<Rightarrow> Some (-1, sz))"

section \<open>Properties\<close>

lemma empty_loop_iff: "empty_loop names \<longleftrightarrow> (\<forall>d \<in> set names. dot_name d)"
  by (induction names) (auto simp: dot_name_def)

text \<open>What a path shows: a tree of files, with the entries that cannot be examined or opened.\<close>

datatype dtree = Missing | Regular "64 word" | Special | Sealed | Folder "(string \<times> dtree) list"

fun tree_size :: "dtree \<Rightarrow> 64 word" where
  "tree_size (Regular n) = n"
| "tree_size (Folder es) = sum_list (map (\<lambda>(name, t). if dot_name name then 0 else tree_size t) es)"
| "tree_size _ = 0"

text \<open>The tree is found at a path, and the path of each of its entries fits the buffer.\<close>

fun at_path :: "filesystem \<Rightarrow> string \<Rightarrow> dtree \<Rightarrow> bool" where
  "at_path fs p Missing \<longleftrightarrow> stat_path fs p = None"
| "at_path fs p (Regular n) \<longleftrightarrow> stat_path fs p = Some (S_IFREG, n)"
| "at_path fs p Special \<longleftrightarrow> map_option fst (stat_path fs p) = Some S_IFOTHER"
| "at_path fs p Sealed \<longleftrightarrow> map_option fst (stat_path fs p) = Some S_IFDIR \<and> opendir_path fs p = None"
| "at_path fs p (Folder es) \<longleftrightarrow> map_option fst (stat_path fs p) = Some S_IFDIR
     \<and> opendir_path fs p = Some (map fst es)
     \<and> (\<forall>(name, t) \<in> set es. dot_name name \<or> length p + length name < 1023 \<and> at_path fs (p @ ''/'' @ name) t)"

lemma entry_path_fits: "length p + length name < 1023 \<Longrightarrow> entry_path p name = p @ ''/'' @ name"
  by (simp add: entry_path_def c_snprintf_def)

text \<open>One entry: what it adds, when the recursive call is right about the directories below.\<close>

lemma size_loop_entry:
  assumes "\<not> dot_name d" and "length p + length d < 1023" and "at_path fs (p @ ''/'' @ d) t"
    and "\<And>es. t = Folder es \<Longrightarrow> walk (p @ ''/'' @ d) = Some (0, tree_size t)"
    and "t = Sealed \<Longrightarrow> walk (p @ ''/'' @ d) = Some (-1, 0)"
  shows "size_loop walk fs p (d # names) tot = size_loop walk fs p names (tot + tree_size t)"
  using assms by (cases t) (auto simp: entry_path_fits)

lemma size_loop_tree:
  assumes "\<And>name t. (name, t) \<in> set es \<Longrightarrow> \<not> dot_name name \<Longrightarrow>
      length p + length name < 1023 \<and> at_path fs (p @ ''/'' @ name) t
      \<and> (\<forall>es'. t = Folder es' \<longrightarrow> dir_size fs (p @ ''/'' @ name) = Some (0, tree_size t))"
  shows "size_loop (dir_size fs) fs p (map fst es) tot = Some (tot + tree_size (Folder es))"
  using assms
proof (induction es arbitrary: tot)
  case (Cons e es)
  obtain name t where e: "e = (name, t)" by (cases e)
  note IH = Cons.IH [OF Cons.prems, simplified]
  show ?case
  proof (cases "dot_name name")
    case False
    then have "size_loop (dir_size fs) fs p (name # map fst es) tot = size_loop (dir_size fs) fs p (map fst es) (tot + tree_size t)"
      using Cons.prems [of name t] e by (intro size_loop_entry) (auto simp: dir_size.simps [of fs "p @ CHR ''/'' # name"])
    then show ?thesis using IH False e by (simp add: add.assoc)
  qed (use IH e in simp)
qed simp

lemma dir_size_tree: "at_path fs p (Folder es) \<Longrightarrow> dir_size fs p = Some (0, tree_size (Folder es))"
proof (induction "Folder es" arbitrary: p es)
  case (Folder es)
  have "size_loop (dir_size fs) fs p (map fst es) 0 = Some (0 + tree_size (Folder es))"
    using Folder by (intro size_loop_tree) (fastforce elim: snds.cases)
  with Folder.prems show ?case by (subst dir_size.simps) simp
qed

lemma size_loop_dots: "\<forall>d \<in> set names. dot_name d \<Longrightarrow> size_loop walk fs p names tot = Some tot"
  by (induction names) auto

lemma empty_dir_size:
  assumes "rrd_sysinfo_dir_is_empty fs (Some p)"
  shows "rrd_sysinfo_get_dir_size fs (Some p) (Some old) = Some (0, Some 0)"
proof -
  obtain names where names: "opendir_path fs p = Some names" "\<forall>d \<in> set names. dot_name d"
    using assms by (auto simp: rrd_sysinfo_dir_is_empty_def empty_loop_iff split: option.splits)
  then have "size_loop (dir_size fs) fs p names 0 = Some 0" by (intro size_loop_dots)
  with names show ?thesis by (simp add: rrd_sysinfo_get_dir_size_def dir_size.simps)
qed

text \<open>
  A directory whose path fills the buffer: the path of each of its entries is cut to the
  path of the directory itself, so the walk enters the same directory again.
\<close>

lemma size_loop_again:
  assumes "length p = 1023" and "map_option fst (stat_path fs p) = Some S_IFDIR" and "walk p = None"
    and "\<exists>d \<in> set names. \<not> dot_name d"
  shows "size_loop walk fs p names tot = None"
  using assms by (induction names arbitrary: tot) (auto simp: entry_path_def c_snprintf_def)

lemma full_path_runs_away:
  assumes "length p = 1023" and dir: "map_option fst (stat_path fs p) = Some S_IFDIR"
    and names: "opendir_path fs p = Some names" "\<exists>d \<in> set names. \<not> dot_name d"
  shows "rrd_sysinfo_get_dir_size fs (Some p) (Some old) = None"
proof -
  have "False" if "dir_size fs p = Some r" for r
  proof (rule dir_size.raw_induct [where P = "\<lambda>fs' q r. (fs', q) \<noteq> (fs, p)", OF _ that, simplified])
    fix walk :: "filesystem \<Rightarrow> string \<Rightarrow> (int \<times> 64 word) option" and fs' q r
    assume IH: "\<And>fs' q r. walk fs' q = Some r \<Longrightarrow> fs' = fs \<longrightarrow> q \<noteq> p"
      and eq: "(case opendir_path fs' q of None \<Rightarrow> Some (- 1, 0)
        | Some names \<Rightarrow> Option.bind (size_loop (walk fs') fs' q names 0) (\<lambda>tot. Some (0, tot))) = Some r"
    have "walk fs p = None" using IH [of fs p] by (cases "walk fs p") auto
    then have "size_loop (walk fs) fs p names 0 = None" using assms by (intro size_loop_again) auto
    with eq names show "fs' = fs \<longrightarrow> q \<noteq> p" by auto
  qed
  then have "dir_size fs p = None" by (cases "dir_size fs p") auto
  then show ?thesis by (simp add: rrd_sysinfo_get_dir_size_def)
qed

text \<open>
  C39: The size of a directory tree whose paths fit the buffer is found: the walk returns,
  reports success, and leaves in the result the sum, modulo the width of \<open>size_t\<close>, of the
  sizes of the regular files at every depth. Entries that cannot be examined, directories
  that cannot be opened, special files and the two dot entries count nothing.
\<close>

theorem get_dir_size_sum:
  assumes "at_path fs p (Folder es)"
  shows "rrd_sysinfo_get_dir_size fs (Some p) (Some old) = Some (0, Some (tree_size (Folder es)))"
  using dir_size_tree [OF assms] by (simp add: rrd_sysinfo_get_dir_size_def)

definition report_dir :: filesystem where
  "report_dir =
     \<lparr>access_F_OK = (\<lambda>p. p \<in> set [''/tmp/rrd'', ''/tmp/rrd/a.log'', ''/tmp/rrd/sub'', ''/tmp/rrd/sub/b.log'']),
      stat_path = map_of [(''/tmp/rrd'', (S_IFDIR, 4096)), (''/tmp/rrd/a.log'', (S_IFREG, 700)),
        (''/tmp/rrd/sub'', (S_IFDIR, 4096)), (''/tmp/rrd/sub/b.log'', (S_IFREG, 42))],
      opendir_path = map_of [(''/tmp/rrd'', [''.'', ''..'', ''a.log'', ''gone'', ''sub'']),
        (''/tmp/rrd/sub'', [''b.log'', ''.'', ''..''])]\<rparr>"

theorem get_dir_size_sum_witness:
  "rrd_sysinfo_get_dir_size report_dir (Some ''/tmp/rrd'') (Some 0) = Some (0, Some 742)"
  using get_dir_size_sum [of report_dir "''/tmp/rrd''"
    "[(''.'', Missing), (''..'', Missing), (''a.log'', Regular 700), (''gone'', Missing),
      (''sub'', Folder [(''b.log'', Regular 42), (''.'', Missing), (''..'', Missing)])]" 0]
  by (simp add: report_dir_def dot_name_def)

end
