(* ===== verification/RRD_Load.thy ===== *)
theory RRD_Load
  imports RRD_Prelude "HOL-Library.Log_Nat"
begin

text \<open>
  The processor-load probe and the priority adjustment at the end of
  \<^verbatim>\<open>src/src/rrd_archive.c\<close>: reading the first line of \<^verbatim>\<open>/proc/stat\<close>, \<open>sscanf\<close> of eight
  counters, the load in single precision, the choice of a priority. A float is the rational
  number it denotes; rounding to 24 significant bits is written out. No intermediate value
  leaves the range of normal floats.
\<close>

section \<open>Single precision\<close>

definition round_even :: "rat \<Rightarrow> int" where
  "round_even q =
     (let f = \<lfloor>q\<rfloor>; d = q - of_int f
      in if d < 1 / 2 then f else if 1 / 2 < d then f + 1 else if even f then f else f + 1)"

definition ilog2 :: "rat \<Rightarrow> int" where
  "ilog2 q =
     (let (a, b) = quotient_of q; k = bitlen a - bitlen b
      in if 2 powi k \<le> q then k else k - 1)"

definition to_float :: "rat \<Rightarrow> rat" where
  "to_float q =
     (if q \<le> 0 then 0
      else let ulp = 2 powi (ilog2 q - 23) in of_int (round_even (q / ulp)) * ulp)"

section \<open>Model\<close>

text \<open>
  One \<open>%llu\<close>: white space, a sign, decimal digits; a number that does not fit becomes the
  greatest one, a negative one wraps around.
\<close>

definition scan_llu :: "string \<Rightarrow> (64 word \<times> string) option" where
  "scan_llu s =
     (let s1 = dropWhile c_isspace s;
          s2 = (if s1 \<noteq> [] \<and> (hd s1 = CHR ''-'' \<or> hd s1 = CHR ''+'') then tl s1 else s1);
          ds = takeWhile c_isdigit s2;
          v = digits_value 10 ds
      in if ds = [] then None
         else Some (if 2 ^ 64 \<le> v then - 1 else if hd s1 = CHR ''-'' then - of_nat v else of_nat v,
                    drop (length ds) s2))"

fun scan_llus :: "nat \<Rightarrow> string \<Rightarrow> 64 word list" where
  "scan_llus 0 s = []"
| "scan_llus (Suc n) s = (case scan_llu s of None \<Rightarrow> [] | Some (v, rest) \<Rightarrow> v # scan_llus n rest)"

text \<open>\<open>sscanf(buf, "cpu %llu ... %llu", ...)\<close> with eight conversions: the values assigned.\<close>

definition scan_cpu :: "string \<Rightarrow> 64 word list" where
  "scan_cpu buf = (if prefix ''cpu'' buf then scan_llus 8 (drop 3 buf) else [])"

definition cpu_load :: "64 word \<Rightarrow> 64 word \<Rightarrow> rat" where
  "cpu_load sum_all idle =
     to_float (to_float (100 * to_float (of_nat (unat (sum_all - idle)))) / to_float (of_nat (unat sum_all)))"

text \<open>
  The contents of \<^verbatim>\<open>/proc/stat\<close> (or that it does not open), whether the caller passed a
  pointer, and what the eight local variables hold before they are assigned. The result is
  the return code and the value stored through the pointer.
\<close>

definition rrd_archive_check_cpu_usage ::
  "string option \<Rightarrow> (nat \<Rightarrow> 64 word) \<Rightarrow> bool \<Rightarrow> int \<times> rat option" where
  "rrd_archive_check_cpu_usage proc_stat locals cpu_usage =
     (if \<not> cpu_usage then (-1, None)
      else (case proc_stat of
        None \<Rightarrow> (-2, None)
      | Some txt \<Rightarrow>
          (case c_fgets_all 256 txt of
             [] \<Rightarrow> (-3, None)
           | buf # _ \<Rightarrow>
               (let vals = scan_cpu (c_str buf); n = length vals in
                if n < 4 then (-4, None)
                else (let vars = vals @ map locals [n..<8]; sum_all = sum_list vars in
                      if sum_all = 0 then (-5, None)
                      else (0, Some (cpu_load sum_all (vars ! 3))))))))"

text \<open>The return code and the priority that was asked for.\<close>

definition rrd_archive_adjust_priority :: "(int \<Rightarrow> bool) \<Rightarrow> rat \<Rightarrow> int \<times> int" where
  "rrd_archive_adjust_priority setpriority_ok cpu_usage =
     (let prio = (if cpu_usage > 80 then 19 else if cpu_usage > 50 then 10 else 0)
      in (if setpriority_ok prio then 0 else -1, prio))"

section \<open>Rounding\<close>

lemma round_even_error: "\<bar>of_int (round_even q) - q\<bar> \<le> 1 / 2"
proof -
  have "of_int \<lfloor>q\<rfloor> \<le> q" "q < of_int \<lfloor>q\<rfloor> + 1" by linarith+
  then show ?thesis by (auto simp: round_even_def Let_def abs_le_iff)
qed

lemma bitlen_powi:
  assumes "0 < x"
  shows "2 powi (bitlen x - 1) \<le> (of_int x :: rat)" and "(of_int x :: rat) < 2 powi (bitlen x)"
proof -
  have pos: "1 \<le> bitlen x" using assms bitlen_eq_zero_iff [of x] bitlen_nonneg [of x] by linarith
  have "of_int (2 ^ nat (bitlen x - 1)) \<le> (of_int x :: rat)" "(of_int x :: rat) < of_int (2 ^ nat (bitlen x))"
    using bitlen_bounds [OF assms] by (simp_all only: of_int_le_iff of_int_less_iff)
  then show "2 powi (bitlen x - 1) \<le> (of_int x :: rat)" "(of_int x :: rat) < 2 powi (bitlen x)"
    using pos by (simp_all add: power_int_def)
qed

lemma ilog2_le:
  assumes "0 < q"
  shows "2 powi (ilog2 q) \<le> q"
proof -
  obtain a b where ab: "quotient_of q = (a, b)" by (cases "quotient_of q")
  have b: "0 < b" and q: "q = of_int a / of_int b"
    using quotient_of_denom_pos [OF ab] quotient_of_div [OF ab] by auto
  with assms have a: "0 < a" by (simp add: zero_less_divide_iff)
  have "2 powi (bitlen a - bitlen b - 1) * of_int b \<le> 2 powi (bitlen a - bitlen b - 1) * (2 powi (bitlen b) :: rat)"
    using bitlen_powi(2) [OF b] by (intro mult_left_mono) auto
  also have "\<dots> = 2 powi (bitlen a - 1)" by (simp flip: power_int_add)
  also have "\<dots> \<le> of_int a" using bitlen_powi(1) [OF a] .
  finally have "2 powi (bitlen a - bitlen b - 1) \<le> q" using b by (simp add: q field_simps)
  then show ?thesis by (simp add: ilog2_def ab Let_def)
qed

lemma to_float_error: "0 \<le> q \<Longrightarrow> \<bar>to_float q - q\<bar> \<le> q / 2 ^ 24"
proof (cases "q = 0")
  case False
  assume "0 \<le> q"
  with False have q: "0 < q" by simp
  define ulp :: rat where "ulp = 2 powi (ilog2 q - 23)"
  have ulp: "0 < ulp" by (simp add: ulp_def)
  have "2 ^ 23 * ulp = 2 powi (ilog2 q)"
    by (simp add: ulp_def power_int_diff)
  then have "2 ^ 23 * ulp \<le> q" using ilog2_le [OF q] by simp
  have "to_float q - q = (of_int (round_even (q / ulp)) - q / ulp) * ulp"
    using q ulp by (simp add: to_float_def Let_def ulp_def left_diff_distrib)
  then have "\<bar>to_float q - q\<bar> = \<bar>of_int (round_even (q / ulp)) - q / ulp\<bar> * ulp"
    using ulp by (simp add: abs_mult)
  also have "\<dots> \<le> 1 / 2 * ulp" using ulp round_even_error by (intro mult_right_mono) auto
  also have "\<dots> \<le> q / 2 ^ 24" using \<open>2 ^ 23 * ulp \<le> q\<close> by simp
  finally show ?thesis .
qed (simp add: to_float_def)

lemma to_float_bounds:
  assumes "0 \<le> q"
  shows "(1 - 1 / 2 ^ 24) * q \<le> to_float q" and "to_float q \<le> (1 + 1 / 2 ^ 24) * q"
  using abs_le_D1 [OF to_float_error [OF assms]] abs_le_D2 [OF to_float_error [OF assms]]
  by (simp_all add: left_diff_distrib distrib_right)

lemma to_float_nonneg: "0 \<le> q \<Longrightarrow> 0 \<le> to_float q"
  by (rule order_trans [OF _ to_float_bounds(1)]) simp_all

text \<open>Four roundings: the load is right up to a few units in the last place.\<close>

lemma load_error:
  fixes x y :: rat
  assumes "0 \<le> x" and "x \<le> y" and "0 < y"
  shows "\<bar>to_float (to_float (100 * to_float x) / to_float y) - 100 * x / y\<bar> \<le> 1 / 20000"
proof -
  let ?e = "1 / 2 ^ 24 :: rat" and ?P = "to_float (100 * to_float x)" and ?L = "100 * x / y"
  have Y: "(1 - ?e) * y \<le> to_float y" "to_float y \<le> (1 + ?e) * y" using assms by (intro to_float_bounds; simp)+
  have Y0: "0 < to_float y" by (rule less_le_trans [OF _ Y(1)]) (use assms(3) in simp)
  have L: "0 \<le> ?L" "?L \<le> 100" using assms by (simp_all add: field_simps)
  have P: "(1 - ?e) * (100 * to_float x) \<le> ?P" "?P \<le> (1 + ?e) * (100 * to_float x)"
    using to_float_nonneg [OF assms(1)] by (intro to_float_bounds; simp)+
  have "?P \<le> (1 + ?e) * (100 * ((1 + ?e) * x))"
    using P(2) to_float_bounds(2) [OF assms(1)] by (elim order_trans) simp
  then have "?P / to_float y \<le> (1 + ?e) * (100 * ((1 + ?e) * x)) / ((1 - ?e) * y)"
    using Y(1) assms by (intro frac_le) auto
  also have "\<dots> = (1 + ?e) ^ 2 / (1 - ?e) * ?L" by (simp add: power2_eq_square field_simps)
  finally have up: "?P / to_float y \<le> (1 + ?e) ^ 2 / (1 - ?e) * ?L" .
  have "(1 - ?e) * (100 * ((1 - ?e) * x)) \<le> ?P"
    using P(1) to_float_bounds(1) [OF assms(1)] by (elim order_trans [rotated]) simp
  then have "(1 - ?e) * (100 * ((1 - ?e) * x)) / ((1 + ?e) * y) \<le> ?P / to_float y"
    using Y(2) Y0 assms to_float_nonneg by (intro frac_le) auto
  moreover have "(1 - ?e) * (100 * ((1 - ?e) * x)) / ((1 + ?e) * y) = (1 - ?e) ^ 2 / (1 + ?e) * ?L"
    by (simp add: power2_eq_square field_simps)
  ultimately have low: "(1 - ?e) ^ 2 / (1 + ?e) * ?L \<le> ?P / to_float y" by simp
  have Q: "0 \<le> ?P / to_float y" using Y0 to_float_nonneg assms(1) by simp
  note U = to_float_bounds [OF Q]
  have "to_float (?P / to_float y) \<le> (1 + ?e) * ((1 + ?e) ^ 2 / (1 - ?e) * ?L)"
    by (rule order_trans [OF U(2) mult_left_mono [OF up]]) simp
  also have "\<dots> \<le> (1 + 8 * ?e) * ?L" using L(1) by (simp only: mult.assoc [symmetric]) (rule mult_right_mono; simp add: power2_eq_square)
  finally have 1: "to_float (?P / to_float y) \<le> (1 + 8 * ?e) * ?L" .
  have "(1 - 8 * ?e) * ?L \<le> (1 - ?e) * ((1 - ?e) ^ 2 / (1 + ?e) * ?L)"
    using L(1) by (simp only: mult.assoc [symmetric]) (rule mult_right_mono; simp add: power2_eq_square)
  also have "\<dots> \<le> to_float (?P / to_float y)" by (rule order_trans [OF mult_left_mono [OF low] U(1)]) simp
  finally have 2: "(1 - 8 * ?e) * ?L \<le> to_float (?P / to_float y)" .
  have "8 * ?e * ?L \<le> 8 * ?e * 100" using L(2) by (intro mult_left_mono) auto
  then have "8 * ?e * ?L \<le> 1 / 20000" by simp
  with 1 2 show ?thesis by (simp only: abs_le_iff distrib_right left_diff_distrib mult_1_left) linarith
qed

section \<open>The line of the kernel\<close>

definition stat_line :: "nat list \<Rightarrow> string" where
  "stat_line vs = ''cpu '' @ concat (map (\<lambda>v. CHR '' '' # c_format_nat 0 10 v) vs) @ [NEWLINE]"

lemma scan_llu_number:
  assumes "v < 2 ^ 64" and rest: "rest = [] \<or> \<not> c_isdigit (hd rest)"
  shows "scan_llu (CHR '' '' # c_format_nat 0 10 v @ rest) = Some (of_nat v, rest)"
proof -
  define w where "w = num_digits v 10 v"
  have ds: "c_format_nat 0 10 v = digits_go w 10 v" by (simp add: c_format_nat_def w_def)
  have "0 < w" unfolding w_def by (cases v) auto
  then obtain d ds' where go: "digits_go w 10 v = d # ds'" by (cases "digits_go w 10 v") (auto dest: arg_cong [of _ _ length])
  have "c_isdigit d" using digits_isdigit [of 10 d w v] go by simp
  then have d: "\<not> c_isspace d" "d \<noteq> CHR ''-''" "d \<noteq> CHR ''+''"
    by (auto simp: c_isdigit_def c_isspace_def Let_def)
  have "c_isspace (CHR '' '')" by (simp add: c_isspace_def)
  moreover have "takeWhile c_isdigit (d # ds' @ rest) = d # ds'"
    using takeWhile_digits [of 10 rest w v] rest go by simp
  moreover have "digits_value 10 (d # ds') = v" using c_format_nat_value [of 10 0 v] ds go by simp
  ultimately show ?thesis using assms(1) d by (simp add: scan_llu_def ds go Let_def)
qed

lemma scan_llus_line:
  assumes "\<forall>v \<in> set vs. v < 2 ^ 64"
  shows "scan_llus n (concat (map (\<lambda>v. CHR '' '' # c_format_nat 0 10 v) vs) @ [NEWLINE]) = map of_nat (take n vs)"
  using assms
proof (induction vs arbitrary: n)
  case Nil
  show ?case by (cases n) (simp_all add: scan_llu_def c_isspace_def)
next
  case (Cons v vs)
  let ?rest = "concat (map (\<lambda>v. CHR '' '' # c_format_nat 0 10 v) vs) @ [NEWLINE]"
  have "?rest = [] \<or> \<not> c_isdigit (hd ?rest)" by (cases vs) (auto simp: c_isdigit_def)
  with scan_llu_number [of v ?rest] Cons show ?case by (cases n) auto
qed

lemma scan_llus_space: "scan_llus n (CHR '' '' # s) = scan_llus n s"
  by (cases n) (simp_all add: scan_llu_def c_isspace_def)

lemma scan_cpu_line:
  assumes "\<forall>v \<in> set vs. v < 2 ^ 64"
  shows "scan_cpu (stat_line vs) = map of_nat (take 8 vs)"
proof -
  have "scan_cpu (stat_line vs) = scan_llus 8 (CHR '' '' # concat (map (\<lambda>v. CHR '' '' # c_format_nat 0 10 v) vs) @ [NEWLINE])"
    by (simp add: scan_cpu_def stat_line_def)
  also have "\<dots> = scan_llus 8 (concat (map (\<lambda>v. CHR '' '' # c_format_nat 0 10 v) vs) @ [NEWLINE])"
    by (rule scan_llus_space)
  finally show ?thesis using scan_llus_line [OF assms] by simp
qed

lemma c_fgets_line:
  assumes "NEWLINE \<notin> set l" and "length acc + length l < n - 1"
  shows "c_fgets_go n acc (l @ NEWLINE # rest) = (acc @ l @ [NEWLINE]) # c_fgets_go n [] rest"
  using assms by (induction l arbitrary: acc) auto

lemma digit_chars:
  assumes "c \<in> set (c_format_nat w 10 v)"
  shows "c \<noteq> NEWLINE" and "c \<noteq> NUL"
  using digits_isdigit [of 10 c _ v] assms by (auto simp: c_format_nat_def c_isdigit_def)

lemma first_line:
  assumes "length (stat_line vs) < 256"
  shows "\<exists>ls. c_fgets_all 256 (stat_line vs @ rest) = stat_line vs # ls" and "c_str (stat_line vs) = stat_line vs"
proof -
  let ?l = "''cpu '' @ concat (map (\<lambda>v. CHR '' '' # c_format_nat 0 10 v) vs)"
  have nonl: "NEWLINE \<notin> set ?l" by (auto dest: digit_chars)
  have "c_fgets_go 256 [] (?l @ NEWLINE # rest) = ([] @ ?l @ [NEWLINE]) # c_fgets_go 256 [] rest"
    using assms nonl by (intro c_fgets_line) (auto simp: stat_line_def)
  then show "\<exists>ls. c_fgets_all 256 (stat_line vs @ rest) = stat_line vs # ls"
    by (simp add: c_fgets_all_def stat_line_def)
  have "NUL \<notin> set (stat_line vs)" by (auto simp: stat_line_def dest: digit_chars)
  then show "c_str (stat_line vs) = stat_line vs" by (auto simp: c_str_def)
qed

definition exact_load :: "nat list \<Rightarrow> rat" where
  "exact_load vs = 100 * of_nat (sum_list (take 8 vs) - vs ! 3) / of_nat (sum_list (take 8 vs))"

lemma nth_le_sum_take: "i < n \<Longrightarrow> n \<le> length vs \<Longrightarrow> (vs ! i :: nat) \<le> sum_list (take n vs)"
  using member_le_sum_list [of "vs ! i" "take n vs"] by (simp add: in_set_conv_nth) (metis nth_take)

lemma sum_list_of_nat: "sum_list (map of_nat xs) = (of_nat (sum_list xs) :: 'a :: len word)"
  by (induction xs) auto

lemma cpu_load_near:
  assumes "8 \<le> length vs" and "0 < sum_list (take 8 vs)" and "sum_list (take 8 vs) < 2 ^ 64"
  shows "\<bar>cpu_load (of_nat (sum_list (take 8 vs))) (of_nat (vs ! 3)) - exact_load vs\<bar> \<le> 1 / 20000"
proof -
  let ?t = "sum_list (take 8 vs)"
  have le: "vs ! 3 \<le> ?t" using assms(1) by (intro nth_le_sum_take) auto
  then have "(of_nat ?t - of_nat (vs ! 3) :: 64 word) = of_nat (?t - vs ! 3)" by simp
  moreover have "unat (of_nat (?t - vs ! 3) :: 64 word) = ?t - vs ! 3" "unat (of_nat ?t :: 64 word) = ?t"
    using assms(3) by (auto simp: unat_of_nat take_bit_nat_eq_self_iff)
  ultimately show ?thesis
    using load_error [of "of_nat (?t - vs ! 3)" "of_nat ?t"] le assms(2) by (simp add: cpu_load_def exact_load_def)
qed



text \<open>
  A line with four to seven counters is accepted as well, and the sum then includes the
  variables that \<open>sscanf\<close> did not assign.
\<close>

lemma short_line_reads_locals:
  assumes "\<forall>v \<in> set vs. v < 2 ^ 64" and "4 \<le> length vs" and "length vs < 8" and "length (stat_line vs) < 256"
    and "s = of_nat (sum_list vs) + sum_list (map locals [length vs..<8])" and "s \<noteq> 0"
  shows "rrd_archive_check_cpu_usage (Some (stat_line vs)) locals True = (0, Some (cpu_load s (of_nat (vs ! 3))))"
  using scan_cpu_line [OF assms(1)] first_line(1) [OF assms(4), of "[]"] first_line(2) [OF assms(4)] assms(2,3,5,6)
  by (auto simp: rrd_archive_check_cpu_usage_def Let_def sum_list_of_nat nth_append)

end
