(* ===== verification/RRD_Config.thy ===== *)
theory RRD_Config
  imports RRD_World
begin

text \<open>
  The configuration loader of \<^verbatim>\<open>src/src/rrd_config.c\<close>: trimming, the property files, the
  RFC query through \<^verbatim>\<open>tr181\<close>, the DCM settings and the order in which they override
  each other. The lemmas show that a field never outgrows its buffer and that a
  configuration is accepted exactly when it names a server and an upload link.
\<close>

section \<open>Model\<close>

record rrd_config_t =
  log_server :: string
  http_upload_link :: string
  upload_protocol :: string
  rdk_path :: string
  log_path :: string
  build_type :: string
  use_rfc_config :: bool

definition config_zero :: rrd_config_t where
  "config_zero = \<lparr>log_server = [], http_upload_link = [], upload_protocol = [], rdk_path = [],
     log_path = [], build_type = [], use_rfc_config = False\<rparr>"

definition trim_space :: "char \<Rightarrow> bool" where
  "trim_space c = (c = CHR '' '' \<or> c = TAB \<or> c = NEWLINE \<or> c = CARRIAGE_RETURN)"

text \<open>The trailing loop of \<open>trim\<close>: \<open>e\<close> is the offset of \<open>end\<close> from \<open>start\<close>.\<close>

fun trim_tail :: "string \<Rightarrow> nat \<Rightarrow> string" where
  "trim_tail s 0 = take 1 s"
| "trim_tail s (Suc e) = (if trim_space (s ! Suc e) then trim_tail s e else take (Suc (Suc e)) s)"

definition trim :: "string \<Rightarrow> string" where
  "trim str = (let start = dropWhile trim_space str in trim_tail start (length start - 1))"

definition execute_command :: "'j platform \<Rightarrow> string \<Rightarrow> nat \<Rightarrow> (int \<times> string) prog" where
  "execute_command E cmd output_size =
     (if output_size = 0 then ret (-1, [])
      else bnd (ask (\<lambda>t. popen_text E t cmd)) (\<lambda>r. case r of
        None \<Rightarrow> ret (-1, [])
      | Some (text, status) \<Rightarrow>
          (let line = (case c_fgets_all output_size text of [] \<Rightarrow> [] | l # _ \<Rightarrow> c_str l);
               output = (if line \<noteq> [] \<and> last line = NEWLINE then butlast line else line)
           in ret (if status = 0 \<and> output \<noteq> [] then 0 else -1, output))))"

definition file_exists :: "'j platform \<Rightarrow> string \<Rightarrow> bool prog" where
  "file_exists E filepath = bnd (ask (\<lambda>t. file_size E t filepath)) (\<lambda>s. ret (case s of None \<Rightarrow> False | Some n \<Rightarrow> n > 0))"

text \<open>One line \<open>key=value\<close>; a line without \<open>=\<close> is skipped.\<close>

definition split_line :: "string \<Rightarrow> (string \<times> string) option" where
  "split_line line =
     (let l = c_str line in case c_strchr l (CHR ''='') of
        None \<Rightarrow> None
      | Some eq \<Rightarrow> Some (trim (take (length l - length eq) l), trim (tl eq)))"

definition prop_line :: "rrd_config_t \<Rightarrow> string \<Rightarrow> rrd_config_t" where
  "prop_line config line =
     (case split_line line of
        None \<Rightarrow> config
      | Some (key, val) \<Rightarrow>
          (if key = [] \<or> val = [] then config
           else if key = ''LOG_SERVER'' then config\<lparr>log_server := c_strncpy 255 val\<rparr>
           else if key = ''HTTP_UPLOAD_LINK'' then config\<lparr>http_upload_link := c_strncpy 511 val\<rparr>
           else if key = ''UPLOAD_PROTOCOL'' then config\<lparr>upload_protocol := c_strncpy 15 val\<rparr>
           else if key = ''RDK_PATH'' then config\<lparr>rdk_path := c_strncpy 255 val\<rparr>
           else if key = ''LOG_PATH'' then config\<lparr>log_path := c_strncpy 255 val\<rparr>
           else if key = ''BUILD_TYPE'' then config\<lparr>build_type := c_strncpy 31 val\<rparr>
           else config))"

definition rrd_config_parse_properties ::
  "'j platform \<Rightarrow> string \<Rightarrow> rrd_config_t \<Rightarrow> (int \<times> rrd_config_t) prog" where
  "rrd_config_parse_properties E filepath config =
     bnd (ask (\<lambda>t. file_text E t filepath)) (\<lambda>f. case f of
       None \<Rightarrow> ret (-2, config)
     | Some text \<Rightarrow> ret (0, foldl prop_line config (c_fgets_all 1024 text)))"

text \<open>The first RFC query, and the second one, which only runs without an upload link.\<close>

definition TR181_LOG_SERVER :: string where
  "TR181_LOG_SERVER =
     ''/usr/bin/tr181 -g Device.DeviceInfo.X_RDKCENTRAL-COM_RFC.LogUpload.LogServerUrl 2>&1''"

definition TR181_SSR_URL :: string where
  "TR181_SSR_URL =
     ''/usr/bin/tr181 -g Device.DeviceInfo.X_RDKCENTRAL-COM_RFC.LogUpload.SsrUrl 2>&1''"

definition query_value :: "'j platform \<Rightarrow> string \<Rightarrow> string option prog" where
  "query_value E cmd = bnd (execute_command E cmd 512) (\<lambda>(rc, output).
     if rc = 0 \<and> output \<noteq> []
     then (let v = trim output in ret (if v \<noteq> [] \<and> v \<noteq> ''null'' then Some v else None))
     else ret None)"

definition rrd_config_query_rfc :: "'j platform \<Rightarrow> rrd_config_t \<Rightarrow> (int \<times> rrd_config_t) prog" where
  "rrd_config_query_rfc E config =
     bnd (file_exists E ''/usr/bin/tr181'') (\<lambda>ex.
     if \<not> ex then ret (-1, config)
     else bnd (query_value E TR181_LOG_SERVER) (\<lambda>srv.
       let config1 = (case srv of None \<Rightarrow> config | Some v \<Rightarrow> config\<lparr>log_server := c_strncpy 255 v\<rparr>) in
       bnd (if http_upload_link config1 = [] then query_value E TR181_SSR_URL else ret None) (\<lambda>ssr.
       let config2 = (case ssr of None \<Rightarrow> config1
             | Some v \<Rightarrow> config1\<lparr>http_upload_link :=
                 c_strncpy 511 (fst (c_snprintf 600 (v @ ''/cgi-bin/S3.cgi'')))\<rparr>) in
       ret (if srv \<noteq> None \<or> ssr \<noteq> None then 0 else -2, config2))))"

definition strip_value_quotes :: "string \<Rightarrow> string" where
  "strip_value_quotes val =
     (if length val \<ge> 2 \<and> val ! 0 = QUOTE \<and> val ! (length val - 1) = QUOTE then tl (butlast val) else val)"

definition dcm_line :: "rrd_config_t \<Rightarrow> string \<Rightarrow> rrd_config_t" where
  "dcm_line config line =
     (case split_line line of
        None \<Rightarrow> config
      | Some (key, qval) \<Rightarrow>
          (let val = strip_value_quotes qval in
           if key = ''LogUploadSettings:UploadRepository:URL''
           then (if val \<noteq> [] then config\<lparr>http_upload_link := c_strncpy 511 val\<rparr> else config)
           else if key = ''LogUploadSettings:UploadRepository:uploadProtocol''
           then (if val \<noteq> [] then config\<lparr>upload_protocol := c_strncpy 15 val\<rparr>
                 else config\<lparr>upload_protocol := c_strncpy 15 ''HTTP''\<rparr>)
           else if key = ''LOG_SERVER'' \<and> val \<noteq> [] then config\<lparr>log_server := c_strncpy 255 val\<rparr>
           else if key = ''HTTP_UPLOAD_LINK'' \<and> val \<noteq> [] then config\<lparr>http_upload_link := c_strncpy 511 val\<rparr>
           else if key = ''UPLOAD_PROTOCOL'' \<and> val \<noteq> [] then config\<lparr>upload_protocol := c_strncpy 15 val\<rparr>
           else if key = ''RDK_PATH'' \<and> val \<noteq> [] then config\<lparr>rdk_path := c_strncpy 255 val\<rparr>
           else if key = ''LOG_PATH'' \<and> val \<noteq> [] then config\<lparr>log_path := c_strncpy 255 val\<rparr>
           else if key = ''BUILD_TYPE'' \<and> val \<noteq> [] then config\<lparr>build_type := c_strncpy 31 val\<rparr>
           else config))"

definition rrd_config_parse_dcm_settings ::
  "'j platform \<Rightarrow> string \<Rightarrow> rrd_config_t \<Rightarrow> (int \<times> rrd_config_t) prog" where
  "rrd_config_parse_dcm_settings E filepath config =
     bnd (ask (\<lambda>t. file_text E t filepath)) (\<lambda>f. case f of
       None \<Rightarrow> ret (-2, config)
     | Some text \<Rightarrow> ret (0, foldl dcm_line config (c_fgets_all 1024 text)))"

text \<open>Step 4 of the loader: the fallback file, read when a mandatory field is still empty.\<close>

definition config_fallback :: "'j platform \<Rightarrow> rrd_config_t \<Rightarrow> rrd_config_t prog" where
  "config_fallback E config =
     (if log_server config = [] \<or> http_upload_link config = []
      then bnd (if build_type config \<noteq> ''prod'' then file_exists E ''/opt/dcm.properties'' else ret False)
        (\<lambda>opt. bnd (if opt then ret (Some ''/opt/dcm.properties'')
                    else bnd (file_exists E ''/etc/dcm.properties'')
                           (\<lambda>etc. ret (if etc then Some ''/etc/dcm.properties'' else None)))
        (\<lambda>dcm_file. case dcm_file of
           None \<Rightarrow> ret config
         | Some f \<Rightarrow> bnd (rrd_config_parse_properties E f config) (\<lambda>(_, c). ret c)))
      else ret config)"

definition rrd_config_load :: "'j platform \<Rightarrow> (int \<times> rrd_config_t) prog" where
  "rrd_config_load E =
     bnd (rrd_config_parse_properties E ''/etc/include.properties''
            (config_zero\<lparr>upload_protocol := c_strncpy 15 ''HTTP''\<rparr>)) (\<lambda>(_, c1).
     bnd (rrd_config_parse_properties E RRD_DEVICE_PROP_FILE c1) (\<lambda>(_, c2).
     bnd (if build_type c2 \<noteq> ''prod'' then file_exists E ''/opt/dcm.properties'' else ret False) (\<lambda>override.
     bnd (if override then ret c2
          else bnd (rrd_config_query_rfc E c2) (\<lambda>(rfc_ok, c3).
               bnd (rrd_config_parse_dcm_settings E ''/tmp/DCMSettings.conf''
                      (if rfc_ok = 0 then c3\<lparr>use_rfc_config := True\<rparr> else c3)) (\<lambda>(_, c4). ret c4))) (\<lambda>c5.
     bnd (config_fallback E c5) (\<lambda>c6.
     ret (if log_server c6 = [] then -2 else if http_upload_link c6 = [] then -3 else 0, c6))))))"

definition rrd_config_get_value :: "rrd_config_t option \<Rightarrow> string option \<Rightarrow> string option" where
  "rrd_config_get_value config key =
     (case config of None \<Rightarrow> None | Some c \<Rightarrow> (case key of None \<Rightarrow> None | Some k \<Rightarrow>
        (if k = ''LOG_SERVER'' then Some (log_server c)
         else if k = ''HTTP_UPLOAD_LINK'' then Some (http_upload_link c)
         else if k = ''UPLOAD_PROTOCOL'' then Some (upload_protocol c)
         else if k = ''RDK_PATH'' then Some (rdk_path c)
         else if k = ''LOG_PATH'' then Some (log_path c)
         else if k = ''BUILD_TYPE'' then Some (build_type c)
         else None)))"

definition rrd_config_cleanup :: "rrd_config_t option \<Rightarrow> rrd_config_t option" where
  "rrd_config_cleanup config = map_option (\<lambda>_. config_zero) config"

section \<open>Trimming\<close>

lemma trim_tail_strip:
  "s \<noteq> [] \<Longrightarrow> e < length s \<Longrightarrow> \<not> trim_space (hd s) \<Longrightarrow>
   trim_tail s e = rev (dropWhile trim_space (rev (take (Suc e) s)))"
proof (induction e)
  case 0
  then show ?case by (cases s) auto
next
  case (Suc e)
  then show ?case by (auto simp: take_Suc_conv_app_nth [of "Suc e" s])
qed

text \<open>The pointer loops of \<open>trim\<close> strip white space at both ends.\<close>

lemma trim_strip: "trim s = rev (dropWhile trim_space (rev (dropWhile trim_space s)))"
proof (cases "dropWhile trim_space s")
  case (Cons c cs)
  then have "\<not> trim_space c" by (metis hd_dropWhile list.distinct(1) list.sel(1))
  with Cons trim_tail_strip [of "c # cs" "length cs"] show ?thesis by (simp add: trim_def)
qed (simp add: trim_def)

lemma trim_clean:
  assumes "s = [] \<or> (\<not> trim_space (hd s) \<and> \<not> trim_space (last s))"
  shows "trim s = s"
proof (cases s)
  case (Cons c cs)
  with assms have "\<not> trim_space c" "\<not> trim_space (last s)" by auto
  then have "\<not> trim_space (hd (rev s))" using hd_rev [of s] by simp
  then have "dropWhile trim_space (rev s) = rev s" using Cons by (cases "rev s") auto
  with Cons \<open>\<not> trim_space c\<close> show ?thesis by (simp add: trim_strip)
qed (simp add: trim_strip)

lemma trim_set: "set (trim s) \<subseteq> set s"
  by (auto simp: trim_strip dest!: set_dropWhileD)

section \<open>Assignments of a property file\<close>

text \<open>The values that the lines of a file give to a key.\<close>

definition assigned :: "string \<Rightarrow> string list \<Rightarrow> string list" where
  "assigned k ls = map snd (filter (\<lambda>(k', v). k' = k \<and> v \<noteq> []) (List.map_filter split_line ls))"

definition last_or :: "'a \<Rightarrow> 'a list \<Rightarrow> 'a" where
  "last_or x xs = (if xs = [] then x else last xs)"

lemma last_or_simps [simp]: "last_or x [] = x" "last_or x (xs @ [y]) = y"
  by (simp_all add: last_or_def)

lemma assigned_Nil [simp]: "assigned k [] = []"
  by (simp add: assigned_def map_filter_def)

lemma assigned_snoc:
  "assigned k (ls @ [l]) = assigned k ls @
     (case split_line l of None \<Rightarrow> [] | Some (k', v) \<Rightarrow> if k' = k \<and> v \<noteq> [] then [v] else [])"
  by (auto simp: assigned_def map_filter_def split: option.splits)

lemmas prop_simps = prop_line_def assigned_snoc c_strncpy_def

lemma props_last_wins:
  "log_server (foldl prop_line c ls) = last_or (log_server c) (map (take 255) (assigned ''LOG_SERVER'' ls))"
  "http_upload_link (foldl prop_line c ls) =
     last_or (http_upload_link c) (map (take 511) (assigned ''HTTP_UPLOAD_LINK'' ls))"
  "upload_protocol (foldl prop_line c ls) =
     last_or (upload_protocol c) (map (take 15) (assigned ''UPLOAD_PROTOCOL'' ls))"
  "rdk_path (foldl prop_line c ls) = last_or (rdk_path c) (map (take 255) (assigned ''RDK_PATH'' ls))"
  "log_path (foldl prop_line c ls) = last_or (log_path c) (map (take 255) (assigned ''LOG_PATH'' ls))"
  "build_type (foldl prop_line c ls) = last_or (build_type c) (map (take 31) (assigned ''BUILD_TYPE'' ls))"
proof -
  show "log_server (foldl prop_line c ls) = last_or (log_server c) (map (take 255) (assigned ''LOG_SERVER'' ls))"
    by (induction ls rule: rev_induct) (auto simp: prop_simps split: option.splits)
  show "http_upload_link (foldl prop_line c ls) =
     last_or (http_upload_link c) (map (take 511) (assigned ''HTTP_UPLOAD_LINK'' ls))"
    by (induction ls rule: rev_induct) (auto simp: prop_simps split: option.splits)
  show "upload_protocol (foldl prop_line c ls) =
     last_or (upload_protocol c) (map (take 15) (assigned ''UPLOAD_PROTOCOL'' ls))"
    by (induction ls rule: rev_induct) (auto simp: prop_simps split: option.splits)
  show "rdk_path (foldl prop_line c ls) = last_or (rdk_path c) (map (take 255) (assigned ''RDK_PATH'' ls))"
    by (induction ls rule: rev_induct) (auto simp: prop_simps split: option.splits)
  show "log_path (foldl prop_line c ls) = last_or (log_path c) (map (take 255) (assigned ''LOG_PATH'' ls))"
    by (induction ls rule: rev_induct) (auto simp: prop_simps split: option.splits)
  show "build_type (foldl prop_line c ls) = last_or (build_type c) (map (take 31) (assigned ''BUILD_TYPE'' ls))"
    by (induction ls rule: rev_induct) (auto simp: prop_simps split: option.splits)
qed

section \<open>Field sizes\<close>

definition config_fits :: "rrd_config_t \<Rightarrow> bool" where
  "config_fits c \<longleftrightarrow> length (log_server c) < 256 \<and> length (http_upload_link c) < 512
     \<and> length (upload_protocol c) < 16 \<and> length (rdk_path c) < 256 \<and> length (log_path c) < 256
     \<and> length (build_type c) < 32"

lemma config_fits_upd [simp]:
  "config_fits c \<Longrightarrow> config_fits (c\<lparr>log_server := c_strncpy 255 v\<rparr>)"
  "config_fits c \<Longrightarrow> config_fits (c\<lparr>http_upload_link := c_strncpy 511 v\<rparr>)"
  "config_fits c \<Longrightarrow> config_fits (c\<lparr>upload_protocol := c_strncpy 15 v\<rparr>)"
  "config_fits c \<Longrightarrow> config_fits (c\<lparr>rdk_path := c_strncpy 255 v\<rparr>)"
  "config_fits c \<Longrightarrow> config_fits (c\<lparr>log_path := c_strncpy 255 v\<rparr>)"
  "config_fits c \<Longrightarrow> config_fits (c\<lparr>build_type := c_strncpy 31 v\<rparr>)"
  "config_fits (c\<lparr>use_rfc_config := b\<rparr>) = config_fits c"
  by (auto simp: config_fits_def c_strncpy_def)

lemma config_fits_zero [simp]: "config_fits config_zero"
  by (simp add: config_fits_def config_zero_def)

lemma config_fits_line:
  "config_fits c \<Longrightarrow> config_fits (prop_line c l)"
  "config_fits c \<Longrightarrow> config_fits (dcm_line c l)"
  by (simp_all add: prop_line_def dcm_line_def Let_def split: option.splits)

lemma config_fits_props [simp]: "config_fits c \<Longrightarrow> config_fits (foldl prop_line c ls)"
  by (induction ls arbitrary: c) (simp_all add: config_fits_line)

lemma config_fits_dcm [simp]: "config_fits c \<Longrightarrow> config_fits (foldl dcm_line c ls)"
  by (induction ls arbitrary: c) (simp_all add: config_fits_line)

lemma reads_file_exists [read_rules]: "reads (file_exists E f) (\<lambda>_. True)"
  unfolding file_exists_def by (intro read_rules) simp

lemma reads_parse_properties:
  "config_fits c \<Longrightarrow> reads (rrd_config_parse_properties E f c) (\<lambda>(_, c'). config_fits c')"
  unfolding rrd_config_parse_properties_def by (intro read_rules) simp_all

lemma reads_parse_dcm:
  "config_fits c \<Longrightarrow> reads (rrd_config_parse_dcm_settings E f c) (\<lambda>(_, c'). config_fits c')"
  unfolding rrd_config_parse_dcm_settings_def by (intro read_rules) simp_all

lemma reads_query_value: "reads (query_value E cmd) (\<lambda>_. True)"
  unfolding query_value_def
  by (rule reads_bnd [where A = "\<lambda>_. True"]) (auto simp: execute_command_def Let_def intro!: read_rules)

lemma reads_query_rfc:
  assumes "config_fits c"
  shows "reads (rrd_config_query_rfc E c) (\<lambda>(_, c'). config_fits c')"
proof -
  have "reads (if b then query_value E cmd else ret None) (\<lambda>_. True)" for b cmd
    by (cases b) (auto intro: read_rules reads_query_value)
  then show ?thesis unfolding rrd_config_query_rfc_def Let_def using assms
    by (intro reads_bnd [OF reads_file_exists] reads_if reads_ret reads_bnd [OF reads_query_value]
        reads_bnd [where A = "\<lambda>_. True"]) (auto split: option.splits intro: reads_query_value reads_ret)
qed

lemma reads_fallback:
  assumes "config_fits c"
  shows "reads (config_fallback E c) config_fits"
proof -
  have parse: "reads (bnd (rrd_config_parse_properties E f c) (\<lambda>(_, c). ret c)) config_fits" for f
    by (rule reads_bnd [OF reads_parse_properties [OF assms]]) (auto intro: reads_ret)
  have choice: "reads (if b then file_exists E f else ret False) (\<lambda>_. True)" for b f
    by (cases b) (auto intro: read_rules)
  have chosen: "reads (if b then ret (Some x) else bnd (file_exists E f) (\<lambda>e. ret (g e))) (\<lambda>_. True)" for b x f g
    by (cases b) (auto intro!: read_rules reads_bnd [OF reads_file_exists])
  show ?thesis unfolding config_fallback_def using assms
    by (intro reads_if reads_bnd [OF choice] reads_bnd [OF chosen] reads_option parse reads_ret) auto
qed

text \<open>The loader asks questions only; its verdict follows from the two mandatory fields.\<close>

lemma reads_config_load:
  "reads (rrd_config_load E) (\<lambda>(rc, c). config_fits c
     \<and> rc = (if log_server c = [] then -2 else if http_upload_link c = [] then -3 else 0))"
proof -
  have choice: "reads (if b then file_exists E f else ret False) (\<lambda>_. True)" for b f
    by (cases b) (auto intro: read_rules)
  have mid: "reads (if b then ret c
      else bnd (rrd_config_query_rfc E c) (\<lambda>(rfc_ok, c3).
               bnd (rrd_config_parse_dcm_settings E f (if rfc_ok = 0 then c3\<lparr>use_rfc_config := True\<rparr> else c3))
                 (\<lambda>(_, c4). ret c4))) config_fits" if "config_fits c" for b c f
    using that by (intro reads_if reads_ret reads_bnd [OF reads_query_rfc] reads_prod
        reads_bnd [OF reads_parse_dcm]) auto
  show ?thesis unfolding rrd_config_load_def
    by (intro reads_bnd [OF reads_parse_properties] reads_prod reads_bnd [OF choice] reads_bnd [OF mid]
        reads_bnd [OF reads_fallback] reads_ret) auto
qed

section \<open>Properties\<close>


text \<open>
  A property file gives each field the value of its last nonempty assignment, cut to
  the size of the buffer, and leaves the field alone when the file has none; a file that
  cannot be opened changes nothing.
\<close>

theorem parse_properties_last_wins:
  "rrd_config_parse_properties E f c w =
     (case file_text E (tick w) f of
        None \<Rightarrow> Ret (-2, c) (w\<lparr>tick := Suc (tick w)\<rparr>)
      | Some text \<Rightarrow> (let ls = c_fgets_all 1024 text in
          Ret (0, \<lparr>log_server = last_or (log_server c) (map (take 255) (assigned ''LOG_SERVER'' ls)),
                   http_upload_link = last_or (http_upload_link c) (map (take 511) (assigned ''HTTP_UPLOAD_LINK'' ls)),
                   upload_protocol = last_or (upload_protocol c) (map (take 15) (assigned ''UPLOAD_PROTOCOL'' ls)),
                   rdk_path = last_or (rdk_path c) (map (take 255) (assigned ''RDK_PATH'' ls)),
                   log_path = last_or (log_path c) (map (take 255) (assigned ''LOG_PATH'' ls)),
                   build_type = last_or (build_type c) (map (take 31) (assigned ''BUILD_TYPE'' ls)),
                   use_rfc_config = use_rfc_config c\<rparr>) (w\<lparr>tick := Suc (tick w)\<rparr>)))"
proof -
  have "use_rfc_config (foldl prop_line c ls) = use_rfc_config c" for ls
    by (induction ls rule: rev_induct) (auto simp: prop_line_def split: option.splits)
  then show ?thesis
    by (auto simp: rrd_config_parse_properties_def run_defs Let_def props_last_wins split: option.splits
        intro!: rrd_config_t.equality)
qed

end
