(* ===== verification/RRD_Upload.thy ===== *)
theory RRD_Upload
  imports RRD_Config RRD_Tar
begin

text \<open>
  From a directory of command output to an uploaded report: \<^verbatim>\<open>rrd_sysinfo.c\<close> (MAC address
  and time stamp), \<^verbatim>\<open>rrd_logproc.c\<close> (validation of the directory, the issue name of the
  report), \<^verbatim>\<open>rrd_upload.c\<close> (the upload lock, the upload call, the cleanup) and the
  orchestration \<^verbatim>\<open>rrd_upload_orchestrate\<close> of \<^verbatim>\<open>uploadRRDLogs.c\<close>. The lemmas bound every
  name that is built and follow the events of a whole run.
\<close>

section \<open>Model\<close>

subsection \<open>rrd_sysinfo.c\<close>

text \<open>The copy loop that drops colons while room is left in the buffer.\<close>

fun mac_loop :: "string \<Rightarrow> nat \<Rightarrow> string" where
  "mac_loop [] room = []"
| "mac_loop (c # cs) room =
     (if room = 0 then [] else if c \<noteq> CHR '':'' then c # mac_loop cs (room - 1) else mac_loop cs room)"

definition rrd_sysinfo_get_mac_address :: "'j platform \<Rightarrow> nat \<Rightarrow> (int \<times> string) prog" where
  "rrd_sysinfo_get_mac_address E sz =
     (if sz < 13 then ret (-1, [])
      else bnd (ask (GetEstbMac E)) (\<lambda>copied.
        if copied = [] then ret (-1, [])
        else ret (0, mac_loop (c_strncpy 17 copied) (sz - 1))))"

definition pad_number :: "nat \<Rightarrow> nat \<Rightarrow> string" where
  "pad_number w n = c_format_nat w 10 n"

definition format_timestamp :: "tm \<Rightarrow> string" where
  "format_timestamp tm_info =
     (let ampm = (if tm_hour tm_info \<ge> 12 then ''PM'' else ''AM'');
          hour = (if tm_hour tm_info \<ge> 12
                  then (if tm_hour tm_info > 12 then tm_hour tm_info - 12 else tm_hour tm_info)
                  else if tm_hour tm_info = 0 then 12 else tm_hour tm_info)
      in pad_number 4 (tm_year tm_info + 1900) @ ''-'' @ pad_number 2 (tm_mon tm_info + 1) @ ''-''
         @ pad_number 2 (tm_mday tm_info) @ ''-'' @ pad_number 2 hour @ ''-''
         @ pad_number 2 (tm_min tm_info) @ ''-'' @ pad_number 2 (tm_sec tm_info) @ ampm)"

definition rrd_sysinfo_get_timestamp :: "'j platform \<Rightarrow> nat \<Rightarrow> (int \<times> string) prog" where
  "rrd_sysinfo_get_timestamp E sz =
     (if sz < 20 then ret (-1, [])
      else bnd (ask (localtime E)) (\<lambda>tm_info. case tm_info of
        None \<Rightarrow> ret (-1, [])
      | Some ti \<Rightarrow> ret (0, c_strncpy (sz - 1) (fst (c_snprintf 64 (format_timestamp ti))))))"

subsection \<open>rrd_logproc.c\<close>

definition real_entry :: "string \<Rightarrow> bool" where
  "real_entry d_name = (d_name \<noteq> ''.'' \<and> d_name \<noteq> ''..'')"

definition rrd_logproc_validate_source :: "'j platform \<Rightarrow> string option \<Rightarrow> int prog" where
  "rrd_logproc_validate_source E source_dir =
     (case source_dir of None \<Rightarrow> ret (-1)
      | Some d \<Rightarrow> bnd (ask (\<lambda>t. opendir_names E t d)) (\<lambda>names. case names of
          None \<Rightarrow> ret (-2)
        | Some ns \<Rightarrow> ret (if list_ex real_entry ns then 0 else -3)))"

definition rrd_logproc_prepare_logs :: "'j platform \<Rightarrow> string option \<Rightarrow> string option \<Rightarrow> int prog" where
  "rrd_logproc_prepare_logs E source_dir issue_type =
     (if source_dir = None then ret (-1)
      else if issue_type = None then ret (-1)
      else bnd (rrd_logproc_validate_source E source_dir) (\<lambda>valid. ret (if valid \<noteq> 0 then valid else 0)))"

text \<open>The conversion loop, with the output so far.\<close>

fun cit_loop :: "string \<Rightarrow> nat \<Rightarrow> string \<Rightarrow> string" where
  "cit_loop [] sz output = output"
| "cit_loop (c # cs) sz output =
     (if length output < sz - 1
      then cit_loop cs sz
        (if c_isalnum c then output @ [c_toupper c]
         else if c = CHR ''_'' \<or> c = CHR ''.'' then output @ [CHR ''_'']
         else if c = CHR ''-'' then output @ [CHR ''-'']
         else output)
      else output)"

definition rrd_logproc_convert_issue_type :: "string option \<Rightarrow> nat \<Rightarrow> int \<times> string" where
  "rrd_logproc_convert_issue_type input sz =
     (case input of None \<Rightarrow> (-1, [])
      | Some s \<Rightarrow>
          (if sz = 0 then (-1, [])
           else if length s \<ge> sz then (-1, [])
           else (0, cit_loop s sz [])))"

definition LIVE_LOGS_FILE :: string where
  "LIVE_LOGS_FILE = ''/tmp/rrd/RRD_LIVE_LOGS.tar.gz''"

definition rrd_logproc_handle_live_logs :: "'j platform \<Rightarrow> string option \<Rightarrow> int prog" where
  "rrd_logproc_handle_live_logs E source_dir =
     (case source_dir of None \<Rightarrow> ret (-1)
      | Some d \<Rightarrow> (let dest_path = fst (c_snprintf 1024 (d @ ''/RRD_LIVE_LOGS.tar.gz'')) in
          bnd (emit (EvRename LIVE_LOGS_FILE dest_path)) (\<lambda>_.
          bnd (ask (\<lambda>t. rename_rc E t LIVE_LOGS_FILE dest_path)) (\<lambda>r.
          ret (case r of Renamed \<Rightarrow> 0 | RenameNoent \<Rightarrow> 0 | RenameError \<Rightarrow> -2)))))"

subsection \<open>rrd_upload.c\<close>

definition rrd_upload_check_lock :: "'j platform \<Rightarrow> (int \<times> bool) prog" where
  "rrd_upload_check_lock E = bnd (ask (flock_upload E)) (\<lambda>a. ret (case a of
      LockOpenFails \<Rightarrow> (-1, False) | LockFree \<Rightarrow> (0, False) | LockHeld \<Rightarrow> (0, True) | LockError \<Rightarrow> (-1, False)))"

text \<open>The loop on the number of attempts left.\<close>

fun wait_loop :: "'j platform \<Rightarrow> nat \<Rightarrow> int \<Rightarrow> int prog" where
  "wait_loop E 0 wait_seconds = ret (-1)"
| "wait_loop E (Suc n) wait_seconds =
     bnd (rrd_upload_check_lock E) (\<lambda>(rc, locked).
     if rc = 0 \<and> \<not> locked then ret 0
     else bnd (emit (EvSleep (word_of_int wait_seconds))) (\<lambda>_. wait_loop E n wait_seconds))"

definition rrd_upload_wait_for_lock :: "'j platform \<Rightarrow> int \<Rightarrow> int \<Rightarrow> int prog" where
  "rrd_upload_wait_for_lock E max_attempts wait_seconds = wait_loop E (nat max_attempts) wait_seconds"

definition rrd_upload_execute ::
  "'j platform \<Rightarrow> string option \<Rightarrow> string option \<Rightarrow> string option \<Rightarrow> string option \<Rightarrow> string option \<Rightarrow> int prog" where
  "rrd_upload_execute E server protocol http_link working_dir archive_filename =
     (case (server, protocol, http_link, working_dir, archive_filename) of
        (Some srv, Some prot, Some link, Some wd, Some fname) \<Rightarrow>
          (if srv = [] then ret (-1)
           else bnd (rrd_upload_check_lock E) (\<lambda>(rc, locked).
             if rc \<noteq> 0 then ret (-1)
             else bnd (if locked then rrd_upload_wait_for_lock E 10 60 else ret 0) (\<lambda>waited.
             if waited \<noteq> 0 then ret (-2)
             else (let args = [prot, link, fst (c_snprintf 512 (wd @ fname))] in
               bnd (emit (EvUploadLogs args)) (\<lambda>_.
               bnd (ask (\<lambda>t. uploadstblogs_rc E t args)) (\<lambda>result.
               ret (if result \<noteq> 0 then -3 else 0)))))))
      | _ \<Rightarrow> ret (-1))"

definition rrd_upload_cleanup_source_dir :: "'j platform \<Rightarrow> string option \<Rightarrow> int prog" where
  "rrd_upload_cleanup_source_dir E dir_path =
     (case dir_path of None \<Rightarrow> ret (-1)
      | Some d \<Rightarrow> (let cmd = fst (c_snprintf 1024 (''rm -rf '' @ d)) in
          bnd (emit (EvSystem cmd)) (\<lambda>_. bnd (ask (\<lambda>t. system_rc E t cmd)) (\<lambda>rc. ret (if rc = 0 then 0 else -1)))))"

definition rrd_upload_cleanup_files :: "'j platform \<Rightarrow> string option \<Rightarrow> string option \<Rightarrow> int prog" where
  "rrd_upload_cleanup_files E archive_path source_dir =
     bnd (case archive_path of None \<Rightarrow> ret True
          | Some p \<Rightarrow> bnd (emit (EvRemove p)) (\<lambda>_. ask (\<lambda>t. remove_ok E t p))) (\<lambda>removed.
     bnd (case source_dir of None \<Rightarrow> ret 0 | Some d \<Rightarrow> rrd_upload_cleanup_source_dir E (Some d)) (\<lambda>_.
     ret (if removed \<or> archive_path = None then 0 else -1)))"

subsection \<open>uploadRRDLogs.c\<close>

definition RRD_LOG_DIR :: string where
  "RRD_LOG_DIR = ''/tmp/rrd/''"

text \<open>Steps 8 to 10: archive, upload, clean up.\<close>

definition send_report :: "'j platform \<Rightarrow> rrd_config_t \<Rightarrow> string \<Rightarrow> string \<Rightarrow> int prog" where
  "send_report E config upload_dir archive_filename =
     bnd (rrd_archive_create E (Some upload_dir) (Some RRD_LOG_DIR) (Some archive_filename)) (\<lambda>rc.
     if rc \<noteq> 0 then ret 10
     else bnd (rrd_upload_execute E (Some (log_server config)) (Some (upload_protocol config))
                 (Some (http_upload_link config)) (Some RRD_LOG_DIR) (Some archive_filename)) (\<lambda>up.
       bnd (rrd_archive_cleanup E (Some (fst (c_snprintf 512 (RRD_LOG_DIR @ archive_filename))))) (\<lambda>_.
       bnd (rrd_upload_cleanup_source_dir E (Some upload_dir)) (\<lambda>_.
       ret (if up \<noteq> 0 then 11 else 0)))))"

text \<open>Steps 6 and 7: the issue name, the live logs and the file name.\<close>

definition name_report ::
  "'j platform \<Rightarrow> rrd_config_t \<Rightarrow> string \<Rightarrow> string \<Rightarrow> string \<Rightarrow> string \<Rightarrow> int prog" where
  "name_report E config dir issue mac_addr timestamp =
     (case rrd_logproc_convert_issue_type (Some issue) 64 of (irc, issue_type_sanitized) \<Rightarrow>
        if irc \<noteq> 0 then ret 8 else
        bnd (if issue_type_sanitized = ''LOGUPLOAD_ENABLE''
             then rrd_logproc_handle_live_logs E (Some dir) else ret 0) (\<lambda>_.
        (case rrd_archive_generate_filename (Some mac_addr) (Some issue_type_sanitized) (Some timestamp) 256 of
           (frc, archive_filename) \<Rightarrow>
             if frc \<noteq> 0 then ret 9 else send_report E config dir archive_filename)))"

definition rrd_upload_orchestrate :: "'j platform \<Rightarrow> string option \<Rightarrow> string option \<Rightarrow> int prog" where
  "rrd_upload_orchestrate E upload_dir issue_type =
     (case (upload_dir, issue_type) of
        (Some dir, Some issue) \<Rightarrow>
          bnd (rrd_config_load E) (\<lambda>(crc, config). if crc \<noteq> 0 then ret 3 else
          bnd (rrd_sysinfo_get_mac_address E 32) (\<lambda>(mrc, mac_addr). if mrc \<noteq> 0 then ret 4 else
          bnd (rrd_sysinfo_get_timestamp E 32) (\<lambda>(trc, timestamp). if trc \<noteq> 0 then ret 5 else
          bnd (rrd_logproc_validate_source E (Some dir)) (\<lambda>vrc. if vrc \<noteq> 0 then ret 6 else
          bnd (rrd_logproc_prepare_logs E (Some dir) (Some issue)) (\<lambda>prc. if prc \<noteq> 0 then ret 7 else
          name_report E config dir issue mac_addr timestamp)))))
      | _ \<Rightarrow> ret 1)"

section \<open>Names\<close>

lemma length_mac_loop: "length (mac_loop s n) \<le> n"
  by (induction s n rule: mac_loop.induct) auto

lemma mac_loop_filter: "mac_loop s n = take n (filter (\<lambda>c. c \<noteq> CHR '':'') s)"
proof (induction s n rule: mac_loop.induct)
  case (2 c cs room)
  then show ?case by (cases room) auto
qed simp

text \<open>The characters of a report name.\<close>

definition convert_char :: "char \<Rightarrow> char option" where
  "convert_char c = (if c_isalnum c then Some (c_toupper c)
     else if c = CHR ''_'' \<or> c = CHR ''.'' then Some (CHR ''_'')
     else if c = CHR ''-'' then Some (CHR ''-'') else None)"

definition report_char :: "char \<Rightarrow> bool" where
  "report_char c \<longleftrightarrow> c_isupper c \<or> c_isdigit c \<or> c = CHR ''_'' \<or> c = CHR ''-''"

lemma cit_loop_map_filter:
  "length out + length s < sz \<Longrightarrow> cit_loop s sz out = out @ List.map_filter convert_char s"
proof (induction s sz out rule: cit_loop.induct)
  case (2 c cs sz out)
  then show ?case by (auto simp: convert_char_def)
qed simp

lemma toupper_report: "c_isalnum c \<Longrightarrow> report_char (c_toupper c)"
proof -
  assume "c_isalnum c"
  then consider "c_isdigit c" "\<not> c_islower c" | "c_isupper c" "\<not> c_islower c" | "c_islower c"
    by (auto simp: c_isalnum_def)
  then show ?thesis
  proof cases
    case 3
    then have "97 \<le> (of_char c :: nat)" "(of_char c :: nat) \<le> 122" by (auto simp: c_islower_def Let_def)
    moreover from this have "(of_char (char_of ((of_char c :: nat) - 32) :: char) :: nat) = of_char c - 32" by simp
    ultimately have "c_isupper (char_of ((of_char c :: nat) - 32))" by (auto simp: c_isupper_def Let_def)
    then show ?thesis using 3 by (simp add: c_toupper_def report_char_def)
  qed (auto simp: c_toupper_def report_char_def)
qed

lemma convert_char_report: "convert_char c = Some d \<Longrightarrow> report_char d"
  by (auto simp: convert_char_def report_char_def toupper_report split: if_splits)
    (use toupper_report report_char_def in blast)

lemma convert_char_report_id: "report_char c \<Longrightarrow> convert_char c = Some c"
  by (auto simp: report_char_def convert_char_def c_toupper_def c_class_defs)

lemma map_filter_length: "length (List.map_filter f s) \<le> length s"
  by (simp add: map_filter_def)

lemma map_filter_id: "(\<And>c. c \<in> set s \<Longrightarrow> f c = Some c) \<Longrightarrow> List.map_filter f s = s"
  by (induction s) auto

lemma convert_result:
  assumes "length s < sz"
  shows "rrd_logproc_convert_issue_type (Some s) sz = (0, List.map_filter convert_char s)"
  using assms by (simp add: rrd_logproc_convert_issue_type_def cit_loop_map_filter)

section \<open>Parts that only ask\<close>

lemma reads_mac: "reads (rrd_sysinfo_get_mac_address E 32) (\<lambda>(rc, mac). length mac \<le> 17)"
proof -
  have "length (mac_loop (take 17 s) 31) \<le> 17" for s
    using length_filter_le [of "\<lambda>c. c \<noteq> CHR '':''" "take 17 s"] by (simp add: mac_loop_filter)
  then show ?thesis unfolding rrd_sysinfo_get_mac_address_def
    by (auto simp: c_strncpy_def intro!: read_rules)
qed

lemma reads_timestamp: "reads (rrd_sysinfo_get_timestamp E 32) (\<lambda>(rc, ts). length ts \<le> 31)"
  unfolding rrd_sysinfo_get_timestamp_def by (auto simp: c_strncpy_def intro!: read_rules)

lemma reads_validate: "reads (rrd_logproc_validate_source E d) (\<lambda>_. True)"
  unfolding rrd_logproc_validate_source_def by (auto intro!: read_rules)

lemma reads_prepare: "reads (rrd_logproc_prepare_logs E d i) (\<lambda>_. True)"
  unfolding rrd_logproc_prepare_logs_def by (auto intro!: read_rules reads_bnd [OF reads_validate])

lemma reads_check_lock: "reads (rrd_upload_check_lock E) (\<lambda>_. True)"
  unfolding rrd_upload_check_lock_def by (auto intro!: read_rules)

text \<open>The file name always fits: MAC address, issue name and time stamp are bounded.\<close>

lemma filename_fits:
  assumes "length mac \<le> 17" "length issue < 64" "length ts \<le> 31"
  shows "rrd_archive_generate_filename (Some mac) (Some issue) (Some ts) 256
     = (0, mac @ ''_'' @ issue @ ''_'' @ ts @ ''_RRD_DEBUG_LOGS.tgz'')"
  using assms by (simp add: rrd_archive_generate_filename_def c_snprintf_def)

section \<open>Parts that act\<close>

definition is_sleep :: "event \<Rightarrow> bool" where
  "is_sleep ev \<longleftrightarrow> (case ev of EvSleep _ \<Rightarrow> True | _ \<Rightarrow> False)"

text \<open>Waiting: one sleep per failed attempt, never more than the attempts allowed.\<close>

lemma acts_wait_loop:
  "acts (wait_loop E n s) (\<lambda>rc es. es = replicate (length es) (EvSleep (word_of_int s))
     \<and> (if rc = 0 then length es < n else rc = -1 \<and> length es = n))"
proof (induction n)
  case (Suc n)
  show ?case unfolding wait_loop.simps
    by (intro acts_bnd_reads [OF reads_check_lock] acts_prod acts_if acts_bnd_emit acts_ret
        acts_weaken [OF Suc]) (auto split: if_splits)
qed (simp, intro act_rules, simp)

lemma wait_loop_exact:
  "\<exists>t. wait_loop E m s w =
     Ret (if length (takeWhile (\<lambda>a. a \<noteq> LockFree) (map (\<lambda>k. flock_upload E (tick w + k)) [0..<m])) < m then 0 else -1)
       (w\<lparr>tick := t, trace := trace w @ replicate (length (takeWhile (\<lambda>a. a \<noteq> LockFree)
          (map (\<lambda>k. flock_upload E (tick w + k)) [0..<m]))) (EvSleep (word_of_int s))\<rparr>)"
proof (induction m arbitrary: w)
  case 0
  show ?case by (rule exI [of _ "tick w"]) (simp add: ret_def)
next
  case (Suc m)
  have shift: "map (\<lambda>k. flock_upload E (tick w + k)) [0..<Suc m]
      = flock_upload E (tick w) # map (\<lambda>k. flock_upload E (Suc (tick w) + k)) [0..<m]"
    by (simp add: upt_conv_Cons map_Suc_upt [symmetric] del: upt_Suc)
  show ?case
  proof (cases "flock_upload E (tick w) = LockFree")
    case True
    then show ?thesis unfolding shift by (simp add: rrd_upload_check_lock_def run_defs) blast
  next
    case False
    then have "wait_loop E (Suc m) s w =
        wait_loop E m s (w\<lparr>tick := Suc (tick w), trace := trace w @ [EvSleep (word_of_int s)]\<rparr>)"
      by (cases "flock_upload E (tick w)") (simp_all add: rrd_upload_check_lock_def run_defs)
    with Suc [of "w\<lparr>tick := Suc (tick w), trace := trace w @ [EvSleep (word_of_int s)]\<rparr>"] False
    show ?thesis unfolding shift by auto
  qed
qed

definition uploads :: "event list \<Rightarrow> event list" where
  "uploads es = filter (\<lambda>ev. case ev of EvUploadLogs _ \<Rightarrow> True | _ \<Rightarrow> False) es"

definition deletes :: "event list \<Rightarrow> event list" where
  "deletes es = filter (\<lambda>ev. case ev of EvRemove _ \<Rightarrow> True | EvSystem _ \<Rightarrow> True | _ \<Rightarrow> False) es"

lemma uploads_simps [simp]:
  "uploads [] = []" "uploads (EvUploadLogs a # es) = EvUploadLogs a # uploads es"
  "uploads (EvRemove p # es) = uploads es" "uploads (EvSystem c # es) = uploads es"
  "uploads (EvSleep n # es) = uploads es" "uploads (EvWrite p b # es) = uploads es"
  "uploads (EvRename p q # es) = uploads es"
  "uploads (es @ fs) = uploads es @ uploads fs"
  "uploads (replicate k (EvSleep s)) = []"
  by (simp_all add: uploads_def)

lemma deletes_simps [simp]:
  "deletes [] = []" "deletes (EvUploadLogs a # es) = deletes es"
  "deletes (EvRemove p # es) = EvRemove p # deletes es" "deletes (EvSystem c # es) = EvSystem c # deletes es"
  "deletes (EvSleep n # es) = deletes es" "deletes (EvWrite p b # es) = deletes es"
  "deletes (EvRename p q # es) = deletes es"
  "deletes (es @ fs) = deletes es @ deletes fs"
  "deletes (replicate k (EvSleep s)) = []"
  by (simp_all add: deletes_def)

text \<open>An upload: at most one call; success means the call was made with the archive.\<close>

lemma acts_upload:
  "acts (rrd_upload_execute E srv prot link wd fname) (\<lambda>rc es. deletes es = []
     \<and> length (uploads es) \<le> 1
     \<and> (rc = 0 \<longrightarrow> uploads es = [EvUploadLogs [the prot, the link, fst (c_snprintf 512 (the wd @ the fname))]]))"
proof -
  have wait: "acts (if b then rrd_upload_wait_for_lock E 10 60 else ret 0) (\<lambda>_ es. deletes es = [] \<and> uploads es = [])" for b
    by (cases b) (auto simp: rrd_upload_wait_for_lock_def intro!: act_rules acts_weaken [OF acts_wait_loop],
      metis deletes_simps(9), metis uploads_simps(9))
  show ?thesis
  proof (cases "srv = None \<or> prot = None \<or> link = None \<or> wd = None \<or> fname = None")
    case True
    then show ?thesis by (auto simp: rrd_upload_execute_def intro!: act_rules split: option.splits)
  next
    case False
    then show ?thesis unfolding rrd_upload_execute_def
      by (auto simp: Let_def intro!: act_rules acts_bnd_reads [OF reads_check_lock] acts_bnd [OF wait])
  qed
qed

lemma acts_archive_cleanup: "acts (rrd_archive_cleanup E (Some p)) (\<lambda>_ es. es = [EvRemove p])"
  unfolding rrd_archive_cleanup_def by (auto intro!: act_rules)

lemma acts_cleanup_dir:
  "acts (rrd_upload_cleanup_source_dir E (Some d)) (\<lambda>_ es. es = [EvSystem (fst (c_snprintf 1024 (''rm -rf '' @ d)))])"
  unfolding rrd_upload_cleanup_source_dir_def Let_def option.case by (intro act_rules) simp

lemma acts_live_logs: "acts (rrd_logproc_handle_live_logs E d) (\<lambda>_ es. deletes es = [] \<and> uploads es = [])"
  unfolding rrd_logproc_handle_live_logs_def by (auto simp: Let_def intro!: act_rules)

section \<open>A whole run\<close>

text \<open>
  What the events of a run may be, by return code: nothing is uploaded or deleted before
  the archive exists; after an attempt to upload, the archive and the directory are
  deleted, in that order, whatever the outcome.
\<close>

definition run_ok :: "string \<Rightarrow> int \<Rightarrow> event list \<Rightarrow> bool" where
  "run_ok dir rc es \<longleftrightarrow>
     (if rc = 0 \<or> rc = 11
      then \<exists>archive es'. es = es' @ [EvRemove archive, EvSystem (fst (c_snprintf 1024 (''rm -rf '' @ dir)))]
             \<and> deletes es' = [] \<and> length (uploads es') \<le> 1
             \<and> (\<exists>f b. archive = RRD_LOG_DIR @ f \<and> EvWrite (RRD_LOG_DIR @ ''/'' @ f) b \<in> set es')
             \<and> (rc = 0 \<longrightarrow> (\<exists>prot link. uploads es' = [EvUploadLogs [prot, link, archive]]))
      else uploads es = [] \<and> deletes es = [])"

lemma run_ok_prefix:
  "uploads es = [] \<Longrightarrow> deletes es = [] \<Longrightarrow> run_ok dir rc fs \<Longrightarrow> run_ok dir rc (es @ fs)"
  by (fastforce simp: run_ok_def intro!: exI [where x = "es @ _"] split: if_splits)

lemma only_writes: "\<forall>ev \<in> set es. \<exists>p b. ev = EvWrite p b \<Longrightarrow> uploads es = [] \<and> deletes es = []"
  by (induction es) auto

lemma acts_send_report:
  assumes "length f < 400"
  shows "acts (send_report E config dir f) (\<lambda>rc es. rc \<in> {0, 10, 11} \<and> run_ok dir rc es)"
proof -
  have short: "fst (c_snprintf 512 (RRD_LOG_DIR @ f)) = RRD_LOG_DIR @ f"
    "fst (c_snprintf 8192 (RRD_LOG_DIR @ ''/'' @ f)) = RRD_LOG_DIR @ ''/'' @ f"
    using assms by (simp_all add: c_snprintf_def RRD_LOG_DIR_def)
  have dir: "RRD_LOG_DIR \<noteq> []" by (simp add: RRD_LOG_DIR_def)
  show ?thesis unfolding send_report_def
  proof (rule acts_bnd [OF acts_archive_create], rule acts_if)
    fix rc es
    assume A: "(\<forall>ev\<in>set es. \<exists>p b. ev = EvWrite p b) \<and>
       (rc = (0::int) \<and> RRD_LOG_DIR \<noteq> [] \<longrightarrow> (\<exists>b. es = [EvWrite (fst (c_snprintf 8192 (RRD_LOG_DIR @ ''/'' @ f))) b]))"
    show "acts (ret 10) (\<lambda>y fs. y \<in> {0, 10, 11} \<and> run_ok dir y (es @ fs))"
      using only_writes A by (intro acts_ret) (auto simp: run_ok_def)
    assume "\<not> rc \<noteq> 0"
    with A dir short obtain b where es: "es = [EvWrite (RRD_LOG_DIR @ ''/'' @ f) b]" by auto
    let ?Q = "\<lambda>up us. deletes us = [] \<and> length (uploads us) \<le> 1 \<and> (up = 0 \<longrightarrow>
      uploads us = [EvUploadLogs [upload_protocol config, http_upload_link config, RRD_LOG_DIR @ f]])"
    have step: "run_ok dir (if up \<noteq> 0 then 11 else 0)
        (es @ us @ [EvRemove (RRD_LOG_DIR @ f), EvSystem (fst (c_snprintf 1024 (''rm -rf '' @ dir)))])" if "?Q up us" for up :: int and us
      using that es unfolding run_ok_def
      by (simp, intro exI [of _ "es @ us"] conjI) (auto intro!: exI [of _ f] exI [of _ b])
    have up: "acts (rrd_upload_execute E (Some (log_server config)) (Some (upload_protocol config))
        (Some (http_upload_link config)) (Some RRD_LOG_DIR) (Some f)) ?Q"
      by (rule acts_weaken [OF acts_upload]) (simp add: short)
    have clean: "acts (bnd (rrd_archive_cleanup E (Some (RRD_LOG_DIR @ f))) (\<lambda>_.
        bnd (rrd_upload_cleanup_source_dir E (Some dir)) (\<lambda>_. ret n)))
        (\<lambda>rc fs. rc = n \<and> fs = [EvRemove (RRD_LOG_DIR @ f), EvSystem (fst (c_snprintf 1024 (''rm -rf '' @ dir)))])" for n :: int
      by (intro acts_bnd [OF acts_archive_cleanup] acts_bnd [OF acts_cleanup_dir] acts_ret) simp
    show "acts (bnd (rrd_upload_execute E (Some (log_server config)) (Some (upload_protocol config))
                 (Some (http_upload_link config)) (Some RRD_LOG_DIR) (Some f)) (\<lambda>up.
       bnd (rrd_archive_cleanup E (Some (fst (c_snprintf 512 (RRD_LOG_DIR @ f))))) (\<lambda>_.
       bnd (rrd_upload_cleanup_source_dir E (Some dir)) (\<lambda>_.
       ret (if up \<noteq> 0 then 11 else 0))))) (\<lambda>y fs. y \<in> {0, 10, 11} \<and> run_ok dir y (es @ fs))"
      unfolding short
    proof (rule acts_bnd [OF up], rule acts_weaken [OF clean])
      fix x y :: int and us fs
      assume q: "?Q x us" and "y = (if x \<noteq> 0 then 11 else 0)
        \<and> fs = [EvRemove (RRD_LOG_DIR @ f), EvSystem (fst (c_snprintf 1024 (''rm -rf '' @ dir)))]"
      then show "y \<in> {0, 10, 11} \<and> run_ok dir y (es @ us @ fs)" using step [OF q] by auto
    qed
  qed
qed

lemma convert_short:
  "rrd_logproc_convert_issue_type (Some s) 64 = (0, i) \<Longrightarrow> length i < 64"
  using map_filter_length [of convert_char s]
  by (cases "length s < 64") (auto simp: convert_result, simp add: rrd_logproc_convert_issue_type_def)

lemma acts_orchestrate:
  "acts (rrd_upload_orchestrate E (Some dir) (Some issue)) (\<lambda>rc es.
     rc \<in> (if length issue < 64 then {0, 3, 4, 5, 6, 7, 10, 11} else {3, 4, 5, 6, 7, 8}) \<and> run_ok dir rc es)"
    (is "acts _ ?Q")
proof -
  have fail: "acts (ret n) ?Q" if "n \<in> {3, 4, 5, 6, 7} \<or> n = 8 \<and> length issue \<ge> 64" for n
    using that by (intro acts_ret) (auto simp: run_ok_def)
  have live: "acts (if b then rrd_logproc_handle_live_logs E (Some dir) else ret 0)
      (\<lambda>_ es. deletes es = [] \<and> uploads es = [])" for b
    by (cases b) (auto intro!: acts_live_logs act_rules)
  have tail: "acts (name_report E config dir issue mac ts) ?Q"
    if "length mac \<le> 17" "length ts \<le> 31" for mac ts config
  proof (cases "length issue < 64")
    case True
    then obtain i where i: "rrd_logproc_convert_issue_type (Some issue) 64 = (0, i)"
      by (simp add: convert_result)
    let ?f = "mac @ ''_'' @ i @ ''_'' @ ts @ ''_RRD_DEBUG_LOGS.tgz''"
    have len: "length i < 64" by (rule convert_short [OF i])
    have send: "acts (send_report E config dir ?f) (\<lambda>rc es. rc \<in> {0, 10, 11} \<and> run_ok dir rc es)"
      using that len by (intro acts_send_report) simp
    show ?thesis unfolding name_report_def i prod.case filename_fits [OF that(1) len that(2)]
      by (intro acts_if acts_bnd [OF live] acts_weaken [OF send]) (use True in \<open>auto intro: run_ok_prefix\<close>)
  next
    case False
    then have "rrd_logproc_convert_issue_type (Some issue) 64 = (-1, [])"
      by (simp add: rrd_logproc_convert_issue_type_def)
    then show ?thesis using fail [of 8] False by (simp add: name_report_def)
  qed
  show ?thesis unfolding rrd_upload_orchestrate_def option.case prod.case
    by (intro acts_bnd_reads [OF reads_config_load] acts_bnd_reads [OF reads_mac] acts_bnd_reads [OF reads_timestamp]
        acts_bnd_reads [OF reads_validate] acts_bnd_reads [OF reads_prepare] acts_prod acts_if fail tail) auto
qed

text \<open>The upload never starts a service.\<close>

definition is_run :: "event \<Rightarrow> bool" where
  "is_run ev \<longleftrightarrow> (\<exists>u c. ev = EvSystemdRun u c)"

lemma is_run_simps [simp]:
  "is_run (EvSystemdRun u c)" "\<not> is_run (EvMkdir p)" "\<not> is_run (EvChdir p)" "\<not> is_run (EvFopen p)"
  "\<not> is_run (EvWrite p b)" "\<not> is_run (EvJournalctl u)" "\<not> is_run (EvSystemctlStop u)" "\<not> is_run (EvSleep n)"
  "\<not> is_run (EvRbusSet p v)" "\<not> is_run (EvScript p v)" "\<not> is_run (EvUploadLogs a)" "\<not> is_run (EvRemove p)"
  "\<not> is_run (EvSystem q)" "\<not> is_run (EvRename p v)"
  by (simp_all add: is_run_def)

definition quiet :: "event list \<Rightarrow> bool" where
  "quiet es \<longleftrightarrow> (\<forall>ev \<in> set es. \<not> is_run ev)"

lemma quiet_simps [simp]: "quiet []" "quiet (ev # es) \<longleftrightarrow> \<not> is_run ev \<and> quiet es"
  "quiet (es @ fs) \<longleftrightarrow> quiet es \<and> quiet fs"
  by (auto simp: quiet_def)

lemma acts_wait_quiet: "acts (wait_loop E n s) (\<lambda>_ es. quiet es)"
  by (rule acts_weaken [OF acts_wait_loop]) (metis in_set_replicate is_run_simps(8) quiet_def)

lemma acts_send_quiet: "acts (send_report E config dir f) (\<lambda>_ es. quiet es)"
proof -
  have create: "acts (rrd_archive_create E (Some dir) (Some RRD_LOG_DIR) (Some f)) (\<lambda>_ es. quiet es)"
    by (rule acts_weaken [OF acts_archive_create]) (auto simp: quiet_def)
  have wait: "acts (if b then rrd_upload_wait_for_lock E 10 60 else ret 0) (\<lambda>_ es. quiet es)" for b
    by (cases b) (auto simp: rrd_upload_wait_for_lock_def intro!: acts_wait_quiet act_rules)
  have up: "acts (rrd_upload_execute E (Some srv) (Some prot) (Some link) (Some wd) (Some f)) (\<lambda>_ es. quiet es)" for srv prot link wd
    unfolding rrd_upload_execute_def
    by (auto simp: Let_def intro!: act_rules acts_bnd_reads [OF reads_check_lock] acts_bnd [OF wait])
  show ?thesis unfolding send_report_def
    by (intro acts_bnd [OF create] acts_if acts_bnd [OF up] acts_bnd [OF acts_archive_cleanup]
        acts_bnd [OF acts_cleanup_dir] acts_ret) auto
qed

lemma acts_orchestrate_quiet:
  "acts (rrd_upload_orchestrate E (Some dir) (Some issue)) (\<lambda>_ es. quiet es)"
proof -
  have live: "acts (if b then rrd_logproc_handle_live_logs E (Some dir) else ret 0) (\<lambda>_ es. quiet es)" for b
    unfolding rrd_logproc_handle_live_logs_def by (auto simp: Let_def intro!: act_rules)
  have name: "acts (name_report E config dir issue mac ts) (\<lambda>_ es. quiet es)" for config mac ts
    unfolding name_report_def by (intro acts_prod acts_if acts_ret acts_bnd [OF live] acts_weaken [OF acts_send_quiet]) auto
  show ?thesis unfolding rrd_upload_orchestrate_def option.case prod.case
    by (intro acts_bnd_reads [OF reads_config_load] acts_bnd_reads [OF reads_mac] acts_bnd_reads [OF reads_timestamp]
        acts_bnd_reads [OF reads_validate] acts_bnd_reads [OF reads_prepare] acts_prod acts_if name acts_ret) auto
qed

section \<open>Properties\<close>


text \<open>
  The issue name of a report: a name that fits is converted to capital letters,
  digits, underscores and hyphens only, never grows, and converting it again changes
  nothing; a name that does not fit its buffer is refused.
\<close>

theorem convert_issue_type_spec:
  "(case rrd_logproc_convert_issue_type (Some s) sz of (rc, i) \<Rightarrow>
      if length s < sz
      then rc = 0 \<and> list_all report_char i \<and> length i \<le> length s
           \<and> rrd_logproc_convert_issue_type (Some i) sz = (0, i)
      else rc = -1 \<and> i = [])"
proof (cases "length s < sz")
  case True
  let ?i = "List.map_filter convert_char s"
  have rep: "\<forall>c \<in> set ?i. report_char c"
    by (auto simp: map_filter_def dest: convert_char_report)
  then have "List.map_filter convert_char ?i = ?i"
    by (intro map_filter_id) (simp add: convert_char_report_id)
  moreover have "length ?i < sz" using True map_filter_length [of convert_char s] by simp
  ultimately show ?thesis using True rep convert_result [of ?i sz] map_filter_length [of convert_char s]
    by (simp add: convert_result list_all_iff)
qed (simp add: rrd_logproc_convert_issue_type_def)


end
