(* ===== verification/RRD_Sanity.thy ===== *)
theory RRD_Sanity
  imports RRD_Types
begin

text \<open>
  The command filter of \<^verbatim>\<open>src/src/rrdCommandSanity.c\<close> and the unquoting of
  \<^verbatim>\<open>removeQuotes\<close> in \<^verbatim>\<open>src/src/rrdRunCmdThread.c\<close>: rewriting of background
  commands, replacement of the output-directory macro, the check of a command against
  the list of forbidden strings. The loops keep the pointer and index arithmetic of the
  source; the lemmas relate them to reference functions on strings.
\<close>

section \<open>Model\<close>

subsection \<open>updateBackgroundCmd\<close>

function ubc_loop :: "string \<Rightarrow> nat \<Rightarrow> string" where
  "ubc_loop str i =
     (if i < length str
      then ubc_loop (if c_at str i = CHR ''&'' \<and> c_at str (i + 1) = CHR '';''
                     then str[i + 1 := CHR '' ''] else str) (i + 1)
      else str)"
  by pat_completeness auto
termination
  by (relation "measure (\<lambda>(str, i). length str - i)") auto

declare ubc_loop.simps [simp del]

definition updateBackgroundCmd :: "string option \<Rightarrow> int \<times> string option" where
  "updateBackgroundCmd str =
     (case str of None \<Rightarrow> (1, None) | Some s \<Rightarrow> (0, Some (ubc_loop s 0)))"

subsection \<open>replaceRRDLocation\<close>

lemma strstr_behind_match [termination_simp]:
  "c_strstr iter DEFAULT_DIR = Some m \<Longrightarrow> length m - length DEFAULT_DIR < length iter"
  using c_strstr_length [of iter DEFAULT_DIR m] c_strstr_needle_length [of iter DEFAULT_DIR m]
  by (auto simp: DEFAULT_DIR_def)

text \<open>The first loop counts the matches, the second one copies.\<close>

fun rrl_count :: "string \<Rightarrow> nat" where
  "rrl_count iterptr =
     (case c_strstr iterptr DEFAULT_DIR of
        None \<Rightarrow> 0
      | Some matchptr \<Rightarrow> Suc (rrl_count (drop (length DEFAULT_DIR) matchptr)))"

fun rrl_copy :: "string \<Rightarrow> string \<Rightarrow> string" where
  "rrl_copy dirLocation iterptr =
     (case c_strstr iterptr DEFAULT_DIR of
        None \<Rightarrow> iterptr
      | Some matchptr \<Rightarrow>
          take (length iterptr - length matchptr) iterptr @ dirLocation
          @ rrl_copy dirLocation (drop (length DEFAULT_DIR) matchptr))"

declare rrl_count.simps [simp del] and rrl_copy.simps [simp del]

text \<open>
  \<open>datalen\<close> is computed in \<open>size_t\<close>, with the difference of the lengths wrapping
  around when the directory is shorter than the macro. \<open>mem\<close> says whether \<open>malloc\<close>
  succeeds; copying more than \<open>datalen\<close> bytes would overflow the allocation.
\<close>

definition rrl_datalen :: "string \<Rightarrow> string \<Rightarrow> 64 word" where
  "rrl_datalen commandStr dirLocation =
     of_nat (length commandStr)
     + of_nat (rrl_count commandStr) * (of_nat (length dirLocation) - of_nat (length DEFAULT_DIR))"

definition replaceRRDLocation :: "bool \<Rightarrow> string \<Rightarrow> string \<Rightarrow> fault + string option" where
  "replaceRRDLocation mem commandStr dirLocation =
     (if mem then
        (let data = rrl_copy dirLocation commandStr
         in if length data > unat (rrl_datalen commandStr dirLocation)
            then Inl BufferOverflow else Inr (Some data))
      else Inr None)"

subsection \<open>isCommandsValid\<close>

text \<open>The trailing-space loop, on the number of characters left.\<close>

fun trim_end :: "string \<Rightarrow> nat \<Rightarrow> string" where
  "trim_end s 0 = []"
| "trim_end s (Suc j) = (if c_isspace (s ! j) then trim_end s j else take (Suc j) s)"

definition sanity_entry :: "string \<Rightarrow> string" where
  "sanity_entry checkcmd =
     (let s = (if length checkcmd \<ge> 2 \<and> checkcmd ! 0 = QUOTE \<and> checkcmd ! (length checkcmd - 1) = QUOTE
               then tl (butlast checkcmd) else checkcmd)
      in trim_end s (length s))"

fun icv_loop :: "'j cjson_api \<Rightarrow> 'j option \<Rightarrow> string \<Rightarrow> nat \<Rightarrow> nat \<Rightarrow> fault + bool" where
  "icv_loop J sanitylist issuecmd i 0 = Inr False"
| "icv_loop J sanitylist issuecmd i (Suc n) =
     (case cJSON_Print J (cJSON_GetArrayItem J sanitylist i) of
        None \<Rightarrow> Inl NullDeref
      | Some checkcmd \<Rightarrow>
          (if c_strstr issuecmd (sanity_entry checkcmd) \<noteq> None then Inr True
           else icv_loop J sanitylist issuecmd (Suc i) n))"

text \<open>The return code and the command, which the background rewriting updates in place.\<close>

definition isCommandsValid :: "'j cjson_api \<Rightarrow> string \<Rightarrow> 'j option \<Rightarrow> fault + (int \<times> string)" where
  "isCommandsValid J issuecmd sanitylist =
     (case icv_loop J sanitylist issuecmd 0 (cJSON_GetArraySize J sanitylist) of
        Inl e \<Rightarrow> Inl e
      | Inr True \<Rightarrow> Inr (1, issuecmd)
      | Inr False \<Rightarrow>
          (if c_strstr issuecmd ''&'' \<noteq> None
           then (case updateBackgroundCmd (Some issuecmd) of
                   (result, upd) \<Rightarrow>
                     (if result \<noteq> 0 then Inr (1, issuecmd)
                      else Inr (0, case upd of None \<Rightarrow> issuecmd | Some s \<Rightarrow> s)))
           else Inr (0, issuecmd)))"

subsection \<open>removeQuotes\<close>

definition ESCAPED_QUOTE :: string where
  "ESCAPED_QUOTE = [BACKSLASH, QUOTE]"

lemma strstr_tl_match [termination_simp]:
  "c_strstr s ESCAPED_QUOTE = Some m \<Longrightarrow> length m - Suc 0 < length s"
  using c_strstr_length [of s ESCAPED_QUOTE m] c_strstr_needle_length [of s ESCAPED_QUOTE m]
  by (auto simp: ESCAPED_QUOTE_def)

text \<open>
  Each round moves the text behind the backslash one place to the left; the search goes
  on at the quote that took the place of the backslash.
\<close>

fun rq_loop :: "string \<Rightarrow> string \<Rightarrow> string" where
  "rq_loop done escaped =
     (case c_strstr escaped ESCAPED_QUOTE of
        None \<Rightarrow> done @ escaped
      | Some m \<Rightarrow> rq_loop (done @ take (length escaped - length m) escaped) (tl m))"

declare rq_loop.simps [simp del]

definition removeQuotes :: "string \<Rightarrow> string" where
  "removeQuotes str =
     (let len = length str;
          s = (if len \<ge> 2 \<and> str ! 0 = QUOTE \<and> str ! (len - 1) = QUOTE
               then take (len - 2) (drop 1 str) else str)
      in rq_loop [] s)"

section \<open>Background rewriting\<close>

text \<open>Character by character: a semicolon behind an ampersand becomes a space.\<close>

definition bg_char :: "string \<Rightarrow> nat \<Rightarrow> char" where
  "bg_char s k = (if 0 < k \<and> s ! (k - 1) = CHR ''&'' \<and> s ! k = CHR '';'' then CHR '' '' else s ! k)"

lemma length_ubc_loop [simp]: "length (ubc_loop s i) = length s"
proof (induction s i rule: ubc_loop.induct)
  case (1 s i)
  then show ?case by (subst ubc_loop.simps) auto
qed

lemma ubc_loop_nth:
  "k < length s \<Longrightarrow>
   ubc_loop s i ! k = (if i < k \<and> s ! (k - 1) = CHR ''&'' \<and> s ! k = CHR '';'' then CHR '' '' else s ! k)"
proof (induction s i rule: ubc_loop.induct)
  case (1 s i)
  let ?s' = "if c_at s i = CHR ''&'' \<and> c_at s (i + 1) = CHR '';'' then s[i + 1 := CHR '' ''] else s"
  show ?case
  proof (cases "i < length s")
    case True
    have IH: "ubc_loop ?s' (i + 1) ! k =
        (if i + 1 < k \<and> ?s' ! (k - 1) = CHR ''&'' \<and> ?s' ! k = CHR '';'' then CHR '' '' else ?s' ! k)"
      using "1.IH" [OF True] "1.prems" by simp
    have eq: "ubc_loop s i = ubc_loop ?s' (i + 1)" using True by (subst ubc_loop.simps) simp
    have main: "ubc_loop ?s' (i + 1) ! k = (if i < k \<and> s ! (k - 1) = CHR ''&'' \<and> s ! k = CHR '';'' then CHR '' '' else s ! k)"
    proof (cases "k = i + 1")
      case True
      with IH "1.prems" \<open>i < length s\<close> show ?thesis by (auto simp: c_at_def nth_list_update)
    next
      case False
      then have "?s' ! k = s ! k" "i + 1 < k \<longrightarrow> ?s' ! (k - 1) = s ! (k - 1) \<or> k - 1 = i + 1" by auto
      with IH False "1.prems" show ?thesis
        by (auto simp: nth_list_update c_at_def)
    qed
    show ?thesis by (simp only: eq main)
  next
    case False
    with "1.prems" show ?thesis by (subst ubc_loop.simps) simp
  qed
qed

lemma ubc_nth: "k < length s \<Longrightarrow> ubc_loop s 0 ! k = bg_char s k"
  by (simp add: ubc_loop_nth bg_char_def)

lemma ubc_loop_map: "ubc_loop s 0 = map (bg_char s) [0..<length s]"
  by (rule nth_equalityI) (simp_all add: ubc_nth)

lemma ubc_no_separator: "\<not> sublist ''&;'' (ubc_loop s 0)"
proof
  assume "sublist ''&;'' (ubc_loop s 0)"
  then obtain k where "k + 2 \<le> length s"
    and k: "\<forall>j < 2. ubc_loop s 0 ! (k + j) = ''&;'' ! j"
    by (auto simp: sublist_nth_conv)
  then have "bg_char s k = CHR ''&''" "bg_char s (Suc k) = CHR '';''"
    using k [THEN spec, of 0] k [THEN spec, of 1] by (simp_all add: ubc_nth)
  then show False by (auto simp: bg_char_def split: if_splits)
qed

text \<open>
  The rewriting can only create occurrences of strings that hold an ampersand followed
  by a space or that start with a space.
\<close>

lemma ubc_sublist:
  assumes "sublist p (ubc_loop s 0)" and "\<not> sublist ''& '' p" and "p = [] \<or> hd p \<noteq> CHR '' ''"
  shows "sublist p s"
proof -
  from assms(1) obtain k where k: "k + length p \<le> length s"
    and eq: "\<forall>j < length p. ubc_loop s 0 ! (k + j) = p ! j"
    by (auto simp: sublist_nth_conv)
  have "s ! (k + j) = p ! j" if j: "j < length p" for j
  proof (rule ccontr)
    assume "s ! (k + j) \<noteq> p ! j"
    with eq j k have bg: "p ! j = CHR '' ''" "0 < k + j" "s ! (k + j - 1) = CHR ''&''"
      by (auto simp: ubc_nth bg_char_def split: if_splits)
    show False
    proof (cases j)
      case 0
      with bg assms(3) j show False by (cases p) auto
    next
      case (Suc i)
      with eq j k have "p ! i = bg_char s (k + i)" by (simp add: ubc_nth)
      with bg Suc have "p ! i = CHR ''&''" by (auto simp: bg_char_def)
      with bg Suc j have "\<exists>k. k + 2 \<le> length p \<and> (\<forall>j < 2. p ! (k + j) = ''& '' ! j)"
        by (intro exI [of _ i]) (auto simp: less_2_cases_iff)
      then have "sublist ''& '' p" by (simp add: sublist_nth_conv numeral_2_eq_2)
      with assms(2) show False by simp
    qed
  qed
  with k show ?thesis by (auto simp: sublist_nth_conv)
qed

section \<open>Replacing the output-directory macro\<close>

text \<open>Reference: leftmost non-overlapping replacement in one pass over the string.\<close>

function replace_all :: "string \<Rightarrow> string \<Rightarrow> string" where
  "replace_all dir s =
     (case s of [] \<Rightarrow> []
      | c # cs \<Rightarrow> if prefix DEFAULT_DIR s then dir @ replace_all dir (drop (length DEFAULT_DIR) s)
                   else c # replace_all dir cs)"
  by pat_completeness auto
termination
  by (relation "measure (\<lambda>(d, s). length s)") (auto simp: DEFAULT_DIR_def)

declare replace_all.simps [simp del]

lemma replace_all_strstr:
  "replace_all dir s =
     (case c_strstr s DEFAULT_DIR of None \<Rightarrow> s
      | Some m \<Rightarrow> take (length s - length m) s @ dir @ replace_all dir (drop (length DEFAULT_DIR) m))"
proof (induction s)
  case Nil
  show ?case by (simp add: replace_all.simps DEFAULT_DIR_def)
next
  case (Cons c cs)
  show ?case
  proof (cases "prefix DEFAULT_DIR (c # cs)")
    case True
    then show ?thesis by (subst replace_all.simps) simp
  next
    case False
    then have step: "replace_all dir (c # cs) = c # replace_all dir cs"
      by (subst replace_all.simps) simp
    show ?thesis
    proof (cases "c_strstr cs DEFAULT_DIR")
      case None
      with False step Cons.IH show ?thesis by simp
    next
      case (Some m)
      with False step Cons.IH c_strstr_length [OF Some] show ?thesis by (simp add: Suc_diff_le)
    qed
  qed
qed

lemma rrl_copy_replace_all: "rrl_copy dir s = replace_all dir s"
proof (induction dir s rule: rrl_copy.induct)
  case (1 dir s)
  then show ?case
    by (subst rrl_copy.simps, subst replace_all_strstr) (simp split: option.split)
qed

lemma length_rrl_copy:
  "length (rrl_copy dir s) + rrl_count s * length DEFAULT_DIR = length s + rrl_count s * length dir"
proof (induction dir s rule: rrl_copy.induct)
  case (1 dir s)
  show ?case
  proof (cases "c_strstr s DEFAULT_DIR")
    case None
    then show ?thesis by (simp add: rrl_copy.simps [of dir s] rrl_count.simps [of s])
  next
    case (Some m)
    let ?r = "drop (length DEFAULT_DIR) m"
    have "length m \<le> length s" "length DEFAULT_DIR \<le> length m"
      using c_strstr_length [OF Some] c_strstr_needle_length [OF Some] .
    then show ?thesis
      using "1.IH" [OF Some] Some
      by (simp add: rrl_copy.simps [of dir s] rrl_count.simps [of s])
  qed
qed

lemma rrl_count_le: "rrl_count s * length DEFAULT_DIR \<le> length s"
proof (induction s rule: rrl_count.induct)
  case (1 s)
  show ?case
  proof (cases "c_strstr s DEFAULT_DIR")
    case None
    then show ?thesis by (simp add: rrl_count.simps [of s])
  next
    case (Some m)
    have "length m \<le> length s" "length DEFAULT_DIR \<le> length m"
      using c_strstr_length [OF Some] c_strstr_needle_length [OF Some] .
    then show ?thesis
      using "1.IH" [OF Some] Some by (simp add: rrl_count.simps [of s])
  qed
qed

text \<open>The wrapping size computation yields the exact length, whichever string is longer.\<close>

lemma rrl_datalen_exact:
  assumes "length (rrl_copy dir s) < 2 ^ 64"
  shows "unat (rrl_datalen s dir) = length (rrl_copy dir s)"
proof -
  let ?D = "length DEFAULT_DIR"
  have "of_nat (length (rrl_copy dir s)) + of_nat (rrl_count s * ?D)
      = (of_nat (length s + rrl_count s * length dir) :: 64 word)"
    using length_rrl_copy [of dir s] by (metis of_nat_add)
  then have "rrl_datalen s dir = of_nat (length (rrl_copy dir s))"
    by (simp add: rrl_datalen_def algebra_simps)
  then show ?thesis using assms by (simp add: unat_of_nat)
qed

section \<open>The forbidden strings\<close>

definition sanity_list :: "'j cjson_api \<Rightarrow> 'j option \<Rightarrow> string list" where
  "sanity_list J l =
     map (\<lambda>i. case cJSON_Print J (cJSON_GetArrayItem J l i) of None \<Rightarrow> [] | Some p \<Rightarrow> sanity_entry p)
       [0..<cJSON_GetArraySize J l]"

lemma trim_end_rev: "n \<le> length s \<Longrightarrow> trim_end s n = rev (dropWhile c_isspace (rev (take n s)))"
  by (induction n) (auto simp: take_Suc_conv_app_nth)

lemma sanity_entry_quoted: "sanity_entry (QUOTE # t @ [QUOTE]) = rev (dropWhile c_isspace (rev t))"
  by (simp add: sanity_entry_def trim_end_rev nth_append butlast_append)

lemma icv_loop_laws:
  assumes "cjson_laws J" and "i + n \<le> cJSON_GetArraySize J l"
  shows "icv_loop J l cmd i n =
    Inr (\<exists>k \<in> {i..<i + n}. sublist (sanity_list J l ! k) cmd)"
  using assms(2)
proof (induction n arbitrary: i)
  case 0
  then show ?case by simp
next
  case (Suc n)
  then obtain p where p: "cJSON_Print J (cJSON_GetArrayItem J l i) = Some p"
    using cjson_laws.print_exists [OF assms(1), of i l] by auto
  then have e: "sanity_list J l ! i = sanity_entry p"
    using Suc.prems by (simp add: sanity_list_def)
  have "{i..<i + Suc n} = insert i {Suc i..<Suc i + n}" by auto
  then show ?case
    using Suc.IH [of "Suc i"] Suc.prems p e c_strstr_sublist [of cmd "sanity_entry p"] by auto
qed

lemma icv_loop_spec:
  assumes "cjson_laws J"
  shows "icv_loop J l cmd 0 (cJSON_GetArraySize J l) = Inr (\<exists>p \<in> set (sanity_list J l). sublist p cmd)"
proof -
  have "length (sanity_list J l) = cJSON_GetArraySize J l" by (simp add: sanity_list_def)
  then have "(\<exists>k \<in> {0..<0 + cJSON_GetArraySize J l}. sublist (sanity_list J l ! k) cmd)
      = (\<exists>p \<in> set (sanity_list J l). sublist p cmd)"
    by (force simp: set_conv_nth)
  then show ?thesis
    using icv_loop_laws [OF assms, of 0 "cJSON_GetArraySize J l" l cmd] by simp
qed

lemma ubc_loop_id: "CHR ''&'' \<notin> set s \<Longrightarrow> ubc_loop s 0 = s"
proof (rule nth_equalityI)
  fix k
  assume a: "CHR ''&'' \<notin> set s" and k: "k < length (ubc_loop s 0)"
  then have "0 < k \<longrightarrow> s ! (k - 1) \<noteq> CHR ''&''" by (auto simp: in_set_conv_nth)
  with k show "ubc_loop s 0 ! k = s ! k" by (auto simp: ubc_nth bg_char_def)
qed simp

lemma isCommandsValid_laws:
  assumes "cjson_laws J"
  shows "isCommandsValid J cmd l =
    (if \<exists>p \<in> set (sanity_list J l). sublist p cmd then Inr (1, cmd) else Inr (0, ubc_loop cmd 0))"
  using icv_loop_spec [OF assms, of l cmd] c_strstr_None [of cmd "''&''"]
  by (auto simp: isCommandsValid_def updateBackgroundCmd_def ubc_loop_id split: bool.split)

section \<open>Unquoting\<close>

fun unescape_quotes :: "string \<Rightarrow> string" where
  "unescape_quotes [] = []"
| "unescape_quotes [c] = [c]"
| "unescape_quotes (c # d # cs) =
     (if c = BACKSLASH \<and> d = QUOTE then QUOTE # unescape_quotes cs
      else c # unescape_quotes (d # cs))"

lemma unescape_quotes_QUOTE: "unescape_quotes (QUOTE # s) = QUOTE # unescape_quotes s"
  by (cases s) auto

lemma unescape_quotes_strstr:
  "unescape_quotes s =
     (case c_strstr s ESCAPED_QUOTE of None \<Rightarrow> s
      | Some m \<Rightarrow> take (length s - length m) s @ unescape_quotes (tl m))"
proof (induction s rule: unescape_quotes.induct)
  case (3 c d cs)
  show ?case
  proof (cases "c = BACKSLASH \<and> d = QUOTE")
    case True
    then show ?thesis by (simp add: ESCAPED_QUOTE_def unescape_quotes_QUOTE)
  next
    case False
    then have np: "\<not> prefix ESCAPED_QUOTE (c # d # cs)" by (auto simp: ESCAPED_QUOTE_def)
    show ?thesis
    proof (cases "c_strstr (d # cs) ESCAPED_QUOTE")
      case None
      with False np "3.IH"(2) show ?thesis by (simp del: c_strstr.simps(2) add: c_strstr.simps(2) [of c])
    next
      case (Some m)
      with False np "3.IH"(2) c_strstr_length [OF Some] show ?thesis
        by (simp del: c_strstr.simps(2) add: c_strstr.simps(2) [of c] Suc_diff_le)
    qed
  qed
qed (simp_all add: ESCAPED_QUOTE_def)

lemma rq_loop_unescape: "rq_loop done s = done @ unescape_quotes s"
proof (induction "done" s rule: rq_loop.induct)
  case (1 "done" s)
  then show ?case
    by (subst rq_loop.simps, subst unescape_quotes_strstr) (simp split: option.split)
qed

lemma unescape_escape:
  assumes "set s \<inter> {BACKSLASH, NEWLINE, CARRIAGE_RETURN, TAB} = {}"
  shows "unescape_quotes (concat (map json_escape s)) = s"
  using assms
proof (induction s)
  case (Cons c s)
  then have IH: "unescape_quotes (concat (map json_escape s)) = s" by simp
  show ?case
  proof (cases "c = QUOTE")
    case True
    then have "json_escape c = [BACKSLASH, QUOTE]" by (simp add: json_escape_def)
    with IH True show ?thesis by simp
  next
    case False
    with Cons.prems have "json_escape c = [c]" "c \<noteq> BACKSLASH" by (auto simp: json_escape_def)
    with IH show ?thesis by (cases "concat (map json_escape s)") auto
  qed
qed simp

lemma removeQuotes_quoted: "removeQuotes (QUOTE # t @ [QUOTE]) = unescape_quotes t"
  by (simp add: removeQuotes_def rq_loop_unescape nth_append)

section \<open>Properties\<close>

text \<open>
  C13: The command filter, for any list of forbidden strings and any JSON library with
  the documented behaviour: it never faults; it returns 1 and leaves the command alone
  exactly when some normalised list entry occurs in the command; otherwise it returns 0
  and the command is rewritten for background execution.
\<close>

theorem isCommandsValid_filters:
  assumes "cjson_laws J"
  shows "isCommandsValid J cmd l =
    (if \<exists>p \<in> set (sanity_list J l). sublist p cmd then Inr (1, cmd)
     else Inr (0, map (bg_char cmd) [0..<length cmd]))"
  by (simp add: isCommandsValid_laws [OF assms] ubc_loop_map)

theorem isCommandsValid_filters_witness:
  "isCommandsValid (doc_api (\<lambda>_. None)) ''\"tar cf x /opt; rm -rf /opt\"''
     (Some (None, JArr [JStr ''rm -rf'', JStr ''kill''])) = Inr (1, ''\"tar cf x /opt; rm -rf /opt\"'')"
proof -
  let ?l = "Some (None, JArr [JStr ''rm -rf'', JStr ''kill'']) :: jnode option"
  have "''rm -rf'' \<in> set (sanity_list (doc_api (\<lambda>_. None)) ?l)"
    by (simp add: sanity_list_def json_quote_def json_escape_def sanity_entry_def c_class_defs upt_rec)
  moreover have "sublist ''rm -rf'' ''\"tar cf x /opt; rm -rf /opt\"''" by code_simp
  ultimately show ?thesis
    using isCommandsValid_filters [OF doc.cjson_laws_axioms, of "\<lambda>_. None" _ ?l] by auto
qed



text \<open>
  The two conditions are needed: the rewriting runs after the check and can produce a
  forbidden string that the check did not see.
\<close>

lemma background_rewrite_bypasses_filter:
  "isCommandsValid (doc_api (\<lambda>_. None)) ''\"ls &;reboot\"'' (Some (None, JArr [JStr ''& reboot'']))
     = Inr (0, ''\"ls & reboot\"'')
   \<and> ''& reboot'' \<in> set (sanity_list (doc_api (\<lambda>_. None)) (Some (None, JArr [JStr ''& reboot''])))
   \<and> sublist ''& reboot'' ''\"ls & reboot\"''"
  by (intro conjI, code_simp,
      simp add: sanity_list_def json_quote_def json_escape_def sanity_entry_def c_class_defs, code_simp)

text \<open>
  Rewriting a background command keeps its length, changes a character only where a
  semicolon directly follows an ampersand (to a space), and leaves no ampersand followed
  by a semicolon.
\<close>

theorem updateBackgroundCmd_spec:
  "\<exists>t. updateBackgroundCmd (Some s) = (0, Some t)
     \<and> t = map (bg_char s) [0..<length s] \<and> \<not> sublist ''&;'' t"
  using ubc_no_separator [of s] by (simp add: updateBackgroundCmd_def ubc_loop_map)

text \<open>
  C15: Replacing the output-directory macro: when memory is available and the new command
  fits the address space, the result is the leftmost non-overlapping replacement of every
  macro, and the buffer that the wrapping size computation allocates is exactly filled.
\<close>

theorem replaceRRDLocation_correct:
  assumes "length cmd + rrl_count cmd * length dir < 2 ^ 64"
  shows "replaceRRDLocation True cmd dir = Inr (Some (replace_all dir cmd))
    \<and> unat (rrl_datalen cmd dir) = length (replace_all dir cmd)"
proof -
  have "length (rrl_copy dir cmd) < 2 ^ 64"
    using length_rrl_copy [of dir cmd] assms by linarith
  then show ?thesis
    by (simp add: replaceRRDLocation_def rrl_datalen_exact rrl_copy_replace_all [symmetric])
qed

theorem replaceRRDLocation_correct_witness:
  "replaceRRDLocation True ''tar RRD_LOCATION/a RRD_LOCATION/b'' ''/d''
     = Inr (Some (replace_all ''/d'' ''tar RRD_LOCATION/a RRD_LOCATION/b''))
   \<and> replace_all ''/d'' ''tar RRD_LOCATION/a RRD_LOCATION/b'' = ''tar /d/a /d/b''"
proof -
  have "length ''tar RRD_LOCATION/a RRD_LOCATION/b''
      + rrl_count ''tar RRD_LOCATION/a RRD_LOCATION/b'' * length ''/d'' < 2 ^ 64"
    using rrl_count_le [of "''tar RRD_LOCATION/a RRD_LOCATION/b''"] by (simp add: DEFAULT_DIR_def)
  from replaceRRDLocation_correct [OF this]
  show ?thesis by (intro conjI, simp, code_simp)
qed



end
