(* ===== verification/RRD_Exec.thy ===== *)
theory RRD_Exec
  imports RRD_Upload RRD_Sanity
begin

text \<open>
  Running the commands of an issue: \<^verbatim>\<open>executeCommands\<close> and \<^verbatim>\<open>copyDebugLogDestFile\<close> of
  \<^verbatim>\<open>src/src/rrdRunCmdThread.c\<close> and \<^verbatim>\<open>uploadDebugoutput\<close> of \<^verbatim>\<open>rrdExecuteScript.c\<close>. The
  fixed-size buffers are explicit: text that does not fit is a fault or is cut, as the
  calls in the source do. Starting a service, reading the journal, sleeping and stopping
  the service are events.
\<close>

section \<open>Model\<close>

text \<open>
  \<open>len = snprintf(buf, 256, prefix); strftime(buf + len, sizeof(buf) - len, ...)\<close>: a
  prefix of more than 256 bytes makes the size wrap around, so that \<open>strftime\<close> writes
  behind the buffer; a stamp that does not fit leaves the buffer indeterminate.
\<close>

definition stamped_name :: "string \<Rightarrow> string \<Rightarrow> fault + string" where
  "stamped_name pfx stamp =
     (let len = snd (c_snprintf BUF_LEN_256 pfx) in
      if len > BUF_LEN_256 then Inl BufferOverflow
      else if BUF_LEN_256 - len \<le> length stamp then Inl UninitRead
      else Inr (pfx @ stamp))"

text \<open>The name of the output file; the last \<open>strncat\<close> is not bounded by the buffer.\<close>

definition out_file_name :: "string \<Rightarrow> fault + string" where
  "out_file_name dirname =
     (let s = dirname @ take (BUF_LEN_256 - length dirname - 1) ''/'' in
      if length s + length RRD_OUTPUT_FILE + 1 > BUF_LEN_256 then Inl BufferOverflow
      else Inr (s @ RRD_OUTPUT_FILE))"

function copy_log :: "string \<Rightarrow> string \<Rightarrow> unit prog" where
  "copy_log dest s =
     (if s = [] then ret () else bnd (emit (EvWrite dest (take 1024 s))) (\<lambda>_. copy_log dest (drop 1024 s)))"
  by pat_completeness auto
termination
  by (relation "measure (\<lambda>(dest, s). length s)") auto

declare copy_log.simps [simp del]

definition copyDebugLogDestFile :: "string option \<Rightarrow> string option \<Rightarrow> unit prog" where
  "copyDebugLogDestFile source destination =
     (case source of None \<Rightarrow> ret ()
      | Some s \<Rightarrow> (case destination of None \<Rightarrow> ret () | Some d \<Rightarrow> copy_log d s))"

text \<open>The macro replacement; NULL when an allocation fails.\<close>

definition relocate :: "'j platform \<Rightarrow> string \<Rightarrow> string \<Rightarrow> string option prog" where
  "relocate E cmd dirname =
     (if c_strstr cmd DEFAULT_DIR \<noteq> None
      then bnd (ask (getcwd_text E)) (\<lambda>cwd.
           let pathname = (if length cwd < BUF_LEN_256 then cwd else []) in
           bnd (malloc E) (\<lambda>m1. if \<not> m1 then ret None else
           bnd (malloc E) (\<lambda>m2. lift (replaceRRDLocation m2 cmd (pathname @ ''/'' @ dirname)))))
      else ret (Some cmd))"

text \<open>One child process: start it, copy what it prints.\<close>

definition run_and_copy :: "'j platform \<Rightarrow> event \<Rightarrow> string \<Rightarrow> unit prog" where
  "run_and_copy E ev finalOutFile =
     bnd (emit ev) (\<lambda>_. bnd (ask (\<lambda>t. secure_popen E t ev)) (\<lambda>fp. case fp of
        None \<Rightarrow> ret () | Some out \<Rightarrow> copyDebugLogDestFile (Some out) (Some finalOutFile)))"

definition run_service :: "'j platform \<Rightarrow> string \<Rightarrow> string \<Rightarrow> string \<Rightarrow> int \<Rightarrow> bool prog" where
  "run_service E finalOutFile rfc cmd secs =
     bnd (malloc E) (\<lambda>mem.
     let printbuffer = (if mem then Some (''Executing Debug Commands: \"'' @ cmd @ ''\"'') else None) in
     bnd (emit (EvWrite finalOutFile (shown printbuffer @ [NEWLINE]))) (\<lambda>_.
     bnd (ask (epoch E)) (\<lambda>epochTime.
     let service = fst (c_snprintf 512 (''remote_debugger_'' @ rfc @ print_int epochTime)) in
     bnd (run_and_copy E (EvSystemdRun service (removeQuotes cmd)) finalOutFile) (\<lambda>_.
     bnd (run_and_copy E (EvJournalctl service) finalOutFile) (\<lambda>_.
     bnd (emit (EvSleep (word_of_int secs))) (\<lambda>_.
     bnd (emit (EvSystemctlStop service)) (\<lambda>_. ret True)))))))"

definition executeCommands :: "'j platform \<Rightarrow> issueData \<Rightarrow> bool prog" where
  "executeCommands E cmdData =
     (case command cmdData of
        None \<Rightarrow> ret False
      | Some cmd \<Rightarrow>
          bnd (ask (strftime_text E)) (\<lambda>stamp.
          bnd (ask (pthread_id E)) (\<lambda>tid.
          bnd (lift (stamped_name (shown (rfcvalue cmdData) @ ''_'' @ c_format_nat 0 10 (unat tid) @ ''_'') stamp)) (\<lambda>dirname.
          bnd (emit (EvMkdir dirname)) (\<lambda>_.
          bnd (ask (\<lambda>t. mkdir_ok E t dirname)) (\<lambda>made. if \<not> made then ret False else
          bnd (relocate E cmd dirname) (\<lambda>newcmd. case newcmd of
            None \<Rightarrow> ret False
          | Some c \<Rightarrow>
              bnd (lift (out_file_name dirname)) (\<lambda>finalOutFile.
              bnd (emit (EvFopen finalOutFile)) (\<lambda>_.
              bnd (ask (\<lambda>t. fopen_w_ok E t finalOutFile)) (\<lambda>opened. if \<not> opened then ret False else
              run_service E finalOutFile (shown (rfcvalue cmdData)) c (timeout cmdData)))))))))))"

definition uploadDebugoutput :: "'j platform \<Rightarrow> string option \<Rightarrow> string option \<Rightarrow> int prog" where
  "uploadDebugoutput E outdir issuename =
     (case (outdir, issuename) of
        (Some d, Some i) \<Rightarrow>
          (let issue = normalizeIssueName i in
           if IARMBUS_SUPPORT (bld E) then rrd_upload_orchestrate E (Some d) (Some issue)
           else bnd (emit (EvScript d issue)) (\<lambda>_.
                bnd (ask (\<lambda>t. script_rc E t d issue)) (\<lambda>rc. ret (if rc \<noteq> 0 then 1 else 0))))
      | _ \<Rightarrow> ret 0)"

section \<open>Copying output\<close>

lemma acts_copy_log:
  "acts (copy_log dest s) (\<lambda>_ es. \<exists>chunks. es = map (EvWrite dest) chunks \<and> concat chunks = s)"
proof (induction s rule: length_induct)
  case (1 s)
  show ?case
  proof (cases "s = []")
    case True
    then show ?thesis by (subst copy_log.simps) (auto intro!: act_rules)
  next
    case False
    then have "length (drop 1024 s) < length s" by simp
    with 1 have IH: "acts (copy_log dest (drop 1024 s))
        (\<lambda>_ es. \<exists>chunks. es = map (EvWrite dest) chunks \<and> concat chunks = drop 1024 s)" by blast
    have "\<exists>chunks. EvWrite dest (take 1024 s) # map (EvWrite dest) cs = map (EvWrite dest) chunks \<and> concat chunks = s"
      if "concat cs = drop 1024 s" for cs
      using that by (intro exI [of _ "take 1024 s # cs"]) simp
    then show ?thesis using False
      by (subst copy_log.simps) (auto intro!: acts_bnd_emit acts_weaken [OF IH])
  qed
qed

text \<open>The events other than writing, and the files written.\<close>

definition steps :: "event list \<Rightarrow> event list" where
  "steps es = filter (\<lambda>ev. case ev of EvWrite _ _ \<Rightarrow> False | _ \<Rightarrow> True) es"

definition writes_only :: "string \<Rightarrow> event list \<Rightarrow> bool" where
  "writes_only f es \<longleftrightarrow> list_all (\<lambda>ev. case ev of EvWrite p _ \<Rightarrow> p = f | _ \<Rightarrow> True) es"

lemma steps_simps [simp]:
  "steps [] = []" "steps (EvWrite p b # es) = steps es" "steps (es @ fs) = steps es @ steps fs"
  "steps (EvSystemdRun u c # es) = EvSystemdRun u c # steps es" "steps (EvJournalctl u # es) = EvJournalctl u # steps es"
  "steps (EvSleep n # es) = EvSleep n # steps es" "steps (EvSystemctlStop u # es) = EvSystemctlStop u # steps es"
  "steps (EvMkdir p # es) = EvMkdir p # steps es" "steps (EvFopen p # es) = EvFopen p # steps es"
  "steps (map (EvWrite f) cs) = []"
  by (simp_all add: steps_def filter_empty_conv)

lemma writes_only_simps [simp]:
  "writes_only f []" "writes_only f (EvWrite p b # es) \<longleftrightarrow> p = f \<and> writes_only f es"
  "writes_only f (es @ fs) \<longleftrightarrow> writes_only f es \<and> writes_only f fs"
  "writes_only f (EvSystemdRun u c # es) = writes_only f es" "writes_only f (EvJournalctl u # es) = writes_only f es"
  "writes_only f (EvSleep n # es) = writes_only f es" "writes_only f (EvSystemctlStop u # es) = writes_only f es"
  "writes_only f (EvMkdir q # es) = writes_only f es" "writes_only f (EvFopen q # es) = writes_only f es"
  "writes_only f (map (EvWrite f) cs)"
  by (simp_all add: writes_only_def list_all_iff ball_Un)

definition is_proc :: "event \<Rightarrow> bool" where
  "is_proc ev \<longleftrightarrow> (case ev of EvSystemdRun _ _ \<Rightarrow> True | EvJournalctl _ \<Rightarrow> True | _ \<Rightarrow> False)"

lemma acts_run_and_copy:
  assumes "is_proc ev"
  shows "acts (run_and_copy E ev f) (\<lambda>_ es. steps es = [ev] \<and> writes_only f es)"
proof -
  have "steps (ev # es) = ev # steps es" "writes_only f (ev # es) = writes_only f es" for es
    using assms by (auto simp: is_proc_def split: event.splits)
  then show ?thesis unfolding run_and_copy_def copyDebugLogDestFile_def option.case
    by (intro act_rules acts_weaken [OF acts_copy_log]) auto
qed

text \<open>The output file is written, the command runs once, its service is stopped.\<close>

definition service_run :: "string \<Rightarrow> string \<Rightarrow> int \<Rightarrow> event list \<Rightarrow> bool" where
  "service_run f cmd secs es \<longleftrightarrow> writes_only f es \<and> (\<exists>u. steps es =
     [EvSystemdRun u (removeQuotes cmd), EvJournalctl u, EvSleep (word_of_int secs), EvSystemctlStop u])"

lemma acts_run_service:
  "acts (run_service E f rfc cmd secs) (\<lambda>ok es. ok \<and> service_run f cmd secs es)"
proof -
  have sys: "acts (run_and_copy E (EvSystemdRun u c) f) (\<lambda>_ es. steps es = [EvSystemdRun u c] \<and> writes_only f es)" for u c
    by (rule acts_run_and_copy) (simp add: is_proc_def)
  have jrn: "acts (run_and_copy E (EvJournalctl u) f) (\<lambda>_ es. steps es = [EvJournalctl u] \<and> writes_only f es)" for u
    by (rule acts_run_and_copy) (simp add: is_proc_def)
  show ?thesis unfolding run_service_def Let_def malloc_def service_run_def
    by (intro acts_bnd_ask acts_bnd_emit acts_bnd [OF sys] acts_bnd [OF jrn] acts_ret) auto
qed

section \<open>Executing commands\<close>

lemma tid_digits: "length (c_format_nat 0 10 (unat (tid :: 64 word))) \<le> 20"
proof -
  have "unat tid < 2 ^ 64" using unsigned_less [of tid] by simp
  then have "unat tid < 10 ^ 20" by (rule less_trans) simp
  then show ?thesis using num_digits_le [of 10 20 "unat tid"] by (simp add: c_format_nat_def)
qed

lemma stamped_name_ok:
  assumes "length pfx + length stamp < 256"
  shows "stamped_name pfx stamp = Inr (pfx @ stamp)"
  using assms by (simp add: stamped_name_def c_snprintf_def BUF_LEN_256_def)

lemma stamped_name_Inr: "stamped_name pfx stamp = Inr d \<Longrightarrow> length d < 256 \<and> d = pfx @ stamp"
  by (auto simp: stamped_name_def c_snprintf_def BUF_LEN_256_def Let_def split: if_splits)

lemma out_file_name_ok:
  "length d + 19 \<le> 256 \<Longrightarrow> out_file_name d = Inr (d @ ''/'' @ RRD_OUTPUT_FILE)"
  by (simp add: out_file_name_def BUF_LEN_256_def RRD_OUTPUT_FILE_def)

lemma out_file_name_Inr: "out_file_name d = Inr f \<Longrightarrow> length f < 256"
  by (auto simp: out_file_name_def BUF_LEN_256_def RRD_OUTPUT_FILE_def Let_def split: if_splits)

text \<open>The command that runs: the given one with the macro replaced.\<close>

definition relocated :: "string \<Rightarrow> string \<Rightarrow> bool" where
  "relocated cmd c \<longleftrightarrow> c = cmd \<or> (\<exists>dir. c = replace_all dir cmd)"

lemma relocated_simps [simp]: "relocated cmd cmd" "relocated cmd (replace_all dir cmd)"
  by (auto simp: relocated_def)

lemma replaceRRDLocation_Inr:
  "replaceRRDLocation m cmd dir = Inr (Some c) \<Longrightarrow> c = replace_all dir cmd"
  by (auto simp: replaceRRDLocation_def rrl_copy_replace_all Let_def split: if_splits)

text \<open>No allocation, no directory and no output file is refused.\<close>

definition smooth :: "'j platform \<Rightarrow> bool" where
  "smooth E \<longleftrightarrow> (\<forall>t. malloc_ok E t \<and> (\<forall>p. mkdir_ok E t p \<and> fopen_w_ok E t p))"

lemma reads_relocate:
  assumes "length cmd < 2 ^ 54" "length dirname < 256"
  shows "reads (relocate E cmd dirname) (\<lambda>r. (\<forall>c. r = Some c \<longrightarrow> relocated cmd c) \<and> (smooth E \<longrightarrow> r \<noteq> None))"
proof -
  have "\<exists>r. replaceRRDLocation m cmd dir = Inr r \<and> (\<forall>c. r = Some c \<longrightarrow> relocated cmd c) \<and> (m \<longrightarrow> r \<noteq> None)"
    if "length dir < 600" for m dir
  proof -
    have "rrl_count cmd * 12 \<le> length cmd" using rrl_count_le [of cmd] by (simp add: DEFAULT_DIR_def)
    then have "rrl_count cmd \<le> length cmd" by simp
    moreover have "length dir \<le> 600" using that by simp
    ultimately have "rrl_count cmd * length dir \<le> length cmd * 600" by (rule mult_le_mono)
    then have "length (rrl_copy dir cmd) < 2 ^ 64"
      using length_rrl_copy [of dir cmd] assms(1) by simp
    then show ?thesis
      by (auto simp: replaceRRDLocation_def rrl_datalen_exact rrl_copy_replace_all [symmetric] relocated_def)
  qed
  note rep = this
  have "reads (lift (replaceRRDLocation m cmd (p @ ''/'' @ dirname)))
      (\<lambda>r. (\<forall>c. r = Some c \<longrightarrow> relocated cmd c) \<and> (m \<longrightarrow> r \<noteq> None))"
    if "length p < 256" for m p
  proof -
    from rep [of "p @ ''/'' @ dirname" m] that assms(2) obtain r
      where "replaceRRDLocation m cmd (p @ ''/'' @ dirname) = Inr r" "\<forall>c. r = Some c \<longrightarrow> relocated cmd c"
        "m \<longrightarrow> r \<noteq> None" by auto
    moreover have "lift (Inr r) = ret r" by (simp add: lift_def ret_def fun_eq_iff)
    ultimately show ?thesis by (auto intro: reads_ret)
  qed
  note lifted = this
  have "reads (lift (replaceRRDLocation (malloc_ok E t) cmd (p @ ''/'' @ dirname)))
      (\<lambda>r. (\<forall>c. r = Some c \<longrightarrow> relocated cmd c) \<and> (smooth E \<longrightarrow> r \<noteq> None))"
    if "length p < 256" for t p
    by (rule reads_weaken [OF lifted [OF that, of "malloc_ok E t"]]) (auto simp: smooth_def)
  then show ?thesis unfolding relocate_def Let_def malloc_def
    by (auto intro!: read_rules simp: relocated_def BUF_LEN_256_def smooth_def)
qed

text \<open>
  What a run of \<open>executeCommands\<close> does when the names fit: nothing is started unless it
  reports success, and then the command runs once in a service that is stopped.
\<close>

definition command_run :: "issueData \<Rightarrow> bool \<Rightarrow> event list \<Rightarrow> bool" where
  "command_run d ok es \<longleftrightarrow>
     (if ok then \<exists>cmd c dir u. command d = Some cmd \<and> relocated cmd c
          \<and> steps es = [EvMkdir dir, EvFopen (dir @ ''/'' @ RRD_OUTPUT_FILE), EvSystemdRun u (removeQuotes c),
                        EvJournalctl u, EvSleep (word_of_int (timeout d)), EvSystemctlStop u]
          \<and> writes_only (dir @ ''/'' @ RRD_OUTPUT_FILE) es
      else \<forall>u c. EvSystemdRun u c \<notin> set es)"

lemma acts_executeCommands:
  assumes rfc: "length (shown (rfcvalue d)) \<le> 190" and stamp: "\<And>t. length (strftime_text E t) \<le> 19"
    and cmd: "\<And>c. command d = Some c \<Longrightarrow> length c < 2 ^ 54"
  shows "acts (executeCommands E d) (\<lambda>ok es. command_run d ok es \<and> (smooth E \<and> command d \<noteq> None \<longrightarrow> ok))"
proof (cases "command d")
  case None
  then show ?thesis by (auto simp: executeCommands_def command_run_def intro!: act_rules)
next
  case (Some c0)
  let ?name = "\<lambda>t t'. shown (rfcvalue d) @ ''_'' @ c_format_nat 0 10 (unat (pthread_id E t')) @ ''_'' @ strftime_text E t"
  have len: "length (?name t t') \<le> 231" for t t'
    using rfc stamp [of t] tid_digits [of "pthread_id E t'"] by simp
  have stamped: "stamped_name (shown (rfcvalue d) @ ''_'' @ c_format_nat 0 10 (unat (pthread_id E t')) @ ''_'')
      (strftime_text E t) = Inr (?name t t')" for t t'
    using len [where t = t and t' = t'] by (subst stamped_name_ok) simp_all
  have out: "out_file_name (?name t t') = Inr (?name t t' @ ''/'' @ RRD_OUTPUT_FILE)" for t t'
    using len [where t = t and t' = t'] by (intro out_file_name_ok) simp
  have rel: "reads (relocate E c0 (?name t t'))
      (\<lambda>r. (\<forall>c. r = Some c \<longrightarrow> relocated c0 c) \<and> (smooth E \<longrightarrow> r \<noteq> None))" for t t'
    using cmd [OF Some] len [where t = t and t' = t'] by (intro reads_relocate) simp_all
  have fin: "command_run d True (EvMkdir dir # EvFopen (dir @ ''/'' @ RRD_OUTPUT_FILE) # es)"
    if "service_run (dir @ ''/'' @ RRD_OUTPUT_FILE) c (timeout d) es" "relocated c0 c" for dir c es
    using that Some unfolding command_run_def service_run_def by (simp del: append_assoc) blast
  show ?thesis unfolding executeCommands_def Some option.case
    by (intro acts_bnd_ask, simp only: stamped bnd_simps,
        intro acts_bnd_emit acts_bnd_ask acts_if acts_ret acts_bnd_reads [OF rel] acts_option)
      (auto simp: out command_run_def [of d False] smooth_def simp del: append_assoc append_Cons append_Nil
        intro!: act_rules acts_weaken [OF acts_run_service] fin)
qed

lemma keeps_run_service:
  assumes "\<And>u. Q (EvSystemdRun u (removeQuotes cmd))" and "\<And>ev. \<not> is_run ev \<Longrightarrow> Q ev"
  shows "keeps (all_events Q) (run_service E f rfc cmd secs)"
proof (rule acts_keeps, rule acts_weaken [OF acts_run_service])
  fix ok es
  assume "ok \<and> service_run f cmd secs es"
  then obtain u where s: "steps es = [EvSystemdRun u (removeQuotes cmd), EvJournalctl u, EvSleep (word_of_int secs), EvSystemctlStop u]"
    by (auto simp: service_run_def)
  have "Q ev" if "ev \<in> set es" for ev
  proof (cases "is_run ev")
    case True
    with that have "ev \<in> set (steps es)" by (auto simp: steps_def is_run_def)
    with s True show ?thesis using assms(1) by (auto simp: is_run_def)
  qed (rule assms(2))
  then show "list_all Q es" by (simp add: list_all_iff)
qed

text \<open>Safety without any assumption: whatever happens, only the given command is started.\<close>

lemma keeps_executeCommands:
  assumes run: "\<And>cmd c u. command d = Some cmd \<Longrightarrow> relocated cmd c \<Longrightarrow> Q (EvSystemdRun u (removeQuotes c))"
    and other: "\<And>ev. \<not> is_run ev \<Longrightarrow> Q ev"
  shows "keeps (all_events Q) (executeCommands E d)"
proof (cases "command d")
  case None
  then show ?thesis by (auto simp: executeCommands_def intro!: keep_rules)
next
  case (Some c0)
  have rel: "keeps (all_events Q) (bnd (relocate E c0 dir) k)"
    if "\<And>r. (\<forall>c. r = Some c \<longrightarrow> relocated c0 c) \<Longrightarrow> keeps (all_events Q) (k r)" for dir k
    unfolding relocate_def Let_def
    by (auto intro!: keeps_ask_bnd keeps_malloc_bnd keeps_lift_bnd that
        dest!: replaceRRDLocation_Inr)
  have ev: "Q (EvMkdir p)" "Q (EvFopen p)" for p by (auto intro!: other simp: is_run_def)
  show ?thesis unfolding executeCommands_def Some option.case
    by (intro keep_rules rel ev keeps_run_service run other) (auto simp: Some)
qed

lemma keeps_uploadDebugoutput:
  assumes "\<And>ev. \<not> is_run ev \<Longrightarrow> Q ev"
  shows "keeps (all_events Q) (uploadDebugoutput E d i)"
proof -
  have up: "keeps (all_events Q) (rrd_upload_orchestrate E (Some x) (Some y))" for x y
  proof (rule acts_keeps, rule acts_weaken [OF acts_orchestrate_quiet])
    fix rc es
    assume "quiet es"
    then show "list_all Q es" using assms by (simp add: list_all_iff quiet_def)
  qed
  have "Q (EvScript x y)" for x y by (rule assms) (simp add: is_run_def)
  then show ?thesis unfolding uploadDebugoutput_def Let_def
    by (auto intro!: keep_rules up split: option.splits)
qed

text \<open>An invariant that every event keeps is kept by the execution of any command.\<close>

lemma keeps_executeCommands_any:
  assumes I: "eventless I"
  shows "keeps I (executeCommands E d)"
proof -
  from I have t: "timeless I" "\<And>ev. keeps I (emit ev)" by (simp_all add: eventless_def)
  show ?thesis unfolding executeCommands_def relocate_def Let_def
    by (intro keeps_option keeps_ret keeps_bnd keeps_if keeps_lift keeps_ask_bnd keeps_malloc_bnd t
        acts_keeps_any [OF I acts_run_service])
qed

lemma keeps_upload_any: "eventless I \<Longrightarrow> keeps I (uploadDebugoutput E d i)"
  unfolding uploadDebugoutput_def Let_def
  by (intro keeps_prod keeps_option keeps_if keeps_bnd keeps_ret keeps_ask_bnd acts_keeps_any [OF _ acts_orchestrate_quiet])
    (simp_all add: eventless_def)

section \<open>Properties\<close>



text \<open>
  Copying the output of a child process to the report file, in chunks of at most 1024
  bytes: what is written is exactly what was read, and nothing else happens.
\<close>

theorem copyDebugLogDestFile_complete:
  "\<exists>w' chunks. copyDebugLogDestFile (Some s) (Some d) w = Ret () w'
     \<and> trace w' = trace w @ map (EvWrite d) chunks \<and> concat chunks = s"
  using actsD [OF acts_copy_log [of d s], of w] by (fastforce simp: copyDebugLogDestFile_def)

end
