(* ===== verification/RRD_Profile.thy ===== *)
theory RRD_Profile
  imports RRD_Exec
begin

text \<open>
  Profiles: reading a JSON profile, finding an issue in it, collecting the command and the
  timeout of an issue, passing them through the filter and executing them; the loops over
  all issues of a category and over the deep-sleep metrics; \<^verbatim>\<open>checkIssueNodeInfo\<close>, which
  runs an issue in its own directory and uploads the result. All functions are from
  \<^verbatim>\<open>src/src/rrdJsonParser.c\<close>. The node and buffer structures that the source changes
  through pointers are returned; freeing or reading a pointer twice is a fault.
\<close>

section \<open>Model\<close>

text \<open>A string argument that may be NULL, and \<open>free(p); p = NULL\<close>.\<close>

fun str_arg :: "string cptr \<Rightarrow> fault + string option" where
  "str_arg Null = Inr None"
| "str_arg (Own s) = Inr (Some s)"
| "str_arg Dangling = Inl UseAfterFree"

definition free_null :: "'a cptr \<Rightarrow> fault + 'a cptr" where
  "free_null p = (case c_free p of Inl e \<Rightarrow> Inl e | Inr _ \<Rightarrow> Inr Null)"

definition strdup :: "'j platform \<Rightarrow> string \<Rightarrow> string cptr prog" where
  "strdup E s = bnd (malloc E) (\<lambda>mem. ret (if mem then Own s else Null))"

definition readJsonFile :: "'j platform \<Rightarrow> string \<Rightarrow> string option prog" where
  "readJsonFile E jsonfile =
     bnd (ask (\<lambda>t. file_text E t jsonfile)) (\<lambda>fp. case fp of
       None \<Rightarrow> ret None
     | Some content \<Rightarrow>
         (let ch_count = sint (of_nat (length content) :: 32 word) in
          if ch_count < 1 then ret None
          else bnd (malloc E) (\<lambda>mem. if \<not> mem then ret None else
               bnd (ask (\<lambda>t. fread_len E t (nat ch_count))) (\<lambda>bytes_read.
               if bytes_read \<noteq> nat ch_count then ret None else ret (Some (take (nat ch_count) content))))))"

definition readAndParseJSON :: "'j platform \<Rightarrow> string \<Rightarrow> 'j option prog" where
  "readAndParseJSON E jsonFile =
     bnd (readJsonFile E jsonFile) (\<lambda>file_content. case file_content of
       None \<Rightarrow> ret None
     | Some text \<Rightarrow> ret (cJSON_Parse (json E) (c_str text)))"

definition findIssueInParsedJSON :: "'j cjson_api \<Rightarrow> issueNodeData \<Rightarrow> 'j option \<Rightarrow> fault + bool" where
  "findIssueInParsedJSON J node jsoncfg =
     (case str_arg (Node node) of
        Inl e \<Rightarrow> Inl e
      | Inr None \<Rightarrow> Inr False
      | Inr (Some n) \<Rightarrow>
          (case cJSON_GetObjectItem J jsoncfg (Some n) of
             None \<Rightarrow> Inr False
           | Some category \<Rightarrow>
               (if cJSON_Print J (Some category) = Some DEEP_SLEEP_STR then Inr True
                else (case str_arg (subNode node) of
                   Inl e \<Rightarrow> Inl e
                 | Inr None \<Rightarrow> Inr True
                 | Inr (Some sn) \<Rightarrow>
                     (case cJSON_GetObjectItem J (Some category) (Some sn) of
                        None \<Rightarrow> Inr False
                      | Some type \<Rightarrow> Inr (cJSON_Print J (Some type) \<noteq> None))))))"

text \<open>The loop that reads timeout and command; a later item overwrites an earlier one.\<close>

fun read_items :: "'j platform \<Rightarrow> 'j option \<Rightarrow> nat \<Rightarrow> nat \<Rightarrow> int \<Rightarrow> string option \<Rightarrow> (int \<times> string option) prog" where
  "read_items E type j 0 tmo cmd = ret (tmo, cmd)"
| "read_items E type j (Suc n) tmo cmd =
     (case cJSON_GetArrayItem (json E) type j of
        None \<Rightarrow> read_items E type (Suc j) n tmo cmd
      | Some elem \<Rightarrow>
          (if cj_type (json E) elem = cJSON_Number
           then read_items E type (Suc j) n (cj_valueint (json E) elem) cmd
           else if cj_type (json E) elem = cJSON_String
           then (case cJSON_Print (json E) (Some elem) of
                   None \<Rightarrow> read_items E type (Suc j) n tmo cmd
                 | Some tmpCommand \<Rightarrow>
                     bnd (malloc E) (\<lambda>mem. read_items E type (Suc j) n tmo (if mem then Some tmpCommand else None)))
           else read_items E type (Suc j) n tmo cmd))"

definition sanity_check :: "'j cjson_api \<Rightarrow> 'j option \<Rightarrow> 'j option" where
  "sanity_check J jsoncfg =
     cJSON_GetObjectItem J (cJSON_GetObjectItem J jsoncfg (Some ''Sanity'')) (Some ''Check'')"

definition sanity_cmds :: "'j cjson_api \<Rightarrow> 'j option \<Rightarrow> 'j option" where
  "sanity_cmds J jsoncfg = cJSON_GetObjectItem J (sanity_check J jsoncfg) (Some ''Commands'')"

definition issue_json :: "'j cjson_api \<Rightarrow> 'j option \<Rightarrow> string option \<Rightarrow> string option \<Rightarrow> 'j option" where
  "issue_json J root n sn = cJSON_GetObjectItem J (cJSON_GetObjectItem J root n) sn"

text \<open>The command information that is left after the filter: its name and the default timeout.\<close>

definition accepted_data :: "'j platform \<Rightarrow> string \<Rightarrow> int \<Rightarrow> string \<Rightarrow> issueData prog" where
  "accepted_data E cmd tmo buf =
     bnd (malloc E) (\<lambda>mem. ret \<lparr>rfcvalue = (if mem then Some buf else None), command = Some cmd,
        timeout = (if tmo = 0 then DEFAULT_TIMEOUT else tmo)\<rparr>)"

definition getIssueCommandInfo ::
  "'j platform \<Rightarrow> issueNodeData \<Rightarrow> 'j option \<Rightarrow> string \<Rightarrow> issueData option prog" where
  "getIssueCommandInfo E node jsoncfg buf =
     bnd (lift (str_arg (Node node))) (\<lambda>n. bnd (lift (str_arg (subNode node))) (\<lambda>sn.
     let type = issue_json (json E) jsoncfg n sn in
     bnd (malloc E) (\<lambda>mem. if \<not> mem then ret None else
     bnd (read_items E type 0 (cJSON_GetArraySize (json E) type) 0 None) (\<lambda>(tmo, cmd). case cmd of
       None \<Rightarrow> ret None
     | Some c \<Rightarrow>
         bnd (lift (isCommandsValid (json E) c (sanity_cmds (json E) jsoncfg))) (\<lambda>(rc, c').
         if rc \<noteq> 0 then ret None
         else bnd (accepted_data E c' tmo buf) (\<lambda>d. ret (Some d)))))))"

definition invokeSanityandCommandExec ::
  "'j platform \<Rightarrow> issueNodeData \<Rightarrow> 'j option \<Rightarrow> string \<Rightarrow> bool \<Rightarrow> (bool \<times> issueNodeData) prog" where
  "invokeSanityandCommandExec E node jsoncfg buf deepSleepAwkEvnt =
     bnd (lift (str_arg (Node node))) (\<lambda>n. bnd (lift (str_arg (subNode node))) (\<lambda>sn.
     let root = (if deepSleepAwkEvnt then cJSON_GetObjectItem (json E) jsoncfg (Some DEEP_SLEEP_STR) else jsoncfg);
         type = issue_json (json E) root n sn in
     bnd (lift (free_null (Node node))) (\<lambda>n0. bnd (lift (free_null (subNode node))) (\<lambda>s0.
     let node' = \<lparr>Node = n0, subNode = s0\<rparr> in
     bnd (malloc E) (\<lambda>mem. if \<not> mem then ret (False, node') else
     bnd (read_items E type 0 (cJSON_GetArraySize (json E) type) 0 None) (\<lambda>(tmo, cmd). case cmd of
       None \<Rightarrow> ret (False, node')
     | Some c \<Rightarrow>
         bnd (if cJSON_Print (json E) (sanity_check (json E) jsoncfg) = None
              then readAndParseJSON E RRD_JSON_FILE else ret jsoncfg) (\<lambda>cfg.
         bnd (lift (isCommandsValid (json E) c (sanity_cmds (json E) cfg))) (\<lambda>(rc, c').
         if rc \<noteq> 0 then ret (False, node')
         else bnd (accepted_data E c' tmo buf) (\<lambda>d.
              bnd (executeCommands E d) (\<lambda>exresult. ret (exresult, node')))))))))))"

text \<open>
  All issues of a category. The name buffer is filled before it is tested for NULL, and
  an item without a name would be dereferenced.
\<close>

fun debug_loop ::
  "'j platform \<Rightarrow> 'j option \<Rightarrow> 'j \<Rightarrow> string \<Rightarrow> nat \<Rightarrow> nat \<Rightarrow> bool \<Rightarrow> issueNodeData \<Rightarrow> (bool \<times> issueNodeData) prog" where
  "debug_loop E jsoncfg mainnode rfcbuf i 0 execstatus node = ret (execstatus, node)"
| "debug_loop E jsoncfg mainnode rfcbuf i (Suc n) execstatus node =
     (case cJSON_GetArrayItem (json E) (Some mainnode) i of
        None \<Rightarrow> debug_loop E jsoncfg mainnode rfcbuf (Suc i) n execstatus node
      | Some item \<Rightarrow>
          (case cj_string (json E) item of
             None \<Rightarrow> crash NullDeref
           | Some name \<Rightarrow>
               bnd (malloc E) (\<lambda>mem. if \<not> mem then crash NullDeref else
               bnd (if i \<noteq> 0 then strdup E rfcbuf else ret (Node node)) (\<lambda>nd.
               bnd (strdup E name) (\<lambda>sn.
               bnd (invokeSanityandCommandExec E \<lparr>Node = nd, subNode = sn\<rparr> jsoncfg (rfcbuf @ RFC_DELIM @ name) False)
                 (\<lambda>(ok, node'). debug_loop E jsoncfg mainnode rfcbuf (Suc i) n ok node'))))))"

definition processAllDebugCommand ::
  "'j platform \<Rightarrow> 'j option \<Rightarrow> issueNodeData \<Rightarrow> string \<Rightarrow> (bool \<times> issueNodeData) prog" where
  "processAllDebugCommand E jsoncfg node rfcbuf =
     bnd (lift (str_arg (Node node))) (\<lambda>n.
     case cJSON_GetObjectItem (json E) jsoncfg n of
       None \<Rightarrow> ret (False, node)
     | Some mainnode \<Rightarrow>
         (if cJSON_Print (json E) (Some mainnode) = None then ret (False, node)
          else debug_loop E jsoncfg mainnode rfcbuf 0 (cJSON_GetArraySize (json E) (Some mainnode)) False node))"

text \<open>
  The deep-sleep metrics. The two lengths are swapped in the copies, as in the source:
  the category is cut to the length of the type and the type to that of the category.
\<close>

fun metrics_types ::
  "'j platform \<Rightarrow> 'j option \<Rightarrow> 'j option \<Rightarrow> nat \<Rightarrow> nat \<Rightarrow> bool \<Rightarrow> issueNodeData \<Rightarrow> (bool \<times> bool \<times> issueNodeData) prog" where
  "metrics_types E jsoncfg cat s 0 execstatus node = ret (True, execstatus, node)"
| "metrics_types E jsoncfg cat s (Suc n) execstatus node =
     (case (cat, cJSON_GetArrayItem (json E) cat s) of
        (Some c, Some t) \<Rightarrow>
          (case (cj_string (json E) c, cj_string (json E) t) of
             (Some cname, Some tname) \<Rightarrow>
               bnd (malloc E) (\<lambda>mem. if \<not> mem then ret (False, False, node) else
               bnd (strdup E cname) (\<lambda>nd. bnd (strdup E tname) (\<lambda>sn.
               bnd (invokeSanityandCommandExec E \<lparr>Node = nd, subNode = sn\<rparr> jsoncfg
                      (c_strncpy (length tname) cname @ RFC_DELIM @ c_strncpy (length cname) tname) True)
                 (\<lambda>(ok, node'). metrics_types E jsoncfg cat (Suc s) n ok node'))))
           | _ \<Rightarrow> crash NullDeref)
      | _ \<Rightarrow> crash NullDeref)"

fun metrics_categories ::
  "'j platform \<Rightarrow> 'j option \<Rightarrow> 'j option \<Rightarrow> nat \<Rightarrow> nat \<Rightarrow> bool \<Rightarrow> issueNodeData \<Rightarrow> (bool \<times> issueNodeData) prog" where
  "metrics_categories E jsoncfg rootNode m 0 execstatus node = ret (execstatus, node)"
| "metrics_categories E jsoncfg rootNode m (Suc n) execstatus node =
     (let cat = cJSON_GetArrayItem (json E) rootNode m in
      bnd (metrics_types E jsoncfg cat 0 (cJSON_GetArraySize (json E) cat) execstatus node) (\<lambda>(go, st, node').
      if \<not> go then ret (False, node') else metrics_categories E jsoncfg rootNode (Suc m) n st node'))"

definition processAllDeepSleepAwkMetricsCommands ::
  "'j platform \<Rightarrow> 'j option \<Rightarrow> issueNodeData \<Rightarrow> (bool \<times> issueNodeData) prog" where
  "processAllDeepSleepAwkMetricsCommands E jsoncfg node =
     bnd (lift (str_arg (Node node))) (\<lambda>n.
     let rootNode = cJSON_GetObjectItem (json E) jsoncfg n in
     bnd (lift (free_null (Node node))) (\<lambda>n0.
     metrics_categories E jsoncfg rootNode 0 (cJSON_GetArraySize (json E) rootNode) False (node\<lparr>Node := n0\<rparr>)))"

text \<open>\<open>free\<close> of the three strings of a buffer, each set to NULL.\<close>

definition free_fields :: "data_buf \<Rightarrow> fault + data_buf" where
  "free_fields b =
     (case free_null (mdata b) of Inl e \<Rightarrow> Inl e
      | Inr m \<Rightarrow> (case free_null (jsonPath b) of Inl e \<Rightarrow> Inl e
        | Inr j \<Rightarrow> (case free_null (suffix_of b) of Inl e \<Rightarrow> Inl e
          | Inr s \<Rightarrow> Inr (b\<lparr>mdata := m, jsonPath := j, suffix_of := s\<rparr>))))"

text \<open>The name of the report, with the suffix of the request.\<close>

definition report_name :: "string \<Rightarrow> string option \<Rightarrow> string" where
  "report_name m sfx = (case sfx of Some s \<Rightarrow> (if s \<noteq> [] then m @ s else m) | None \<Rightarrow> m)"

definition upload_report :: "'j platform \<Rightarrow> string \<Rightarrow> data_buf \<Rightarrow> int prog" where
  "upload_report E outdir buff =
     bnd (lift (c_read (mdata buff))) (\<lambda>m. bnd (lift (str_arg (suffix_of buff))) (\<lambda>sfx.
     if snd (c_snprintf 512 (report_name m sfx)) \<ge> 512 then ret (-1)
     else uploadDebugoutput E (Some outdir) (Some (report_name m sfx))))"

text \<open>Which commands run for a node.\<close>

definition run_node ::
  "'j platform \<Rightarrow> issueNodeData \<Rightarrow> 'j option \<Rightarrow> data_buf \<Rightarrow> string \<Rightarrow> bool \<Rightarrow> issueData option
   \<Rightarrow> (bool \<times> issueNodeData) prog" where
  "run_node E node jsoncfg buff rfcbuf deep appendprofiledata =
     (if subNode node \<noteq> Null
      then (if appendMode buff
            then (case appendprofiledata of
                    None \<Rightarrow> crash NullDeref
                  | Some d \<Rightarrow> bnd (executeCommands E d) (\<lambda>execstatus.
                      bnd (lift (free_null (Node node))) (\<lambda>n0. bnd (lift (free_null (subNode node))) (\<lambda>s0.
                      ret (execstatus, \<lparr>Node = n0, subNode = s0\<rparr>)))))
            else invokeSanityandCommandExec E node jsoncfg rfcbuf False)
      else if deep then processAllDeepSleepAwkMetricsCommands E jsoncfg node
      else processAllDebugCommand E jsoncfg node rfcbuf)"

definition checkIssueNodeInfo ::
  "'j platform \<Rightarrow> issueNodeData \<Rightarrow> 'j option \<Rightarrow> data_buf \<Rightarrow> bool \<Rightarrow> issueData option
   \<Rightarrow> (data_buf \<times> issueNodeData) prog" where
  "checkIssueNodeInfo E node jsoncfg buff isDeepSleepAwakeEventValid appendprofiledata =
     bnd (lift (c_read (mdata buff))) (\<lambda>rfcbuf. bnd (malloc E) (\<lambda>mem.
     if \<not> mem then bnd (lift (free_fields buff)) (\<lambda>b. ret (b, node)) else
     bnd (ask (strftime_text E)) (\<lambda>stamp.
     bnd (lift (c_read (Node node))) (\<lambda>n.
     let deep = (isDeepSleepAwakeEventValid \<or> n = DEEP_SLEEP_STR \<or> n = ''deepsleep'') in
     bnd (lift (stamped_name (RRD_OUTPUT_DIR @ n @ ''-DebugReport-'') stamp)) (\<lambda>outdir.
     bnd (emit (EvMkdir outdir)) (\<lambda>_.
     bnd (ask (\<lambda>t. mkdir_ok E t outdir)) (\<lambda>made.
     if \<not> made then bnd (lift (free_fields buff)) (\<lambda>b. ret (b, node)) else
     bnd (emit (EvChdir outdir)) (\<lambda>_.
     bnd (ask (\<lambda>t. chdir_ok E t outdir)) (\<lambda>changed.
     if \<not> changed then bnd (lift (free_fields buff)) (\<lambda>b. ret (b, node)) else
     bnd (run_node E node jsoncfg buff rfcbuf deep appendprofiledata) (\<lambda>(execstatus, node').
     bnd (if execstatus then upload_report E outdir buff else ret 0) (\<lambda>_.
     bnd (lift (free_fields buff)) (\<lambda>b. ret (b, node')))))))))))))"

section \<open>Reading\<close>

lemma reads_readJsonFile: "reads (readJsonFile E f) (\<lambda>_. True)"
  unfolding readJsonFile_def malloc_def by (auto simp: Let_def intro!: read_rules)

lemma reads_readAndParseJSON: "reads (readAndParseJSON E f) (\<lambda>_. True)"
  unfolding readAndParseJSON_def by (auto intro!: read_rules reads_bnd [OF reads_readJsonFile])

lemma reads_read_items: "reads (read_items E type j n tmo cmd) (\<lambda>_. True)"
  by (induction E type j n tmo cmd rule: read_items.induct)
    (auto simp: malloc_def intro!: read_rules split: option.splits)

lemma reads_accepted_data: "reads (accepted_data E cmd tmo buf) (\<lambda>d. command d = Some cmd \<and>
    (rfcvalue d = Some buf \<or> rfcvalue d = None) \<and> timeout d \<noteq> 0)"
  unfolding accepted_data_def malloc_def by (auto simp: DEFAULT_TIMEOUT_def intro!: read_rules split: if_splits)

section \<open>Only filtered commands run\<close>

text \<open>
  A command the filter accepted, against the list of a profile; \<open>vetted\<close> is what may be
  handed to the shell: an accepted command after macro replacement and unquoting, where
  the profile did have a list.
\<close>

definition accepted :: "'j cjson_api \<Rightarrow> 'j option \<Rightarrow> string \<Rightarrow> bool" where
  "accepted J cfg cmd \<longleftrightarrow> (\<exists>cmd0. isCommandsValid J cmd0 (sanity_cmds J cfg) = Inr (0, cmd))"

definition vetted :: "'j cjson_api \<Rightarrow> string \<Rightarrow> bool" where
  "vetted J c \<longleftrightarrow> (\<exists>cfg cmd c'. sanity_check J cfg \<noteq> None \<and> accepted J cfg cmd
     \<and> relocated cmd c' \<and> c = removeQuotes c')"

text \<open>The built-in profile can be read and has a sanity section.\<close>

definition static_sanity :: "'j platform \<Rightarrow> bool" where
  "static_sanity E \<longleftrightarrow> reads (readAndParseJSON E RRD_JSON_FILE) (\<lambda>cfg. sanity_check (json E) cfg \<noteq> None)"

lemma keeps_invoke:
  assumes laws: "cjson_laws (json E)" and static: "static_sanity E"
    and run: "\<And>u c. vetted (json E) c \<Longrightarrow> Q (EvSystemdRun u c)" and other: "\<And>ev. \<not> is_run ev \<Longrightarrow> Q ev"
  shows "keeps (all_events Q) (invokeSanityandCommandExec E node jsoncfg buf deep)"
proof -
  have cfg: "asks (if cJSON_Print (json E) (sanity_check (json E) jsoncfg) = None
        then readAndParseJSON E RRD_JSON_FILE else ret jsoncfg) (\<lambda>cfg. sanity_check (json E) cfg \<noteq> None)"
  proof (cases "sanity_check (json E) jsoncfg")
    case None
    with static cjson_laws.print_null [OF laws] show ?thesis by (auto simp: static_sanity_def intro: asks_reads)
  next
    case (Some x)
    with cjson_laws.print_item [OF laws, of x] show ?thesis by (auto intro: asks_ret)
  qed
  have exec: "keeps (all_events Q) (executeCommands E d)"
    if "sanity_check (json E) cfg \<noteq> None" "isCommandsValid (json E) c (sanity_cmds (json E) cfg) = Inr (0, c')"
      "command d = Some c'" for d cfg c c'
  proof -
    have "vetted (json E) (removeQuotes x)" if "relocated c' x" for x
      using that \<open>sanity_check (json E) cfg \<noteq> None\<close> \<open>isCommandsValid _ _ _ = _\<close>
      unfolding vetted_def accepted_def by blast
    with that show ?thesis by (intro keeps_executeCommands) (auto intro: run other)
  qed
  show ?thesis unfolding invokeSanityandCommandExec_def Let_def
    by (intro keeps_bnd_asks [OF timeless_invs(1) cfg] keeps_bnd_asks [OF timeless_invs(1) asks_reads [OF reads_accepted_data]]
        keeps_lift_bnd keeps_malloc_bnd keeps_bnd_asks [OF timeless_invs(1) asks_reads [OF reads_read_items]]
        keeps_if keeps_ret keeps_prod keeps_option keeps_bnd [OF exec]) auto
qed

text \<open>The loops keep every invariant that one invocation keeps.\<close>

lemma keeps_strdup: "timeless I \<Longrightarrow> keeps I (strdup E s)"
  unfolding strdup_def by (intro keeps_malloc_bnd keeps_ret)

lemma keeps_debug_loop:
  assumes I: "timeless I" and inv: "\<And>node buf deep. keeps I (invokeSanityandCommandExec E node jsoncfg buf deep)"
  shows "keeps I (debug_loop E jsoncfg mn rfcbuf i n st node)"
proof (induction n arbitrary: i st node)
  case (Suc n)
  then show ?case unfolding debug_loop.simps
    by (intro keeps_option keeps_crash keeps_malloc_bnd I keeps_if keeps_bnd keeps_strdup inv keeps_prod keeps_ret)
qed (simp add: keeps_ret)

lemma keeps_metrics_types:
  assumes I: "timeless I" and inv: "\<And>node buf deep. keeps I (invokeSanityandCommandExec E node jsoncfg buf deep)"
  shows "keeps I (metrics_types E jsoncfg cat i n st node)"
proof (induction n arbitrary: i st node)
  case (Suc n)
  then show ?case unfolding metrics_types.simps
    by (intro keeps_prod keeps_option keeps_crash keeps_malloc_bnd I keeps_if keeps_bnd keeps_strdup inv keeps_ret)
qed (simp add: keeps_ret)

lemma keeps_metrics_categories:
  assumes "timeless I" and "\<And>node buf deep. keeps I (invokeSanityandCommandExec E node jsoncfg buf deep)"
  shows "keeps I (metrics_categories E jsoncfg root i n st node)"
proof (induction n arbitrary: i st node)
  case (Suc n)
  then show ?case unfolding metrics_categories.simps Let_def
    by (intro keeps_bnd keeps_metrics_types assms keeps_prod keeps_if keeps_ret)
qed (simp add: keeps_ret)

lemma keeps_run_node:
  assumes I: "timeless I" and inv: "\<And>node buf deep. keeps I (invokeSanityandCommandExec E node jsoncfg buf deep)"
    and app: "\<And>d'. appendMode buff \<Longrightarrow> d = Some d' \<Longrightarrow> keeps I (executeCommands E d')"
  shows "keeps I (run_node E node jsoncfg buff rfcbuf deep d)"
  unfolding run_node_def processAllDebugCommand_def processAllDeepSleepAwkMetricsCommands_def Let_def
  by (intro keeps_if keeps_option keeps_crash keeps_bnd keeps_lift keeps_ret inv keeps_metrics_categories
      keeps_debug_loop I app)

lemma keeps_checkIssueNodeInfo:
  assumes I: "timeless I"
    and ev: "\<And>p. keeps I (emit (EvMkdir p))" "\<And>p. keeps I (emit (EvChdir p))"
    and up: "\<And>d i. keeps I (uploadDebugoutput E d i)"
    and run: "\<And>m dp. keeps I (run_node E node jsoncfg buff m dp d)"
  shows "keeps I (checkIssueNodeInfo E node jsoncfg buff deep d)"
  unfolding checkIssueNodeInfo_def upload_report_def Let_def
  by (intro keeps_malloc_bnd keeps_ask_bnd keeps_if keeps_bnd keeps_lift keeps_ret keeps_prod I ev up run)

lemma checkIssueNodeInfo_vets:
  assumes "cjson_laws (json E)" and "static_sanity E"
    and "\<And>u c. vetted (json E) c \<Longrightarrow> Q (EvSystemdRun u c)" and other: "\<And>ev. \<not> is_run ev \<Longrightarrow> Q ev"
    and "\<And>d'. appendMode buff \<Longrightarrow> d = Some d' \<Longrightarrow> keeps (all_events Q) (executeCommands E d')"
  shows "keeps (all_events Q) (checkIssueNodeInfo E node jsoncfg buff deep d)"
  by (intro keeps_checkIssueNodeInfo keeps_run_node timeless_invs keeps_invoke assms keeps_uploadDebugoutput
      other keeps_all_events_prims) auto

lemma keeps_check_any:
  assumes I: "eventless I"
  shows "keeps I (checkIssueNodeInfo E node jsoncfg b deep d)"
proof -
  from I have t: "timeless I" "\<And>ev. keeps I (emit ev)" by (simp_all add: eventless_def)
  have invoke: "keeps I (invokeSanityandCommandExec E nd cfg buf dp)" for nd cfg buf dp
    unfolding invokeSanityandCommandExec_def Let_def
    by (intro keeps_bnd keeps_lift keeps_malloc_bnd keeps_if keeps_ret keeps_prod keeps_option t
        reads_keeps [OF t(1) reads_read_items] reads_keeps [OF t(1) reads_accepted_data]
        reads_keeps [OF t(1) reads_readAndParseJSON] keeps_executeCommands_any [OF I])
  show ?thesis
    by (intro keeps_checkIssueNodeInfo keeps_run_node t invoke keeps_executeCommands_any [OF I] keeps_upload_any [OF I])
qed

end
