(* ===== verification/RRD_Dynamic.thy ===== *)
theory RRD_Dynamic
  imports RRD_Profile
begin

text \<open>
  Profiles that are not on the device: \<^verbatim>\<open>src/src/rrdDynamic.c\<close>. A download request
  names the package, asks the download manager over the bus and remembers in the cache
  which issue waits for it; an installed package is searched for the issue. The buffers
  have the sizes that the length functions compute.
\<close>

section \<open>Model\<close>

definition profile_name :: "'j platform \<Rightarrow> string prog" where
  "profile_name E = bnd (malloc E) (\<lambda>mem. bnd (peek devPropData) (\<lambda>dev. ret (getRrdProfileName (bld E) mem dev)))"

text \<open>\<open>snprintf(p, n, ...)\<close> into a buffer of \<open>cap\<close> bytes.\<close>

definition buf_snprintf :: "nat \<Rightarrow> nat \<Rightarrow> string \<Rightarrow> fault + string" where
  "buf_snprintf cap n txt =
     (if n = 0 then Inr []
      else if min (length txt) (n - 1) + 1 > cap then Inl BufferOverflow
      else Inr (take (n - 1) txt))"

definition RRDGetDeepSleepdynJSONPathLen :: "'j platform \<Rightarrow> nat prog" where
  "RRDGetDeepSleepdynJSONPathLen E =
     bnd (profile_name E) (\<lambda>p. ret (length RRD_MEDIA_APPS + length RDM_PKG_PREFIX + length DEEP_SLEEP_STR
       + length p + length RRD_JSON_FILE + 1))"

definition RRDGetProfileStringLength :: "'j platform \<Rightarrow> string option \<Rightarrow> bool \<Rightarrow> int prog" where
  "RRDGetProfileStringLength E nd isDeepSleepAwakeEvent =
     (case nd of
        None \<Rightarrow> ret (-1)
      | Some n \<Rightarrow>
          (if min (length n) (RRD_DYNAMIC_PROFILE_MAX_LENGTH + 1) > RRD_DYNAMIC_PROFILE_MAX_LENGTH then ret (-1)
           else if isDeepSleepAwakeEvent
           then bnd (profile_name E) (\<lambda>p.
                let suffixlen = length RDM_PKG_SUFFIX + length DEEP_SLEEP_STR in
                ret (int (if p \<noteq> [] then length RDM_PKG_PREFIX + length p + suffixlen + 1
                          else length RDM_PKG_PREFIX + suffixlen) + 1))
           else ret (int (length RDM_PKG_PREFIX + length n + length RDM_PKG_SUFFIX) + 1)))"

text \<open>The package to install and the name under which it is remembered.\<close>

definition package_strings :: "'j platform \<Rightarrow> string option \<Rightarrow> bool \<Rightarrow> nat \<Rightarrow> (string \<times> string option) prog" where
  "package_strings E nd deep mSGLength =
     (if deep
      then bnd (profile_name E) (\<lambda>p.
           let param = fst (c_snprintf mSGLength (if p \<noteq> [] then RDM_PKG_PREFIX @ p @ ''-'' @ DEEP_SLEEP_STR @ RDM_PKG_SUFFIX
                                                   else RDM_PKG_PREFIX @ DEEP_SLEEP_STR @ RDM_PKG_SUFFIX));
               size = length RDM_PKG_PREFIX + length DEEP_SLEEP_STR + length RDM_PKG_SUFFIX
                      + (if p \<noteq> [] then length p + 1 else 0) in
           bnd (malloc E) (\<lambda>mem.
           ret (param, if mem then Some (c_strncpy (size - length RDM_PKG_SUFFIX) param) else None)))
      else bnd (lift (case nd of None \<Rightarrow> Inl NullDeref | Some n \<Rightarrow> Inr n)) (\<lambda>n.
           let param = fst (c_snprintf mSGLength (RDM_PKG_PREFIX @ n @ RDM_PKG_SUFFIX));
               size = length RDM_PKG_PREFIX + length n + 1 in
           bnd (malloc E) (\<lambda>mem.
           ret (param, if mem then Some (fst (c_snprintf size (RDM_PKG_PREFIX @ n))) else None))))"

text \<open>
  The issue that is remembered, with the append mark; the buffer for the marked string is
  used without a test for NULL.
\<close>

definition remember :: "'j platform \<Rightarrow> string \<Rightarrow> data_buf \<Rightarrow> unit prog" where
  "remember E msgDataString rbuf =
     bnd (lift (c_read (mdata rbuf))) (\<lambda>issue.
     bnd (if appendMode rbuf
          then bnd (malloc E) (\<lambda>mem. if mem then ret (issue @ APPEND_SUFFIX) else crash NullDeref)
          else ret issue) (\<lambda>d.
     bnd (strdup E msgDataString) (\<lambda>p. bnd (strdup E d) (\<lambda>i.
     bnd (malloc E) (\<lambda>mem. on_cache (append_item mem p i))))))"

definition RRDRdmManagerDownloadRequest ::
  "'j platform \<Rightarrow> issueNodeData \<Rightarrow> data_buf \<Rightarrow> bool \<Rightarrow> issueNodeData prog" where
  "RRDRdmManagerDownloadRequest E node rbuf isDeepSleepAwakeEvent =
     bnd (lift (str_arg (Node node))) (\<lambda>nd. bnd (lift (str_arg (subNode node))) (\<lambda>_.
     let deep = (IARMBUS_SUPPORT (bld E) \<and> isDeepSleepAwakeEvent) in
     bnd (RRDGetProfileStringLength E nd deep) (\<lambda>mSGLength.
     bnd (if mSGLength > 0
          then bnd (malloc E) (\<lambda>mem. if \<not> mem then ret () else
               bnd (package_strings E nd deep (nat mSGLength)) (\<lambda>(param, msg). case msg of
                 None \<Rightarrow> ret ()
               | Some msgDataString \<Rightarrow>
                   bnd (emit (EvRbusSet RDM_MGR_PKG_INST param)) (\<lambda>_.
                   bnd (ask (\<lambda>t. rbus_set_ok E t RDM_MGR_PKG_INST param)) (\<lambda>rc.
                   if rc then remember E msgDataString rbuf else ret ()))))
          else ret ()) (\<lambda>_.
     bnd (lift (free_null (Node node))) (\<lambda>n0. bnd (lift (free_null (subNode node))) (\<lambda>s0.
     ret \<lparr>Node = n0, subNode = s0\<rparr>))))))"

text \<open>\<open>free(p)\<close> without resetting the pointer.\<close>

definition free_stale :: "'a cptr \<Rightarrow> fault + 'a cptr" where
  "free_stale p = (case c_free p of Inl e \<Rightarrow> Inl e | Inr _ \<Rightarrow> Inr (case p of Null \<Rightarrow> Null | _ \<Rightarrow> Dangling))"

definition free_mdata :: "data_buf \<Rightarrow> fault + data_buf" where
  "free_mdata b = (case free_stale (mdata b) of Inl e \<Rightarrow> Inl e | Inr p \<Rightarrow> Inr (b\<lparr>mdata := p\<rparr>))"

definition free_mdata_path :: "data_buf \<Rightarrow> fault + data_buf" where
  "free_mdata_path b = (case free_mdata b of Inl e \<Rightarrow> Inl e
     | Inr b1 \<Rightarrow> (case free_stale (jsonPath b1) of Inl e \<Rightarrow> Inl e | Inr p \<Rightarrow> Inr (b1\<lparr>jsonPath := p\<rparr>)))"

definition RRDCheckIssueInDynamicProfile ::
  "'j platform \<Rightarrow> data_buf \<Rightarrow> issueNodeData \<Rightarrow> (string option \<times> data_buf) prog" where
  "RRDCheckIssueInDynamicProfile E rbuf node =
     (if \<not> inDynamic rbuf then ret (None, rbuf) else
      bnd (lift (str_arg (jsonPath rbuf))) (\<lambda>path. case path of
        None \<Rightarrow> bnd (lift (free_mdata rbuf)) (\<lambda>b. ret (None, b))
      | Some p \<Rightarrow>
          bnd (readAndParseJSON E p) (\<lambda>cfg. case cJSON_Print (json E) cfg of
            None \<Rightarrow> bnd (lift (free_mdata_path rbuf)) (\<lambda>b. ret (None, b))
          | Some jsonParsed \<Rightarrow>
              bnd (lift (findIssueInParsedJSON (json E) node (cJSON_Parse (json E) jsonParsed))) (\<lambda>found.
              if found then ret (Some jsonParsed, rbuf)
              else bnd (lift (free_mdata_path rbuf)) (\<lambda>b. ret (None, b))))))"

definition RRDProcessDeepSleepAwakeEvents :: "'j platform \<Rightarrow> data_buf \<Rightarrow> data_buf prog" where
  "RRDProcessDeepSleepAwakeEvents E rbuf =
     bnd (lift (str_arg (mdata rbuf))) (\<lambda>m. case m of
       None \<Rightarrow> ret rbuf
     | Some issue \<Rightarrow>
         bnd (malloc E) (\<lambda>mem. bnd (lift (getIssueInfo mem issue)) (\<lambda>node.
         (case dsEvent rbuf of
            RRD_DEEPSLEEP_RDM_DOWNLOAD_PKG_INITIATE \<Rightarrow>
              bnd (RRDGetDeepSleepdynJSONPathLen E) (\<lambda>dynJSONPathLen.
              bnd (malloc E) (\<lambda>got. if \<not> got then ret rbuf else
              bnd (profile_name E) (\<lambda>p. bnd (lift (c_read (Node node))) (\<lambda>n.
              bnd (lift (if p \<noteq> []
                         then buf_snprintf dynJSONPathLen (dynJSONPathLen + 1)
                                (RRD_MEDIA_APPS @ RDM_PKG_PREFIX @ p @ ''-'' @ n @ RRD_JSON_FILE)
                         else buf_snprintf dynJSONPathLen dynJSONPathLen
                                (RRD_MEDIA_APPS @ RDM_PKG_PREFIX @ n @ RRD_JSON_FILE))) (\<lambda>_.
              bnd (RRDRdmManagerDownloadRequest E node rbuf True) (\<lambda>_.
              lift (free_mdata rbuf)))))))
          | RRD_DEEPSLEEP_RDM_PKG_INSTALL_COMPLETE \<Rightarrow>
              (if inDynamic rbuf
               then bnd (RRDCheckIssueInDynamicProfile E rbuf node) (\<lambda>(jsonParsed, b). case jsonParsed of
                      None \<Rightarrow> ret b
                    | Some text \<Rightarrow>
                        bnd (checkIssueNodeInfo E node (cJSON_Parse (json E) text) b True None) (\<lambda>(b', _). ret b'))
               else ret rbuf)
          | RRD_DEEPSLEEP_INVALID_DEFAULT \<Rightarrow> ret rbuf))))"

section \<open>Requests\<close>

text \<open>The package that a request names.\<close>

definition package_name :: "build \<Rightarrow> devicePropertiesData \<Rightarrow> bool \<Rightarrow> string \<Rightarrow> string" where
  "package_name B dev deep n =
     (let p = getRrdProfileName B True dev in
      RDM_PKG_PREFIX @ (if IARMBUS_SUPPORT B \<and> deep then (if p = [] then [] else p @ ''-'') @ DEEP_SLEEP_STR else n))"

lemmas dyn_lengths = RDM_PKG_PREFIX_def RDM_PKG_SUFFIX_def DEEP_SLEEP_STR_def RRD_MEDIA_APPS_def RRD_JSON_FILE_def

lemma profile_name_mem:
  "\<forall>t. malloc_ok E t \<Longrightarrow>
   profile_name E w = Ret (getRrdProfileName (bld E) True (devPropData w)) (w\<lparr>tick := Suc (tick w)\<rparr>)"
  by (simp add: profile_name_def run_defs)

lemma free_null_live: "live p \<Longrightarrow> free_null p = Inr Null"
  by (cases p) (auto simp: free_null_def live_def)

lemma str_arg_live: "live p \<Longrightarrow> \<exists>x. str_arg p = Inr x"
  by (cases p) (auto simp: live_def)

lemma profile_length_mem:
  assumes "\<forall>t. malloc_ok E t"
  shows "\<exists>t. RRDGetProfileStringLength E (Some n) (IARMBUS_SUPPORT (bld E) \<and> deep) w =
    Ret (if length n \<le> 34 then int (length (package_name (bld E) (devPropData w) deep n @ RDM_PKG_SUFFIX)) + 1 else -1)
      (w\<lparr>tick := t\<rparr>)"
  by (rule exI [of _ "if length n \<le> 34 \<and> IARMBUS_SUPPORT (bld E) \<and> deep then Suc (tick w) else tick w"])
    (simp add: RRDGetProfileStringLength_def profile_name_mem [OF assms] bnd_def ret_def Let_def package_name_def
      RRD_DYNAMIC_PROFILE_MAX_LENGTH_def)

lemma package_strings_mem:
  assumes "\<forall>t. malloc_ok E t"
  shows "\<exists>t. package_strings E (Some n) (IARMBUS_SUPPORT (bld E) \<and> deep)
      (Suc (length (package_name (bld E) (devPropData w) deep n @ RDM_PKG_SUFFIX))) w =
    Ret (package_name (bld E) (devPropData w) deep n @ RDM_PKG_SUFFIX, Some (package_name (bld E) (devPropData w) deep n))
      (w\<lparr>tick := t\<rparr>)"
  using assms
  by (auto simp: package_strings_def profile_name_mem [OF assms] run_defs Let_def package_name_def c_snprintf_def c_strncpy_def)

lemma remember_mem:
  assumes mem: "\<forall>t. malloc_ok E t" and m: "mdata rbuf = Own issue" and rep: "cache_rep (cache w) its"
  shows "\<exists>w'. remember E p rbuf w = Ret () w' \<and> trace w' = trace w \<and> mq w' = mq w \<and> devPropData w' = devPropData w
    \<and> cache_rep (cache w') ((Own p, Own (if appendMode rbuf then issue @ APPEND_SUFFIX else issue)) # its)"
proof -
  let ?d = "if appendMode rbuf then issue @ APPEND_SUFFIX else issue"
  from rep obtain cs where cs: "append_item True (Own p) (Own ?d) (cache w) = Inr cs"
    "cache_rep cs ((Own p, Own ?d) # its)"
    using cache_rep_append [of "cache w" its "Own p" "Own ?d"] by (auto simp: live_def)
  from mem m cs show ?thesis
    by (auto simp: remember_def strdup_def run_defs on_cache_def)
qed

text \<open>A request on a platform with memory, for any answer of the bus.\<close>

lemma download_request_mem:
  assumes mem: "\<forall>t. malloc_ok E t" and "live s" and m: "mdata rbuf = Own issue" and rep: "cache_rep (cache w) its"
  shows "\<exists>w'. RRDRdmManagerDownloadRequest E \<lparr>Node = Own n, subNode = s\<rparr> rbuf deep w = Ret \<lparr>Node = Null, subNode = Null\<rparr> w'
    \<and> mq w' = mq w \<and> devPropData w' = devPropData w
    \<and> (let pkg = package_name (bld E) (devPropData w) deep n in
       if length n \<le> 34
       then trace w' = trace w @ [EvRbusSet RDM_MGR_PKG_INST (pkg @ RDM_PKG_SUFFIX)]
            \<and> (\<exists>t. if rbus_set_ok E t RDM_MGR_PKG_INST (pkg @ RDM_PKG_SUFFIX)
                then cache_rep (cache w') ((Own pkg, Own (if appendMode rbuf then issue @ APPEND_SUFFIX else issue)) # its)
                else cache w' = cache w)
       else trace w' = trace w \<and> cache w' = cache w)"
proof -
  let ?pkg = "package_name (bld E) (devPropData w) deep n"
  let ?deep = "IARMBUS_SUPPORT (bld E) \<and> deep"
  obtain sn where sn: "str_arg s = Inr sn" using str_arg_live [OF \<open>live s\<close>] by blast
  have fr: "free_null s = Inr Null" "free_null (Own n) = Inr Null"
    using \<open>live s\<close> by (auto simp: free_null_live live_def)
  obtain t1 where len: "RRDGetProfileStringLength E (Some n) ?deep w =
      Ret (if length n \<le> 34 then int (length (?pkg @ RDM_PKG_SUFFIX)) + 1 else -1) (w\<lparr>tick := t1\<rparr>)"
    using profile_length_mem [OF mem] by blast
  show ?thesis
  proof (cases "length n \<le> 34")
    case False
    with len sn fr show ?thesis
      by (auto simp: RRDRdmManagerDownloadRequest_def Let_def run_defs)
  next
    case True
    let ?w2 = "w\<lparr>tick := Suc t1\<rparr>"
    obtain t2 where str: "package_strings E (Some n) ?deep (Suc (length (?pkg @ RDM_PKG_SUFFIX))) ?w2 =
        Ret (?pkg @ RDM_PKG_SUFFIX, Some ?pkg) (w\<lparr>tick := t2\<rparr>)"
      using package_strings_mem [OF mem, of n deep ?w2] by auto
    let ?w3 = "w\<lparr>trace := trace w @ [EvRbusSet RDM_MGR_PKG_INST (?pkg @ RDM_PKG_SUFFIX)], tick := Suc t2\<rparr>"
    obtain w4 where r: "remember E ?pkg rbuf ?w3 = Ret () w4" "trace w4 = trace ?w3" "mq w4 = mq w"
      "devPropData w4 = devPropData w" "cache_rep (cache w4) ((Own ?pkg, Own (if appendMode rbuf then issue @ APPEND_SUFFIX else issue)) # its)"
      using remember_mem [OF mem m, of ?w3 its ?pkg] rep by auto
    have "nat (int (length (?pkg @ RDM_PKG_SUFFIX)) + 1) = Suc (length (?pkg @ RDM_PKG_SUFFIX))" by simp
    note nat_len = this
    show ?thesis
    proof (cases "rbus_set_ok E t2 RDM_MGR_PKG_INST (?pkg @ RDM_PKG_SUFFIX)")
      case bus: True
      have "RRDRdmManagerDownloadRequest E \<lparr>Node = Own n, subNode = s\<rparr> rbuf deep w =
          Ret \<lparr>Node = Null, subNode = Null\<rparr> w4"
        using True mem bus by (simp add: RRDRdmManagerDownloadRequest_def Let_def run_defs sn fr len nat_len str
            r(1) del: length_append)
      with True bus r(2-) show ?thesis by (auto simp: Let_def)
    next
      case bus: False
      have "RRDRdmManagerDownloadRequest E \<lparr>Node = Own n, subNode = s\<rparr> rbuf deep w =
          Ret \<lparr>Node = Null, subNode = Null\<rparr> ?w3"
        using True mem bus by (simp add: RRDRdmManagerDownloadRequest_def Let_def run_defs sn fr len nat_len str
            del: length_append)
      with True bus show ?thesis by (auto simp: Let_def)
    qed
  qed
qed

section \<open>What the requests keep\<close>

lemma keeps_profile_name: "timeless I \<Longrightarrow> keeps I (profile_name E)"
  unfolding profile_name_def by (intro keeps_malloc_bnd keeps_bnd keeps_peek keeps_ret)

lemma keeps_remember:
  assumes "timeless I" and "\<And>mem p i. live p \<Longrightarrow> live i \<Longrightarrow> keeps I (on_cache (append_item mem p i))"
  shows "keeps I (remember E p rbuf)"
  unfolding remember_def strdup_def bnd_simps
  by (intro keeps_lift_bnd keeps_bnd [OF keeps_if] keeps_malloc_bnd keeps_if keeps_ret keeps_crash assms)
    (auto simp: live_def)

lemma keeps_download_request:
  assumes I: "timeless I" and ev: "\<And>p. keeps I (emit (EvRbusSet RDM_MGR_PKG_INST p))"
    and cache: "\<And>mem p i. live p \<Longrightarrow> live i \<Longrightarrow> keeps I (on_cache (append_item mem p i))"
  shows "keeps I (RRDRdmManagerDownloadRequest E node rbuf deep)"
  unfolding RRDRdmManagerDownloadRequest_def RRDGetProfileStringLength_def package_strings_def Let_def
  by (intro keeps_bnd keeps_lift keeps_ret keeps_option keeps_if keeps_malloc_bnd keeps_ask_bnd keeps_prod
      keeps_profile_name keeps_remember ev cache I)

lemma keeps_cache_append:
  assumes "live p" "live i"
  shows "keeps cache_wf (on_cache (append_item mem p i))"
proof (rule keeps_on_cache)
  fix w cs
  assume w: "cache_wf w" "append_item mem p i (cache w) = Inr cs"
  then obtain its where "cache_rep (cache w) its" by (auto simp: cache_wf_def)
  with w assms cache_rep_append [of "cache w" its p i] show "cache_wf (w\<lparr>cache := cs\<rparr>)"
    by (cases mem) (auto simp: cache_wf_def append_item_fail)
qed

lemma keeps_check_dynamic: "timeless I \<Longrightarrow> keeps I (RRDCheckIssueInDynamicProfile E rbuf node)"
  unfolding RRDCheckIssueInDynamicProfile_def
  by (intro keeps_if keeps_bnd keeps_lift keeps_ret keeps_option reads_keeps [OF _ reads_readAndParseJSON])

lemma keeps_ds_event:
  "keeps I a \<Longrightarrow> keeps I b \<Longrightarrow> keeps I c \<Longrightarrow>
   keeps I (case e of RRD_DEEPSLEEP_INVALID_DEFAULT \<Rightarrow> a | RRD_DEEPSLEEP_RDM_DOWNLOAD_PKG_INITIATE \<Rightarrow> b
            | RRD_DEEPSLEEP_RDM_PKG_INSTALL_COMPLETE \<Rightarrow> c)"
  by (cases e) auto

lemma keeps_deepsleep:
  assumes I: "timeless I" and ev: "\<And>p. keeps I (emit (EvRbusSet RDM_MGR_PKG_INST p))"
    and cache: "\<And>mem p i. live p \<Longrightarrow> live i \<Longrightarrow> keeps I (on_cache (append_item mem p i))"
    and run: "\<And>node cfg b. keeps I (checkIssueNodeInfo E node cfg b True None)"
  shows "keeps I (RRDProcessDeepSleepAwakeEvents E rbuf)"
  unfolding RRDProcessDeepSleepAwakeEvents_def RRDGetDeepSleepdynJSONPathLen_def
  by (intro keeps_bnd keeps_lift keeps_ret keeps_option keeps_if keeps_malloc_bnd keeps_prod keeps_ds_event
      keeps_profile_name keeps_download_request keeps_check_dynamic assms)

section \<open>Properties\<close>

lemma deepsleep_node: "getIssueInfo True DEEP_SLEEP_STR = Inr \<lparr>Node = Own DEEP_SLEEP_STR, subNode = Null\<rparr>"
  by code_simp

text \<open>
  A download request for a node of at most 34 characters sends exactly one install
  request, for the package named after the node (or, for a deep-sleep request of an IARM
  build, after the device profile), and if the bus accepts it the cache has one new entry
  in front: this package with the issue that asked, marked when it is an append request.
  A longer node sends nothing. The node is freed once and reset in every case.
\<close>

theorem download_request_remembered:
  assumes "\<forall>t. malloc_ok E t" and "live s" and "mdata rbuf = Own issue" and "cache_rep (cache w) its"
  shows "\<exists>w'. RRDRdmManagerDownloadRequest E \<lparr>Node = Own n, subNode = s\<rparr> rbuf deep w = Ret \<lparr>Node = Null, subNode = Null\<rparr> w'
    \<and> mq w' = mq w
    \<and> (let pkg = package_name (bld E) (devPropData w) deep n in
       if length n \<le> 34
       then trace w' = trace w @ [EvRbusSet RDM_MGR_PKG_INST (pkg @ RDM_PKG_SUFFIX)]
            \<and> (\<exists>t. if rbus_set_ok E t RDM_MGR_PKG_INST (pkg @ RDM_PKG_SUFFIX)
                then cache_rep (cache w') ((Own pkg, Own (if appendMode rbuf then issue @ APPEND_SUFFIX else issue)) # its)
                else cache w' = cache w)
       else trace w' = trace w \<and> cache w' = cache w)"
  using download_request_mem [OF assms, of n deep] by blast

definition bench_build :: build where
  "bench_build = \<lparr>IARMBUS_SUPPORT = True, PWRMGR_PLUGIN = True, USE_L2_SUPPORT = False, RRD_DEVICE_PROFILE = ''XI6,XG1''\<rparr>"

definition bench :: "(string \<Rightarrow> string option) \<Rightarrow> jnode platform" where
  "bench files = calm bench_build (doc_api (\<lambda>_. None)) files"

theorem download_request_remembered_witness:
  "\<exists>w'. RRDRdmManagerDownloadRequest (bench (\<lambda>_. None)) \<lparr>Node = Own ''Audio'', subNode = Own ''Mute''\<rparr>
       ((RRD_data_buff_init EVENT_MSG RRD_DEEPSLEEP_INVALID_DEFAULT)\<lparr>mdata := Own ''Audio.Mute'', appendMode := True\<rparr>)
       False fresh_world = Ret \<lparr>Node = Null, subNode = Null\<rparr> w'
    \<and> trace w' = [EvRbusSet RDM_MGR_PKG_INST ''RDK-RRD-Audio:1.0'']
    \<and> cache_rep (cache w') [(Own ''RDK-RRD-Audio'', Own ''Audio.Mute_apnd'')]"
proof -
  let ?b = "(RRD_data_buff_init EVENT_MSG RRD_DEEPSLEEP_INVALID_DEFAULT)\<lparr>mdata := Own ''Audio.Mute'', appendMode := True\<rparr>"
  have "\<forall>t. malloc_ok (bench (\<lambda>_. None)) t" "live (Own ''Mute'')" "mdata ?b = Own ''Audio.Mute''"
    "cache_rep (cache fresh_world) []"
    by (simp_all add: bench_def live_def cache_rep_start)
  from download_request_remembered [OF this, of "''Audio''" False] show ?thesis
    by (auto simp: Let_def package_name_def bench_def dyn_lengths APPEND_SUFFIX_def)
qed

text \<open>
  C28: The deep-sleep download request. On a device whose type is in the profile list the
  path of the dynamic profile is one byte longer than its buffer and the daemon writes
  behind it before any request is sent; on other devices the request is sent and the
  issue string is freed.
\<close>

theorem deepsleep_request_overflow:
  assumes "\<forall>t. malloc_ok E t" and "cache_rep (cache w) its"
    and "dsEvent rbuf = RRD_DEEPSLEEP_RDM_DOWNLOAD_PKG_INITIATE" and "mdata rbuf = Own DEEP_SLEEP_STR"
  shows "if getRrdProfileName (bld E) True (devPropData w) = []
    then \<exists>w'. RRDProcessDeepSleepAwakeEvents E rbuf w = Ret (rbuf\<lparr>mdata := Dangling\<rparr>) w'
           \<and> trace w' = trace w @ [EvRbusSet RDM_MGR_PKG_INST ''RDK-RRD-DEEPSLEEP:1.0'']
    else \<exists>w'. RRDProcessDeepSleepAwakeEvents E rbuf w = Crash BufferOverflow w' \<and> trace w' = trace w"
proof (cases "getRrdProfileName (bld E) True (devPropData w) = []")
  case True
  let ?n = "\<lparr>Node = Own DEEP_SLEEP_STR, subNode = Null\<rparr>"
  have fits: "buf_snprintf 60 60 (RRD_MEDIA_APPS @ RDM_PKG_PREFIX @ DEEP_SLEEP_STR @ RRD_JSON_FILE)
      = Inr (RRD_MEDIA_APPS @ RDM_PKG_PREFIX @ DEEP_SLEEP_STR @ RRD_JSON_FILE)"
    by (simp add: buf_snprintf_def dyn_lengths)
  have "RRDProcessDeepSleepAwakeEvents E rbuf w =
      bnd (RRDRdmManagerDownloadRequest E ?n rbuf True) (\<lambda>_. lift (free_mdata rbuf)) (w\<lparr>tick := Suc (Suc (Suc (Suc (tick w))))\<rparr>)"
    using assms True deepsleep_node fits
    by (simp add: RRDProcessDeepSleepAwakeEvents_def RRDGetDeepSleepdynJSONPathLen_def profile_name_mem run_defs dyn_lengths
        buf_snprintf_def)
  moreover obtain w' where "RRDRdmManagerDownloadRequest E ?n rbuf True (w\<lparr>tick := Suc (Suc (Suc (Suc (tick w))))\<rparr>) = Ret \<lparr>Node = Null, subNode = Null\<rparr> w'"
    "trace w' = trace w @ [EvRbusSet RDM_MGR_PKG_INST ''RDK-RRD-DEEPSLEEP:1.0'']"
    using download_request_mem [OF assms(1), of Null rbuf DEEP_SLEEP_STR "w\<lparr>tick := Suc (Suc (Suc (Suc (tick w))))\<rparr>" its DEEP_SLEEP_STR True] assms True
    by (auto simp: live_def Let_def package_name_def dyn_lengths)
  ultimately show ?thesis using True assms(4) by (simp add: bnd_def lift_def free_mdata_def free_stale_def)
next
  case False
  with assms deepsleep_node show ?thesis
    by (simp add: RRDProcessDeepSleepAwakeEvents_def RRDGetDeepSleepdynJSONPathLen_def profile_name_mem run_defs
        buf_snprintf_def dyn_lengths)
qed

theorem deepsleep_request_overflow_witness:
  "\<exists>w'. RRDProcessDeepSleepAwakeEvents (bench (\<lambda>_. None))
     ((RRD_data_buff_init DEEPSLEEP_EVENT_MSG RRD_DEEPSLEEP_RDM_DOWNLOAD_PKG_INITIATE)\<lparr>mdata := Own DEEP_SLEEP_STR\<rparr>)
     (fresh_world\<lparr>devPropData := \<lparr>deviceType = Some ''XG1''\<rparr>\<rparr>) = Crash BufferOverflow w' \<and> trace w' = []"
proof -
  let ?b = "(RRD_data_buff_init DEEPSLEEP_EVENT_MSG RRD_DEEPSLEEP_RDM_DOWNLOAD_PKG_INITIATE)\<lparr>mdata := Own DEEP_SLEEP_STR\<rparr>"
  let ?w = "fresh_world\<lparr>devPropData := \<lparr>deviceType = Some ''XG1''\<rparr>\<rparr>"
  have "getRrdProfileName bench_build True \<lparr>deviceType = Some ''XG1''\<rparr> \<noteq> []" by code_simp
  moreover have "\<forall>t. malloc_ok (bench (\<lambda>_. None)) t" "cache_rep (cache ?w) []"
    "dsEvent ?b = RRD_DEEPSLEEP_RDM_DOWNLOAD_PKG_INITIATE" "mdata ?b = Own DEEP_SLEEP_STR"
    by (simp_all add: bench_def cache_rep_start RRD_data_buff_init_def)
  ultimately show ?thesis
    using deepsleep_request_overflow [of "bench (\<lambda>_. None)" ?w "[]" ?b]
    by (simp add: bench_def)
qed

end
