(* ===== verification/RRD_Event.thy ===== *)
theory RRD_Event
  imports RRD_Dynamic
begin

text \<open>
  Event processing: \<^verbatim>\<open>src/src/rrdEventProcess.c\<close>. A message carries a list of issues; each
  is split into base and suffix, cleaned, and looked up in the profile of a package, in
  the built-in profile or in an installed package; what is found nowhere is requested
  from the download manager. An append request joins the commands of both profiles.
  The per-issue buffer and node are threaded through the calls that free them.
\<close>

section \<open>Model\<close>

definition COMMAND_DELIM :: char where
  "COMMAND_DELIM = CHR '';''"

text \<open>Where the profile of an installed package is.\<close>

definition dyn_json_path :: "build \<Rightarrow> string \<Rightarrow> string" where
  "dyn_json_path B n = (if IARMBUS_SUPPORT B then RRD_MEDIA_APPS else RRD_TMP_DIR) @ RDM_PKG_PREFIX @ n @ RRD_JSON_FILE"

definition processIssueTypeInInstalledPackage ::
  "'j platform \<Rightarrow> data_buf \<Rightarrow> issueNodeData \<Rightarrow> (data_buf \<times> issueNodeData) prog" where
  "processIssueTypeInInstalledPackage E rbuf pIssueNode =
     bnd (lift (c_read (Node pIssueNode))) (\<lambda>n.
     bnd (malloc E) (\<lambda>mem. if \<not> mem then ret (rbuf, pIssueNode) else
     bnd (readAndParseJSON E (dyn_json_path (bld E) n)) (\<lambda>jsonParsed.
     if jsonParsed = None
     then bnd (RRDRdmManagerDownloadRequest E pIssueNode rbuf False) (\<lambda>node. ret (rbuf, node))
     else bnd (lift (findIssueInParsedJSON (json E) pIssueNode jsonParsed)) (\<lambda>isDynamicIssue.
          if isDynamicIssue
          then checkIssueNodeInfo E pIssueNode jsonParsed rbuf False None
          else bnd (RRDRdmManagerDownloadRequest E pIssueNode rbuf False) (\<lambda>node. ret (rbuf, node))))))"

definition processIssueTypeInStaticProfile ::
  "'j platform \<Rightarrow> data_buf \<Rightarrow> issueNodeData \<Rightarrow> (data_buf \<times> issueNodeData) prog" where
  "processIssueTypeInStaticProfile E rbuf pIssueNode =
     bnd (readAndParseJSON E RRD_JSON_FILE) (\<lambda>jsonParsed.
     if jsonParsed = None then processIssueTypeInInstalledPackage E rbuf pIssueNode
     else bnd (lift (findIssueInParsedJSON (json E) pIssueNode jsonParsed)) (\<lambda>isStaticIssue.
          if isStaticIssue then checkIssueNodeInfo E pIssueNode jsonParsed rbuf False None
          else processIssueTypeInInstalledPackage E rbuf pIssueNode))"

text \<open>\<open>free(p); p = NULL\<close> on the message and the path of a buffer.\<close>

definition drop_mdata :: "data_buf \<Rightarrow> fault + data_buf" where
  "drop_mdata b = (case free_null (mdata b) of Inl e \<Rightarrow> Inl e | Inr p \<Rightarrow> Inr (b\<lparr>mdata := p\<rparr>))"

definition drop_mdata_path :: "data_buf \<Rightarrow> fault + data_buf" where
  "drop_mdata_path b = (case drop_mdata b of Inl e \<Rightarrow> Inl e
     | Inr b1 \<Rightarrow> (case free_null (jsonPath b1) of Inl e \<Rightarrow> Inl e | Inr p \<Rightarrow> Inr (b1\<lparr>jsonPath := p\<rparr>)))"

definition processIssueTypeInDynamicProfile ::
  "'j platform \<Rightarrow> data_buf \<Rightarrow> issueNodeData \<Rightarrow> (data_buf \<times> issueNodeData) prog" where
  "processIssueTypeInDynamicProfile E rbuf pIssueNode =
     bnd (lift (str_arg (jsonPath rbuf))) (\<lambda>path. case path of
       None \<Rightarrow> bnd (lift (drop_mdata rbuf)) (\<lambda>b. ret (b, pIssueNode))
     | Some p \<Rightarrow>
         bnd (readAndParseJSON E p) (\<lambda>jsonParsed.
         if jsonParsed = None then bnd (lift (drop_mdata_path rbuf)) (\<lambda>b. ret (b, pIssueNode))
         else bnd (lift (findIssueInParsedJSON (json E) pIssueNode jsonParsed)) (\<lambda>isDynamicIssue.
              if \<not> isDynamicIssue then bnd (lift (drop_mdata_path rbuf)) (\<lambda>b. ret (b, pIssueNode))
              else checkIssueNodeInfo E pIssueNode jsonParsed rbuf False None)))"

text \<open>
  The command information of an append request. Its fields are logged without a test, so
  that missing information is dereferenced.
\<close>

definition command_info :: "'j platform \<Rightarrow> data_buf \<Rightarrow> issueNodeData \<Rightarrow> 'j option \<Rightarrow> issueData prog" where
  "command_info E rbuf pIssueNode jsonParsed =
     bnd (lift (c_read (mdata rbuf))) (\<lambda>issue.
     bnd (getIssueCommandInfo E pIssueNode jsonParsed issue) (\<lambda>d. case d of None \<Rightarrow> crash NullDeref | Some x \<Rightarrow> ret x))"

definition processIssueTypeInDynamicProfileappend ::
  "'j platform \<Rightarrow> data_buf \<Rightarrow> issueNodeData \<Rightarrow> (issueData option \<times> issueNodeData) prog" where
  "processIssueTypeInDynamicProfileappend E rbuf pIssueNode =
     bnd (lift (c_read (Node pIssueNode))) (\<lambda>n.
     bnd (malloc E) (\<lambda>mem. if \<not> mem then ret (None, pIssueNode) else
     bnd (readAndParseJSON E (dyn_json_path (bld E) n)) (\<lambda>jsonParsed.
     if jsonParsed = None
     then bnd (RRDRdmManagerDownloadRequest E pIssueNode rbuf False) (\<lambda>node. ret (None, node))
     else bnd (lift (findIssueInParsedJSON (json E) pIssueNode jsonParsed)) (\<lambda>isDynamicIssue.
          if isDynamicIssue
          then bnd (command_info E rbuf pIssueNode jsonParsed) (\<lambda>d. ret (Some d, pIssueNode))
          else ret (None, pIssueNode)))))"

definition processIssueTypeInStaticProfileappend ::
  "'j platform \<Rightarrow> data_buf \<Rightarrow> issueNodeData \<Rightarrow> issueData option prog" where
  "processIssueTypeInStaticProfileappend E rbuf pIssueNode =
     bnd (readAndParseJSON E RRD_JSON_FILE) (\<lambda>jsonParsed.
     if jsonParsed = None then ret None
     else bnd (lift (findIssueInParsedJSON (json E) pIssueNode jsonParsed)) (\<lambda>isStaticIssue.
          if isStaticIssue then bnd (command_info E rbuf pIssueNode jsonParsed) (\<lambda>d. ret (Some d)) else ret None))"

text \<open>
  Joining the two quoted commands: the closing quote of the static one is cut off, the
  opening quote of the dynamic one becomes the delimiter. The length of the buffer is the
  sum of both lengths and the terminator.
\<close>

definition join_commands :: "string \<Rightarrow> string \<Rightarrow> string" where
  "join_commands static dynamic =
     (if static \<noteq> [] \<and> last static = QUOTE then butlast static else static)
     @ (if c_at dynamic 0 = QUOTE then COMMAND_DELIM # tl dynamic else dynamic)"

definition process_append ::
  "'j platform \<Rightarrow> data_buf \<Rightarrow> issueNodeData \<Rightarrow> (data_buf \<times> issueNodeData) prog" where
  "process_append E rbuf pIssueNode =
     bnd (processIssueTypeInDynamicProfileappend E rbuf pIssueNode) (\<lambda>(dynamicprofiledata, node).
     case dynamicprofiledata of
       None \<Rightarrow> ret (rbuf, node)
     | Some d \<Rightarrow>
         bnd (processIssueTypeInStaticProfileappend E rbuf node) (\<lambda>staticprofiledata.
         case staticprofiledata of
           None \<Rightarrow> ret (rbuf, node)
         | Some s \<Rightarrow>
             (case (command d, command s) of
                (Some dc, Some sc) \<Rightarrow>
                  bnd (malloc E) (\<lambda>mem. if \<not> mem then ret (rbuf, node) else
                  checkIssueNodeInfo E node None rbuf False (Some (s\<lparr>command := Some (join_commands sc dc)\<rparr>)))
              | _ \<Rightarrow> ret (rbuf, node))))"

definition processIssueType :: "'j platform \<Rightarrow> data_buf \<Rightarrow> data_buf prog" where
  "processIssueType E rbuf =
     bnd (lift (str_arg (mdata rbuf))) (\<lambda>m. case m of
       None \<Rightarrow> ret rbuf
     | Some issue \<Rightarrow>
         bnd (malloc E) (\<lambda>got. if \<not> got then ret rbuf else
         bnd (malloc E) (\<lambda>mem. bnd (lift (getIssueInfo mem issue)) (\<lambda>pIssueNode.
         bnd (if appendMode rbuf then process_append E rbuf pIssueNode
              else if inDynamic rbuf then processIssueTypeInDynamicProfile E rbuf pIssueNode
              else processIssueTypeInStaticProfile E rbuf pIssueNode) (\<lambda>(b, node).
         bnd (lift (free_null (Node node))) (\<lambda>_. bnd (lift (free_null (subNode node))) (\<lambda>_. ret b)))))))"

text \<open>The buffer of one issue; NULL when the path cannot be copied.\<close>

definition issue_buffer :: "'j platform \<Rightarrow> data_buf \<Rightarrow> string \<Rightarrow> string \<Rightarrow> data_buf option prog" where
  "issue_buffer E rbuf base sfx =
     bnd (if inDynamic rbuf \<and> jsonPath rbuf \<noteq> Null
          then bnd (lift (c_read (jsonPath rbuf))) (strdup E) else ret Null) (\<lambda>path.
     let cmdBuff = (RRD_data_buff_init EVENT_MSG RRD_DEEPSLEEP_INVALID_DEFAULT)\<lparr>inDynamic := inDynamic rbuf, jsonPath := path\<rparr> in
     if inDynamic rbuf \<and> jsonPath rbuf \<noteq> Null \<and> path = Null
     then bnd (lift (RRD_data_buff_deAlloc cmdBuff)) (\<lambda>_. ret None)
     else bnd (strdup E base) (\<lambda>m.
          bnd (if sfx \<noteq> [] then strdup E sfx else ret Null) (\<lambda>s.
          ret (Some (cmdBuff\<lparr>appendMode := appendMode rbuf, mdata := m, suffix_of := s\<rparr>)))))"

definition process_token :: "'j platform \<Rightarrow> data_buf \<Rightarrow> string \<Rightarrow> unit prog" where
  "process_token E rbuf token =
     bnd (malloc E) (\<lambda>mem. if \<not> mem then ret () else
     (case split_issue_type (Some token) (Some (128, [])) (Some (128, [])) of
        (Some base0, Some local_suffix) \<Rightarrow>
          (let base = removeSpecialCharacterfromIssueTypeList base0 in
           if base0 = [] \<or> base = [] then ret () else
           bnd (issue_buffer E rbuf base local_suffix) (\<lambda>cb. case cb of
             None \<Rightarrow> ret ()
           | Some cmdBuff \<Rightarrow>
               bnd (if mdata cmdBuff \<noteq> Null then processIssueType E cmdBuff else ret cmdBuff) (\<lambda>b.
               lift (RRD_data_buff_deAlloc b))))
      | _ \<Rightarrow> ret ()))"

fun process_tokens :: "'j platform \<Rightarrow> data_buf \<Rightarrow> string list \<Rightarrow> unit prog" where
  "process_tokens E rbuf [] = ret ()"
| "process_tokens E rbuf (token # tokens) = bnd (process_token E rbuf token) (\<lambda>_. process_tokens E rbuf tokens)"

text \<open>
  The issue list is cut into copies. The result of the allocation of a piece is not
  tested before the piece is copied into it.
\<close>

fun its_loop :: "'j platform \<Rightarrow> nat \<Rightarrow> char \<Rightarrow> string \<Rightarrow> string list prog" where
  "its_loop E 0 d str = ret []"
| "its_loop E (Suc n) d str =
     bnd (malloc E) (\<lambda>mem. if \<not> mem then crash NullDeref else
     bnd (its_loop E n d (dropWhile (\<lambda>c. c = d) (dropWhile (\<lambda>c. c \<noteq> d) str))) (\<lambda>args.
     ret (takeWhile (\<lambda>c. c \<noteq> d) str # args)))"

definition issueTypeSplitter :: "'j platform \<Rightarrow> string \<Rightarrow> char \<Rightarrow> string list prog" where
  "issueTypeSplitter E input_str delimeter =
     (let str = dropWhile (\<lambda>c. c = delimeter) input_str;
          cnt = 1 + its_count delimeter str
      in bnd (malloc E) (\<lambda>mem. if mem then its_loop E cnt delimeter str else ret []))"

definition processIssueTypeEvent :: "'j platform \<Rightarrow> data_buf \<Rightarrow> unit prog" where
  "processIssueTypeEvent E rbuf =
     bnd (lift (c_read (mdata rbuf))) (\<lambda>issues.
     bnd (issueTypeSplitter E issues (CHR '','')) (process_tokens E rbuf))"

section \<open>The issue list splitter\<close>

lemma its_loop_run:
  "its_loop E n d s w =
     (if \<forall>i<n. malloc_ok E (tick w + i) then Ret (its_pieces n d s) (w\<lparr>tick := tick w + n\<rparr>)
      else Crash NullDeref (w\<lparr>tick := tick w + Suc (LEAST i. \<not> malloc_ok E (tick w + i))\<rparr>))"
proof (induction n arbitrary: s w)
  case (Suc n)
  have all: "(\<forall>i<Suc n. malloc_ok E (tick w + i)) \<longleftrightarrow> malloc_ok E (tick w) \<and> (\<forall>i<n. malloc_ok E (Suc (tick w) + i))"
    by (auto simp: All_less_Suc2)
  show ?case
  proof (cases "malloc_ok E (tick w)")
    case False
    then have "(LEAST i. \<not> malloc_ok E (tick w + i)) = 0" by (intro Least_equality) auto
    with False show ?thesis by (simp add: all run_defs)
  next
    case True
    have "(LEAST i. \<not> malloc_ok E (tick w + i)) = Suc (LEAST i. \<not> malloc_ok E (Suc (tick w) + i))"
      if "\<not> malloc_ok E (Suc (tick w) + i)" for i
      using that True Least_Suc [of "\<lambda>i. \<not> malloc_ok E (tick w + i)" "Suc i"] by simp
    with True show ?thesis by (auto simp: all Suc.IH run_defs)
  qed
qed (simp add: ret_def)

lemma issueTypeSplitter_run:
  assumes "d \<noteq> NUL" and "NUL \<notin> set s"
  defines "ts \<equiv> if c_tokens d s = [] then [[]] else c_tokens d s"
  shows "issueTypeSplitter E s d w =
     (if \<not> malloc_ok E (tick w) then Ret [] (w\<lparr>tick := tick w + 1\<rparr>)
      else if \<forall>i<length ts. malloc_ok E (tick w + 1 + i) then Ret ts (w\<lparr>tick := tick w + 1 + length ts\<rparr>)
      else Crash NullDeref (w\<lparr>tick := tick w + 2 + (LEAST i. \<not> malloc_ok E (tick w + 1 + i))\<rparr>))"
proof -
  let ?s = "dropWhile (\<lambda>c. c = d) s"
  have pieces: "its_pieces (1 + its_count d ?s) d ?s = ts" unfolding ts_def by (rule its_pieces_counted [OF assms(1,2)])
  have "length (its_pieces n d t) = n" for n t by (induction n arbitrary: t) auto
  then have n: "1 + its_count d ?s = length ts" by (metis pieces)
  show ?thesis using pieces unfolding issueTypeSplitter_def Let_def n bnd_def malloc_def ask_def
    by (auto simp: its_loop_run ret_def)
qed

section \<open>Invariants of event processing\<close>

text \<open>
  What the processing of a message may do: run an issue, run a joined command, ask for a
  package and remember it. An invariant that survives these survives every message.
\<close>

definition joint :: "'j cjson_api \<Rightarrow> string \<Rightarrow> bool" where
  "joint J c \<longleftrightarrow> (\<exists>scfg s dcfg d. accepted J scfg s \<and> accepted J dcfg d \<and> c = join_commands s d)"

definition cleared :: "'j cjson_api \<Rightarrow> issueData \<Rightarrow> bool" where
  "cleared J d \<longleftrightarrow> (\<forall>c. command d = Some c \<longrightarrow> (\<exists>cfg. accepted J cfg c))"

locale step_invariant =
  fixes E :: "'j platform" and app :: bool and I :: "world \<Rightarrow> bool"
  assumes timeless: "timeless I"
    and request: "keeps I (emit (EvRbusSet RDM_MGR_PKG_INST p))"
    and remember: "live pkg \<Longrightarrow> live i \<Longrightarrow> keeps I (on_cache (append_item mem pkg i))"
    and run: "keeps I (checkIssueNodeInfo E node cfg b deep None)"
    and run_joint: "app \<Longrightarrow> command d = Some c \<Longrightarrow> joint (json E) c \<Longrightarrow>
          keeps I (checkIssueNodeInfo E node None b False (Some d))"
begin

lemmas basics = timeless request remember

lemma keeps_request: "keeps I (RRDRdmManagerDownloadRequest E node b deep)"
  by (intro keeps_download_request basics)

lemma keeps_read: "keeps I (readAndParseJSON E f)"
  by (rule reads_keeps [OF timeless reads_readAndParseJSON])

lemma keeps_installed: "keeps I (processIssueTypeInInstalledPackage E b node)"
  unfolding processIssueTypeInInstalledPackage_def
  by (intro keeps_bnd keeps_lift keeps_malloc_bnd keeps_if keeps_ret keeps_read keeps_request run timeless)

lemma keeps_static: "keeps I (processIssueTypeInStaticProfile E b node)"
  unfolding processIssueTypeInStaticProfile_def
  by (intro keeps_bnd keeps_lift keeps_if keeps_read keeps_installed run)

lemma keeps_dynamic: "keeps I (processIssueTypeInDynamicProfile E b node)"
  unfolding processIssueTypeInDynamicProfile_def
  by (intro keeps_bnd keeps_lift keeps_option keeps_if keeps_ret keeps_read run)

lemma asks_getIssueCommandInfo:
  "asks (getIssueCommandInfo E node cfg issue) (\<lambda>r. \<forall>d c. r = Some d \<longrightarrow> command d = Some c \<longrightarrow> accepted (json E) cfg c)"
  unfolding getIssueCommandInfo_def Let_def
  by (auto simp: accepted_def intro!: ask_rules asks_bnd [OF asks_reads [OF reads_read_items]]
      asks_bnd [OF asks_reads [OF reads_accepted_data]])

lemma asks_command_info: "asks (command_info E b node cfg) (\<lambda>d. \<forall>c. command d = Some c \<longrightarrow> accepted (json E) cfg c)"
  unfolding command_info_def by (auto intro!: ask_rules asks_bnd [OF asks_getIssueCommandInfo])

lemma safe_info: "safe I (\<lambda>_. True) (bnd (command_info E b node cfg) k) Q"
  if "\<And>d. cleared (json E) d \<Longrightarrow> safe I (\<lambda>_. True) (k d) Q"
  by (rule safe_bnd_asks [OF timeless asks_command_info], rule that, unfold cleared_def, blast)

lemma safe_dynamic_append:
  "safe I (\<lambda>_. True) (processIssueTypeInDynamicProfileappend E b node) (\<lambda>(d, _). \<forall>x. d = Some x \<longrightarrow> cleared (json E) x)"
  unfolding processIssueTypeInDynamicProfileappend_def
  by (auto intro!: safe_rules safe_bnd_malloc safe_info timeless
      safe_bnd [OF keeps_safe [OF keeps_read]] safe_bnd [OF keeps_safe [OF keeps_request]])

lemma safe_static_append:
  "safe I (\<lambda>_. True) (processIssueTypeInStaticProfileappend E b node) (\<lambda>d. \<forall>x. d = Some x \<longrightarrow> cleared (json E) x)"
  unfolding processIssueTypeInStaticProfileappend_def
  by (auto intro!: safe_rules safe_info timeless safe_bnd [OF keeps_safe [OF keeps_read]])

lemma keeps_append:
  assumes app
  shows "keeps I (process_append E b node)"
proof -
  have fin: "keeps I (checkIssueNodeInfo E nd None b False (Some (s\<lparr>command := Some (join_commands sc dc)\<rparr>)))"
    if "cleared (json E) s" "cleared (json E) d" "command s = Some sc" "command d = Some dc" for nd s d sc dc
    using that assms by (intro run_joint) (auto simp: joint_def cleared_def)
  show ?thesis unfolding process_append_def
    by (rule safe_keeps [where Q = "\<lambda>_. True" and F = "\<lambda>_. True"])
      (auto intro!: safe_rules safe_bnd_malloc timeless safe_bnd [OF safe_dynamic_append] safe_bnd [OF safe_static_append]
        keeps_safe [OF fin] split: option.splits)
qed

lemma keeps_issue: "appendMode b \<longrightarrow> app \<Longrightarrow> keeps I (processIssueType E b)"
  unfolding processIssueType_def
  by (intro keeps_bnd keeps_lift keeps_option keeps_if keeps_ret keeps_malloc_bnd keeps_prod keeps_append
      keeps_dynamic keeps_static timeless) auto

lemma safe_buffer: "safe I (\<lambda>_. True) (issue_buffer E b base sfx) (\<lambda>cb. \<forall>x. cb = Some x \<longrightarrow> appendMode x = appendMode b)"
  unfolding issue_buffer_def Let_def
  by (intro safe_rules safe_bnd [OF keeps_safe] keeps_if keeps_bnd keeps_lift keeps_ret keeps_strdup timeless) auto

lemma keeps_token: "appendMode b \<longrightarrow> app \<Longrightarrow> keeps I (process_token E b token)"
  unfolding process_token_def Let_def
  by (rule safe_keeps [where Q = "\<lambda>_. True" and F = "\<lambda>_. True"])
    (intro safe_rules safe_bnd_malloc safe_bnd [OF safe_buffer] safe_bnd [OF keeps_safe] keeps_if keeps_issue keeps_ret
      safe_lift timeless, auto)

lemma keeps_splitter: "keeps I (issueTypeSplitter E s d)"
proof -
  have "keeps I (its_loop E n d t)" for n t
    by (induction n arbitrary: t) (auto intro!: keeps_ret keeps_bnd keeps_malloc_bnd keeps_if keeps_crash timeless)
  then show ?thesis unfolding issueTypeSplitter_def Let_def
    by (intro keeps_malloc_bnd keeps_if keeps_ret timeless)
qed

lemma keeps_event: "appendMode b \<longrightarrow> app \<Longrightarrow> keeps I (processIssueTypeEvent E b)"
proof -
  assume "appendMode b \<longrightarrow> app"
  then have "keeps I (process_tokens E b ts)" for ts
    by (induction ts) (auto intro!: keeps_ret keeps_bnd keeps_token)
  then show ?thesis unfolding processIssueTypeEvent_def
    by (intro keeps_bnd keeps_lift keeps_splitter)
qed

lemma keeps_awake: "keeps I (RRDProcessDeepSleepAwakeEvents E b)"
  by (intro keeps_deepsleep basics run)

end

text \<open>The cache: its shape survives every message. And any invariant that no event can break.\<close>

interpretation cache_kept: step_invariant E True cache_wf for E
  by unfold_locales (simp_all add: keeps_cache_wf_prims keeps_cache_append keeps_check_any)

section \<open>Only permitted commands run\<close>

text \<open>
  A command that may be handed to a service: one that passed the filter of a profile with
  a sanity section, or, in an append request, the join of two that passed their filters.
\<close>

definition permitted :: "'j cjson_api \<Rightarrow> bool \<Rightarrow> event \<Rightarrow> bool" where
  "permitted J app ev \<longleftrightarrow> (\<forall>u c. ev = EvSystemdRun u c \<longrightarrow>
     vetted J c \<or> app \<and> (\<exists>c0 c'. joint J c0 \<and> relocated c0 c' \<and> c = removeQuotes c'))"

lemma permitted_invariant:
  assumes laws: "cjson_laws (json E)" and static: "static_sanity E"
  shows "step_invariant E app (all_events (permitted (json E) app))"
proof
  have ok: "\<not> is_run ev \<Longrightarrow> permitted (json E) app ev" "vetted (json E) c \<Longrightarrow> permitted (json E) app (EvSystemdRun u c)" for ev u c
    by (auto simp: permitted_def)
  have joint: "keeps (all_events (permitted (json E) app)) (executeCommands E d)"
    if "app" "command d = Some c" "joint (json E) c" for d c
    using that by (intro keeps_executeCommands) (auto simp: permitted_def)
  show "keeps (all_events (permitted (json E) app)) (checkIssueNodeInfo E node cfg b deep None)" for node cfg b deep
    by (rule checkIssueNodeInfo_vets [OF laws static]) (simp_all add: ok)
  show "keeps (all_events (permitted (json E) app)) (checkIssueNodeInfo E node None b False (Some d))"
    if "app" "command d = Some c" "joint (json E) c" for node b d c
    by (rule checkIssueNodeInfo_vets [OF laws static]) (use joint [OF that] ok in simp_all)
qed (simp_all add: keeps_all_events_prims permitted_def)


text \<open>A device with a small built-in profile.\<close>

definition lab_profile :: jnode where
  "lab_profile = (None, JObj
     [(''Sanity'', JObj [(''Check'', JObj [(''Commands'', JArr [JStr ''rm -rf'', JStr ''kill''])])]),
      (''Device'', JObj [(''Info'', JObj [(''Commands'', JStr ''cat /version.txt''), (''Timeout'', JNum 10)])])])"

definition lab :: "jnode platform" where
  "lab = calm bench_build (doc_api (\<lambda>s. if s = ''profile'' then Some lab_profile else None))
     (\<lambda>f. if f = RRD_JSON_FILE then Some ''profile'' else None)"

definition lab_message :: data_buf where
  "lab_message = (RRD_data_buff_init EVENT_MSG RRD_DEEPSLEEP_INVALID_DEFAULT)\<lparr>mdata := Own ''Device.Info''\<rparr>"

definition lab_run :: event where
  "lab_run = EvSystemdRun ''remote_debugger_Device.Info42'' ''cat /version.txt''"

lemma lab_static: "static_sanity lab"
proof -
  have "readAndParseJSON lab RRD_JSON_FILE w = Ret (Some lab_profile) (w\<lparr>tick := Suc (Suc (Suc (tick w)))\<rparr>)" for w
    by (simp add: readAndParseJSON_def readJsonFile_def lab_def run_defs Let_def c_str_def)
  moreover have "sanity_check (json lab) (Some lab_profile) \<noteq> None" by code_simp
  ultimately show ?thesis unfolding static_sanity_def reads_def by blast
qed


lemma sublist_seam:
  assumes "sublist t (a @ x # d)" and "x \<notin> set t"
  shows "sublist t a \<or> sublist t d"
proof -
  have no: "ys = []" if "prefix ys (x # d)" "set ys \<subseteq> set t" for ys
    using that assms(2) by (cases ys) auto
  from assms(1) consider "sublist t a" | "sublist t (x # d)"
    | t1 t2 where "t = t1 @ t2" "suffix t1 a" "prefix t2 (x # d)"
    by (auto simp: sublist_append)
  then show ?thesis
  proof cases
    case 2
    then show ?thesis using no [of t] by (auto simp: sublist_Cons_right)
  next
    case 3
    then show ?thesis using no [of t2] by auto
  qed simp
qed







end
