(* ===== verification/RRD_Memory.thy ===== *)
theory RRD_Memory
  imports RRD_Event
begin

text \<open>
  Memory safety of the processing of messages: no freed object is read or freed again,
  and the package cache stays a well-formed list. Other faults (a NULL pointer where an
  allocation failed, an overlong name) are not excluded here; the properties of the
  components say where they happen. The judgement carries which pointers are live.
\<close>

section \<open>Memory faults\<close>

definition benign :: "fault \<Rightarrow> bool" where
  "benign e \<longleftrightarrow> e \<noteq> UseAfterFree \<and> e \<noteq> DoubleFree"

lemma benign_simps [simp]:
  "benign NullDeref" "benign UninitRead" "benign OutOfBoundsRead" "benign BufferOverflow" "benign WrongMember"
  "benign NoReturn"  "benign (ProcExit n)" "\<not> benign UseAfterFree" "\<not> benign DoubleFree"
  by (simp_all add: benign_def)

abbreviation msafe :: "'a prog \<Rightarrow> ('a \<Rightarrow> bool) \<Rightarrow> bool" where
  "msafe \<equiv> safe cache_wf benign"

lemma msafe_asks [safe_rules]:
  "(\<And>t. msafe (k (f t)) Q) \<Longrightarrow> msafe (bnd (ask f) k) Q"
  "(\<And>m. msafe (l m) Q) \<Longrightarrow> msafe (bnd (malloc E) l) Q"
  by (simp_all add: safe_bnd_ask safe_bnd_malloc)

lemma msafe_emit [safe_rules]: "msafe (k ()) Q \<Longrightarrow> msafe (bnd (emit ev) k) Q"
  by (rule safe_bnd [where A = "\<lambda>_. True"]) (simp_all add: safe_def hoare_def emit_def cache_wf_def)

lemma msafe_acts: "acts m A \<Longrightarrow> msafe m (\<lambda>_. True)"
proof -
  assume m: "acts m A"
  have "case m w of Ret x w' \<Rightarrow> cache_wf w' \<and> True | Crash e w' \<Rightarrow> cache_wf w' \<and> benign e" if "cache_wf w" for w
    using actsD [OF m, of w] that by (auto simp: cache_wf_def)
  then show ?thesis unfolding safe_def hoare_def by blast
qed

lemma str_arg_benign: "live p \<Longrightarrow> str_arg p \<noteq> Inl e"
  by (cases p) auto

lemma c_read_benign: "live p \<Longrightarrow> c_read p = Inl e \<Longrightarrow> benign e"
  by (cases p) auto

lemma free_null_benign: "live p \<Longrightarrow> free_null p = Inr Null"
  by (rule free_null_live)

lemma msafe_strdup: "msafe (strdup E s) live"
  unfolding strdup_def by (intro safe_rules) simp

section \<open>Faults of the pure functions\<close>

lemma icv_loop_benign: "icv_loop J l c i n = Inl e \<Longrightarrow> benign e"
  by (induction n arbitrary: i) (auto split: option.splits if_splits)

lemma isCommandsValid_benign: "isCommandsValid J c l = Inl e \<Longrightarrow> benign e"
  by (auto simp: isCommandsValid_def split: sum.splits bool.splits if_splits prod.splits dest: icv_loop_benign)

lemma name_faults_benign:
  "stamped_name p s = Inl e \<Longrightarrow> benign e" "out_file_name p = Inl e \<Longrightarrow> benign e"
  "replaceRRDLocation m c d = Inl e \<Longrightarrow> benign e"
  by (auto simp: stamped_name_def out_file_name_def replaceRRDLocation_def Let_def split: if_splits)

lemma getIssueInfo_benign: "getIssueInfo mem s = Inl e \<Longrightarrow> benign e"
  by (auto simp: getIssueInfo_def Let_def split: if_splits)

lemma getIssueInfo_live: "getIssueInfo mem s = Inr n \<Longrightarrow> live_node n"
  by (auto simp: getIssueInfo_def Let_def live_node_def split: if_splits)

lemma node_read_benign: "getIssueInfo mem s = Inr n \<Longrightarrow> c_read (Node n) = Inl e \<Longrightarrow> benign e"
  by (auto dest!: getIssueInfo_live simp: live_node_def c_read_benign)

lemma find_benign: "live_node n \<Longrightarrow> findIssueInParsedJSON J n cfg \<noteq> Inl e"
  by (cases "Node n"; cases "subNode n") (auto simp: live_node_def findIssueInParsedJSON_def split: option.splits)

lemma free_fields_live: "live_buf b \<Longrightarrow> \<exists>b'. free_fields b = Inr b' \<and> live_buf b'"
  by (auto simp: free_fields_def live_buf_def free_null_benign)

lemma free_mdata_live: "live (mdata b) \<Longrightarrow> \<exists>b'. free_mdata b = Inr b'"
  by (cases "mdata b") (auto simp: free_mdata_def free_stale_def)

lemma free_mdata_path_live: "live_buf b \<Longrightarrow> \<exists>b'. free_mdata_path b = Inr b'"
  by (cases "mdata b"; cases "jsonPath b") (auto simp: free_mdata_path_def free_mdata_def free_stale_def live_buf_def)

lemma drop_live: "live_buf b \<Longrightarrow> \<exists>b'. drop_mdata b = Inr b' \<and> live_buf b'"
  "live_buf b \<Longrightarrow> \<exists>b'. drop_mdata_path b = Inr b' \<and> live_buf b'"
  by (auto simp: drop_mdata_path_def drop_mdata_def live_buf_def free_null_benign)

section \<open>Running issues\<close>

lemma msafe_read: "msafe (readAndParseJSON E f) (\<lambda>_. True)"
  by (rule safe_asks [OF _ reads_readAndParseJSON]) simp

lemma msafe_executeCommands: "msafe (executeCommands E d) (\<lambda>_. True)"
  unfolding executeCommands_def relocate_def Let_def bnd_simps
  by (auto intro!: safe_rules safe_lift safe_bnd [OF safe_if] msafe_acts [OF acts_run_service] dest: name_faults_benign)

lemma msafe_upload: "msafe (uploadDebugoutput E d i) (\<lambda>_. True)"
  unfolding uploadDebugoutput_def Let_def
  by (auto intro!: safe_rules msafe_acts [OF acts_orchestrate_quiet] split: option.splits)

text \<open>Runs of one issue: the node is freed and reset.\<close>

lemma msafe_invoke:
  assumes "live_node node"
  shows "msafe (invokeSanityandCommandExec E node jsoncfg buf deep) (\<lambda>(_, n). live_node n)"
proof -
  have n: "free_null (Node node) = Inr Null" "free_null (subNode node) = Inr Null"
    "str_arg (Node node) \<noteq> Inl e" "str_arg (subNode node) \<noteq> Inl e" for e
    using assms by (simp_all add: live_node_def free_null_benign str_arg_benign)
  have cfg: "msafe (if b then readAndParseJSON E RRD_JSON_FILE else ret jsoncfg) (\<lambda>_. True)" for b
    by (auto intro!: safe_rules msafe_read)
  show ?thesis unfolding invokeSanityandCommandExec_def Let_def n bnd_simps
    by (intro safe_rules safe_bnd [OF cfg] safe_bnd [OF msafe_executeCommands]
        safe_bnd [OF safe_asks [OF _ reads_read_items]] safe_bnd [OF safe_asks [OF _ reads_accepted_data]])
      (auto simp: n live_node_def dest: isCommandsValid_benign)
qed

lemma msafe_debug_loop:
  "live_node node \<Longrightarrow> msafe (debug_loop E jsoncfg mn rfcbuf i n st node) (\<lambda>(_, n). live_node n)"
proof (induction n arbitrary: i st node)
  case (Suc n)
  have dup: "msafe (if b then strdup E rfcbuf else ret (Node node)) live" for b
    using Suc.prems by (auto simp: live_node_def intro!: safe_rules msafe_strdup)
  show ?case unfolding debug_loop.simps using Suc.prems
    by (intro safe_rules Suc.IH safe_bnd [OF dup] safe_bnd [OF msafe_strdup] safe_bnd [OF msafe_invoke])
      (auto simp: live_node_def)
qed (simp add: safe_ret)

lemma msafe_metrics_types:
  "live_node node \<Longrightarrow> msafe (metrics_types E jsoncfg cat i n st node) (\<lambda>(_, _, n). live_node n)"
proof (induction n arbitrary: i st node)
  case (Suc n)
  show ?case unfolding metrics_types.simps using Suc.prems
    by (intro safe_rules Suc.IH safe_bnd [OF msafe_strdup] safe_bnd [OF msafe_invoke])
      (auto simp: live_node_def)
qed (simp add: safe_ret)

lemma msafe_metrics_categories:
  "live_node node \<Longrightarrow> msafe (metrics_categories E jsoncfg root i n st node) (\<lambda>(_, n). live_node n)"
proof (induction n arbitrary: i st node)
  case (Suc n)
  show ?case unfolding metrics_categories.simps Let_def
    by (intro safe_rules safe_bnd [OF msafe_metrics_types [OF Suc.prems]] Suc.IH) auto
qed (simp add: safe_ret)

lemma msafe_run_node:
  assumes "live_node node"
  shows "msafe (run_node E node jsoncfg buff rfcbuf deep d) (\<lambda>(_, n). live_node n)"
proof -
  have n: "free_null (Node node) = Inr Null" "free_null (subNode node) = Inr Null"
    "str_arg (Node node) \<noteq> Inl e" "str_arg (subNode node) \<noteq> Inl e" for e
    using assms by (simp_all add: live_node_def free_null_benign str_arg_benign)
  show ?thesis
    unfolding run_node_def processAllDebugCommand_def processAllDeepSleepAwkMetricsCommands_def Let_def n bnd_simps
    using assms
    by (intro safe_rules safe_bnd [OF msafe_executeCommands] msafe_invoke msafe_debug_loop msafe_metrics_categories)
      (auto simp: n live_node_def)
qed

lemma msafe_check:
  assumes b: "live_buf b" and n: "live_node node"
  shows "msafe (checkIssueNodeInfo E node jsoncfg b deep d) (\<lambda>(b', n'). live_buf b' \<and> live_node n')"
proof -
  obtain b' where fr: "free_fields b = Inr b'" "live_buf b'" using free_fields_live [OF b] by blast
  have up: "msafe (if x then upload_report E outdir b else ret 0) (\<lambda>_. True)" for x outdir
    using b unfolding upload_report_def
    by (auto intro!: safe_rules msafe_upload simp: live_buf_def str_arg_benign dest: c_read_benign)
  show ?thesis unfolding checkIssueNodeInfo_def Let_def fr bnd_simps using b n fr(2)
    by (intro safe_rules safe_bnd [OF msafe_run_node [OF n]] safe_bnd [OF up])
      (auto simp: live_buf_def live_node_def dest: c_read_benign name_faults_benign)
qed

section \<open>Requests\<close>

lemma msafe_append:
  assumes "live p" "live i"
  shows "msafe (on_cache (append_item mem p i)) (\<lambda>_. True)"
proof -
  have "\<exists>cs its. append_item mem p i (cache w) = Inr cs \<and> cache_rep cs its" if w: "cache_wf w" for w
  proof -
    from w obtain its where "cache_rep (cache w) its" by (auto simp: cache_wf_def)
    with assms cache_rep_append [of "cache w" its p i] show ?thesis
      by (cases mem) (auto simp: append_item_fail)
  qed
  then show ?thesis unfolding safe_def hoare_def on_cache_def by (fastforce simp: cache_wf_def)
qed

lemma msafe_peek [safe_rules]: "(\<And>w. msafe (k (f w)) Q) \<Longrightarrow> msafe (bnd (peek f) k) Q"
  by (auto simp: safe_def hoare_def bnd_def peek_def)

lemma msafe_profile_name: "msafe (profile_name E) (\<lambda>_. True)"
  unfolding profile_name_def by (intro safe_rules) simp

lemma msafe_remember:
  assumes "live (mdata b)"
  shows "msafe (remember E p b) (\<lambda>_. True)"
proof -
  have "msafe (if appendMode b then bnd (malloc E) (\<lambda>mem. if mem then ret (x @ APPEND_SUFFIX) else crash NullDeref)
      else ret x) (\<lambda>_. True)" for x
    by (intro safe_rules) simp_all
  note data = this
  show ?thesis unfolding remember_def using assms
    by (intro safe_rules safe_bnd [OF data] safe_bnd [OF msafe_strdup] msafe_append) (auto dest: c_read_benign)
qed

lemma msafe_strings: "msafe (package_strings E (Some n) deep len) (\<lambda>_. True)"
  unfolding package_strings_def Let_def option.case bnd_simps
  by (intro safe_rules safe_bnd [OF msafe_profile_name]) simp_all

lemma msafe_length: "msafe (RRDGetProfileStringLength E nd deep) (\<lambda>l. 0 < l \<longrightarrow> nd \<noteq> None)"
  unfolding RRDGetProfileStringLength_def Let_def
  by (intro safe_rules safe_bnd [OF msafe_profile_name]) auto

lemma msafe_request:
  assumes n: "live_node node" and b: "live (mdata b)"
  shows "msafe (RRDRdmManagerDownloadRequest E node b deep) live_node"
proof -
  have fr: "free_null (Node node) = Inr Null" "free_null (subNode node) = Inr Null"
    "str_arg (Node node) \<noteq> Inl e" "str_arg (subNode node) \<noteq> Inl e" for e
    using n by (simp_all add: live_node_def free_null_benign str_arg_benign)
  have send: "msafe (if 0 < l then bnd (malloc E) (\<lambda>mem. if \<not> mem then ret () else
        bnd (package_strings E nd dp (nat l)) (\<lambda>(param, msg). case msg of None \<Rightarrow> ret ()
          | Some m \<Rightarrow> bnd (emit (EvRbusSet RDM_MGR_PKG_INST param)) (\<lambda>_.
              bnd (ask (\<lambda>t. rbus_set_ok E t RDM_MGR_PKG_INST param)) (\<lambda>rc.
              if rc then remember E m b else ret ()))))
      else ret ()) (\<lambda>_. True)" if "0 < l \<longrightarrow> nd \<noteq> None" for l nd dp
    using that b by (cases nd) (auto intro!: safe_rules safe_bnd [OF msafe_strings] msafe_remember split: option.splits)
  show ?thesis unfolding RRDRdmManagerDownloadRequest_def Let_def fr bnd_simps
    by (intro safe_rules safe_bnd [OF msafe_length] safe_bnd [OF send]) (auto simp: fr live_node_def)
qed

section \<open>Messages\<close>

lemma msafe_installed:
  assumes "live_buf b" "live_node node"
  shows "msafe (processIssueTypeInInstalledPackage E b node) (\<lambda>(b', n'). live_buf b' \<and> live_node n')"
  unfolding processIssueTypeInInstalledPackage_def using assms
  by (intro safe_rules safe_bnd [OF msafe_read] safe_bnd [OF msafe_request] msafe_check)
    (auto simp: live_buf_def live_node_def find_benign dest: c_read_benign)

lemma msafe_static:
  assumes "live_buf b" "live_node node"
  shows "msafe (processIssueTypeInStaticProfile E b node) (\<lambda>(b', n'). live_buf b' \<and> live_node n')"
  unfolding processIssueTypeInStaticProfile_def using assms
  by (intro safe_rules safe_bnd [OF msafe_read] msafe_check msafe_installed) (auto simp: find_benign)

lemma msafe_dynamic:
  assumes "live_buf b" "live_node node"
  shows "msafe (processIssueTypeInDynamicProfile E b node) (\<lambda>(b', n'). live_buf b' \<and> live_node n')"
proof -
  obtain b1 b2 where d: "drop_mdata b = Inr b1" "live_buf b1" "drop_mdata_path b = Inr b2" "live_buf b2"
    using drop_live [OF assms(1)] by blast
  show ?thesis unfolding processIssueTypeInDynamicProfile_def d bnd_simps using assms d
    by (intro safe_rules safe_bnd [OF msafe_read] msafe_check) (auto simp: find_benign live_buf_def str_arg_benign)
qed

lemma msafe_getIssueCommandInfo: "live_node node \<Longrightarrow> msafe (getIssueCommandInfo E node cfg buf) (\<lambda>_. True)"
  unfolding getIssueCommandInfo_def Let_def
  by (intro safe_rules safe_bnd [OF safe_asks [OF _ reads_read_items]]
      safe_bnd [OF safe_asks [OF _ reads_accepted_data]])
    (auto simp: live_node_def str_arg_benign dest: isCommandsValid_benign)

lemma msafe_info: "live_buf b \<Longrightarrow> live_node node \<Longrightarrow> msafe (command_info E b node cfg) (\<lambda>_. True)"
  unfolding command_info_def
  by (intro safe_rules safe_bnd [OF msafe_getIssueCommandInfo]) (auto simp: live_buf_def dest: c_read_benign)

lemma msafe_dynamic_append:
  assumes "live_buf b" "live_node node"
  shows "msafe (processIssueTypeInDynamicProfileappend E b node) (\<lambda>(_, n'). live_node n')"
  unfolding processIssueTypeInDynamicProfileappend_def using assms
  by (intro safe_rules safe_bnd [OF msafe_read] safe_bnd [OF msafe_request] safe_bnd [OF msafe_info])
    (auto simp: live_buf_def live_node_def find_benign dest: c_read_benign)

lemma msafe_static_append:
  assumes "live_buf b" "live_node node"
  shows "msafe (processIssueTypeInStaticProfileappend E b node) (\<lambda>_. True)"
  unfolding processIssueTypeInStaticProfileappend_def using assms
  by (intro safe_rules safe_bnd [OF msafe_read] safe_bnd [OF msafe_info]) (auto simp: find_benign)

lemma msafe_process_append:
  assumes "live_buf b" "live_node node"
  shows "msafe (process_append E b node) (\<lambda>(b', n'). live_buf b' \<and> live_node n')"
  unfolding process_append_def using assms
  by (intro safe_rules safe_bnd [OF msafe_dynamic_append] safe_bnd [OF msafe_static_append] msafe_check) auto

lemma msafe_issue:
  assumes "live_buf b"
  shows "msafe (processIssueType E b) live_buf"
proof -
  have mode: "msafe (if appendMode b then process_append E b n else if inDynamic b then processIssueTypeInDynamicProfile E b n
      else processIssueTypeInStaticProfile E b n) (\<lambda>(b', n'). live_buf b' \<and> live_node n')" if "live_node n" for n
    using assms that by (intro safe_rules msafe_process_append msafe_dynamic msafe_static)
  show ?thesis unfolding processIssueType_def
    by (intro safe_rules safe_bnd [OF mode])
      (use assms in \<open>auto simp: live_buf_def live_node_def str_arg_benign free_null_benign
        dest: getIssueInfo_live getIssueInfo_benign\<close>)
qed

lemma msafe_buffer:
  assumes "live (jsonPath b)"
  shows "msafe (issue_buffer E b base sfx) (\<lambda>cb. \<forall>x. cb = Some x \<longrightarrow> live_buf x)"
proof -
  have path: "msafe (if q then bnd (lift (c_read (jsonPath b))) (strdup E) else ret Null) live" for q
    using assms by (intro safe_rules msafe_strdup) (auto dest: c_read_benign)
  have sfx: "msafe (if q then strdup E sfx else ret Null) live" for q
    by (intro safe_rules msafe_strdup) simp
  show ?thesis unfolding issue_buffer_def Let_def
    by (intro safe_bnd [OF path] safe_rules safe_bnd [OF msafe_strdup] safe_bnd [OF sfx])
      (auto simp: live_buf_def RRD_data_buff_init_def RRD_data_buff_deAlloc_def)
qed

lemma msafe_token:
  assumes "live (jsonPath b)"
  shows "msafe (process_token E b token) (\<lambda>_. True)"
proof -
  have run: "msafe (if q then processIssueType E x else ret x) live_buf" if "live_buf x" for q x
    using that by (intro safe_rules msafe_issue)
  show ?thesis unfolding process_token_def Let_def
    by (intro safe_rules safe_bnd [OF msafe_buffer [OF assms]] safe_bnd [OF run] safe_lift) auto
qed

text \<open>The whole message.\<close>

lemma msafe_splitter: "msafe (issueTypeSplitter E s d) (\<lambda>_. True)"
proof -
  have "msafe (its_loop E n d t) (\<lambda>_. True)" for n t
    by (induction n arbitrary: t) (auto intro!: safe_rules intro: safe_bnd)
  then show ?thesis unfolding issueTypeSplitter_def Let_def by (intro safe_rules TrueI)
qed

lemma msafe_event:
  assumes "live_buf b"
  shows "msafe (processIssueTypeEvent E b) (\<lambda>_. True)"
proof -
  have "msafe (process_tokens E b ts) (\<lambda>_. True)" for ts
    using assms by (induction ts) (auto intro!: safe_rules safe_bnd [OF msafe_token] simp: live_buf_def)
  then show ?thesis unfolding processIssueTypeEvent_def
    by (intro safe_rules safe_bnd [OF msafe_splitter]) (use assms in \<open>auto simp: live_buf_def dest: c_read_benign\<close>)
qed

text \<open>Deep-sleep messages.\<close>

lemma msafe_check_dynamic:
  assumes "live_buf b" "live_node node"
  shows "msafe (RRDCheckIssueInDynamicProfile E b node) (\<lambda>(j, b'). j \<noteq> None \<longrightarrow> live_buf b')"
proof -
  obtain b1 b2 where d: "free_mdata b = Inr b1" "free_mdata_path b = Inr b2"
    using free_mdata_live [of b] free_mdata_path_live [of b] assms by (auto simp: live_buf_def)
  show ?thesis unfolding RRDCheckIssueInDynamicProfile_def d bnd_simps using assms
    by (intro safe_rules safe_bnd [OF msafe_read]) (auto simp: find_benign live_buf_def str_arg_benign)
qed

lemma msafe_awake:
  assumes "live_buf b"
  shows "msafe (RRDProcessDeepSleepAwakeEvents E b) (\<lambda>_. True)"
proof -
  obtain b1 where d: "free_mdata b = Inr b1" using free_mdata_live [of b] assms by (auto simp: live_buf_def)
  have path: "(if q then buf_snprintf a (a + 1) x else buf_snprintf a a y) = Inl e \<Longrightarrow> benign e" for q a x y e
    by (auto simp: buf_snprintf_def split: if_splits)
  show ?thesis
  proof (cases "dsEvent b")
    case RRD_DEEPSLEEP_INVALID_DEFAULT
    then show ?thesis unfolding RRDProcessDeepSleepAwakeEvents_def
      using assms by (auto intro!: safe_rules simp: live_buf_def str_arg_benign dest: getIssueInfo_benign)
  next
    case RRD_DEEPSLEEP_RDM_DOWNLOAD_PKG_INITIATE
    then show ?thesis
      unfolding RRDProcessDeepSleepAwakeEvents_def RRDGetDeepSleepdynJSONPathLen_def deepsleep_event_et.case d bnd_simps
      using assms
      by (simp only: deepsleep_event_et.case)
        (intro safe_rules safe_bnd [OF msafe_profile_name] safe_bnd [OF msafe_request] safe_lift,
          auto simp: live_buf_def live_node_def str_arg_benign
            dest: getIssueInfo_benign getIssueInfo_live node_read_benign path)
  next
    case RRD_DEEPSLEEP_RDM_PKG_INSTALL_COMPLETE
    then show ?thesis unfolding RRDProcessDeepSleepAwakeEvents_def using assms
      by (simp only: deepsleep_event_et.case)
        (intro safe_rules safe_bnd [OF msafe_check_dynamic] safe_bnd [OF msafe_check],
          auto simp: live_buf_def str_arg_benign dest: getIssueInfo_benign getIssueInfo_live)
  qed
qed

end
