(* ===== verification/RRD_Interface.thy ===== *)
theory RRD_Interface
  imports RRD_Memory
begin

text \<open>
  The bus side of the daemon: \<^verbatim>\<open>src/src/rrdInterface.c\<close> and \<^verbatim>\<open>src/src/rrdIarmEvents.c\<close>. The
  handlers turn bus events into messages of the queue that the worker thread reads; a
  finished download is matched with the cache; two properties select and return the
  categories of the built-in profile. Event payloads are arguments; whether an owner, an
  event number or a power state is the expected one is a truth value, because these
  constants are defined by the bus headers.
\<close>

section \<open>Model\<close>

definition RRD_WEBCFG_FORCE_SYNC :: string where
  "RRD_WEBCFG_FORCE_SYNC = ''Device.X_RDK_WebConfig.ForceSync''"

definition RRD_SET_PROFILE_EVENT :: string where
  "RRD_SET_PROFILE_EVENT = ''Device.DeviceInfo.X_RDKCENTRAL-COM_RFC.Feature.RDKRemoteDebugger.setProfileData''"

definition RRD_GET_PROFILE_EVENT :: string where
  "RRD_GET_PROFILE_EVENT = ''Device.DeviceInfo.X_RDKCENTRAL-COM_RFC.Feature.RDKRemoteDebugger.getProfileData''"

definition RRD_PROFILE_CATEGORY_FILE :: string where
  "RRD_PROFILE_CATEGORY_FILE = ''/tmp/rrd_profile_category''"

subsection \<open>The message queue\<close>

definition RRDMsgDeliver :: "'j platform \<Rightarrow> data_buf \<Rightarrow> unit prog" where
  "RRDMsgDeliver E sbuf =
     bnd (ask (msgsnd_ok E)) (\<lambda>sent.
     if sent then modify (\<lambda>w. w\<lparr>mq := mq w @ [sbuf]\<rparr>)
     else bnd (lift (RRD_data_buff_deAlloc sbuf)) (\<lambda>_. crash (ProcExit 1)))"

text \<open>
  The list of issues is a block of memory; a read that finds no terminator in it leaves
  the block.
\<close>

definition c_string :: "string \<Rightarrow> fault + string" where
  "c_string block = (if NUL \<in> set block then Inr (c_str block) else Inl OutOfBoundsRead)"

definition pushIssueTypesToMsgQueue :: "'j platform \<Rightarrow> string \<Rightarrow> message_type_et \<Rightarrow> unit prog" where
  "pushIssueTypesToMsgQueue E issueTypeList sndtype =
     bnd (malloc E) (\<lambda>mem. if \<not> mem then ret () else
     bnd (lift (c_string issueTypeList)) (\<lambda>list. case checkAppendRequest list of (app, issues) \<Rightarrow>
        RRDMsgDeliver E ((RRD_data_buff_init sndtype RRD_DEEPSLEEP_INVALID_DEFAULT)\<lparr>mdata := Own issues, appendMode := app\<rparr>)))"

subsection \<open>Issue and web configuration events\<close>

text \<open>
  The value of an event: no object, an object that is not a string, or a string. With
  telemetry enabled the handler builds the same message itself, with a trace context.
\<close>

definition remoteDebuggerEventHandler :: "'j platform \<Rightarrow> string option option \<Rightarrow> unit prog" where
  "remoteDebuggerEventHandler E value =
     (case value of
        None \<Rightarrow> ret ()
      | Some None \<Rightarrow> crash NullDeref
      | Some (Some s) \<Rightarrow>
          bnd (malloc E) (\<lambda>mem. if \<not> mem then ret ()
          else let dataMsg = c_strncpy (length s) s @ [NUL] in
               if hd dataMsg = NUL then ret () else pushIssueTypesToMsgQueue E dataMsg EVENT_MSG))"

text \<open>The copy of the web configuration data has as many bytes as the string, without the terminator.\<close>

definition remoteDebuggerWebCfgDataEventHandler :: "'j platform \<Rightarrow> string option option \<Rightarrow> unit prog" where
  "remoteDebuggerWebCfgDataEventHandler E value =
     (case value of
        None \<Rightarrow> ret ()
      | Some None \<Rightarrow> crash NullDeref
      | Some (Some s) \<Rightarrow>
          bnd (malloc E) (\<lambda>mem. if \<not> mem then ret ()
          else pushIssueTypesToMsgQueue E (c_strncpy (length s) s) EVENT_WEBCFG_MSG))"

subsection \<open>Finished downloads\<close>

definition lookup_package :: "string \<Rightarrow> nat option prog" where
  "lookup_package pkg = bnd (peek cache) (\<lambda>cs. lift (findPresentInCache pkg cs))"

definition node_issue :: "nat \<Rightarrow> string prog" where
  "node_issue a = bnd (peek cache) (\<lambda>cs. lift (case node_at cs a of Inl e \<Rightarrow> Inl e | Inr n \<Rightarrow> c_read (c_issueString n)))"

text \<open>The message for an installed package, on a buffer that was initialised for it.\<close>

definition installed_message :: "data_buf \<Rightarrow> string \<Rightarrow> string \<Rightarrow> data_buf" where
  "installed_message sendbuf issueString path =
     (case checkAppendRequest issueString of (app, issue) \<Rightarrow>
        sendbuf\<lparr>mdata := Own issue, jsonPath := Own (path @ RRD_JSON_FILE), inDynamic := \<not> app, appendMode := app\<rparr>)"

text \<open>
  Allocating the two strings and sending; false when an allocation failed and the handler
  returns at once.
\<close>

definition send_installed :: "'j platform \<Rightarrow> data_buf \<Rightarrow> string \<Rightarrow> string \<Rightarrow> bool prog" where
  "send_installed E sendbuf issueString path =
     bnd (malloc E) (\<lambda>m1. if \<not> m1 then bnd (lift (RRD_data_buff_deAlloc sendbuf)) (\<lambda>_. ret False) else
     bnd (malloc E) (\<lambda>m2.
       if \<not> m2 then bnd (lift (RRD_data_buff_deAlloc (sendbuf\<lparr>mdata := Own []\<rparr>))) (\<lambda>_. ret False)
       else bnd (RRDMsgDeliver E (installed_message sendbuf issueString path)) (\<lambda>_. ret True)))"

record rdm_event =
  owner_is_rdmmgr :: bool
  is_installation_status :: bool
  pkg_name :: string
  pkg_inst_path :: string
  install_complete :: bool

definition rdmManagerEventHandler :: "'j platform \<Rightarrow> rdm_event \<Rightarrow> unit prog" where
  "rdmManagerEventHandler E ev =
     (if owner_is_rdmmgr ev \<and> is_installation_status ev
      then bnd (lookup_package (pkg_name ev)) (\<lambda>node. case node of
             None \<Rightarrow> ret ()
           | Some a \<Rightarrow>
               bnd (if install_complete ev
                    then bnd (node_issue a) (\<lambda>issueString.
                         bnd (malloc E) (\<lambda>mem. if \<not> mem then ret False else
                         send_installed E
                           (if issueString = DEEP_SLEEP_STR
                            then RRD_data_buff_init DEEPSLEEP_EVENT_MSG RRD_DEEPSLEEP_RDM_PKG_INSTALL_COMPLETE
                            else RRD_data_buff_init EVENT_MSG RRD_DEEPSLEEP_INVALID_DEFAULT)
                           issueString (pkg_inst_path ev)))
                    else ret True) (\<lambda>go.
               if go then on_cache (remove_item (Some a)) else ret ()))
      else ret ())"

text \<open>
  The handler of builds without the IARM manager: the package is named after the issue
  value of the moment, cut at its first dot; the message buffer is used without a test.
\<close>

definition rdmDownloadEventHandler :: "'j platform \<Rightarrow> string option option \<Rightarrow> unit prog" where
  "rdmDownloadEventHandler E value =
     (case value of
        None \<Rightarrow> ret ()
      | Some None \<Rightarrow> crash NullDeref
      | Some (Some issue) \<Rightarrow>
          (let pkg = RDM_PKG_PREFIX @ takeWhile (\<lambda>c. c \<noteq> CHR ''.'') issue in
           bnd (malloc E) (\<lambda>m1. if \<not> m1 then ret () else
           bnd (malloc E) (\<lambda>m2. if \<not> m2 then ret () else
           bnd (lookup_package pkg) (\<lambda>node. case node of
             None \<Rightarrow> ret ()
           | Some a \<Rightarrow>
               bnd (node_issue a) (\<lambda>issueString.
               bnd (malloc E) (\<lambda>mem. if \<not> mem then crash NullDeref else
               bnd (send_installed E (RRD_data_buff_init EVENT_MSG RRD_DEEPSLEEP_RDM_PKG_INSTALL_COMPLETE)
                      issueString (RRD_TMP_DIR @ pkg)) (\<lambda>go.
               if go then on_cache (remove_item (Some a)) else ret ()))))))))"

subsection \<open>Power state\<close>

text \<open>Leaving deep sleep: force a configuration sync, then ask for the metrics package.\<close>

definition deepsleep_awake :: "'j platform \<Rightarrow> bool \<Rightarrow> unit prog" where
  "deepsleep_awake E ignore_bus =
     bnd (emit (EvRbusSet RRD_WEBCFG_FORCE_SYNC ''root'')) (\<lambda>_.
     bnd (ask (\<lambda>t. rbus_set_ok E t RRD_WEBCFG_FORCE_SYNC ''root'')) (\<lambda>rc.
     if \<not> rc \<and> \<not> ignore_bus then ret () else
     bnd (malloc E) (\<lambda>m1. if \<not> m1 then ret () else
     let sbuf = RRD_data_buff_init DEEPSLEEP_EVENT_MSG RRD_DEEPSLEEP_RDM_DOWNLOAD_PKG_INITIATE in
     bnd (malloc E) (\<lambda>m2. if \<not> m2 then lift (RRD_data_buff_deAlloc sbuf) else
     RRDMsgDeliver E (sbuf\<lparr>mdata := Own DEEP_SLEEP_STR\<rparr>)))))"

definition pwrManagerEventHandler_plugin :: "'j platform \<Rightarrow> bool \<Rightarrow> bool \<Rightarrow> unit prog" where
  "pwrManagerEventHandler_plugin E currently_deep new_deep =
     (if currently_deep \<and> \<not> new_deep then deepsleep_awake E (USE_L2_SUPPORT (bld E)) else ret ())"

definition pwrManagerEventHandler_iarm :: "'j platform \<Rightarrow> bool \<Rightarrow> (bool \<times> bool) option \<Rightarrow> unit prog" where
  "pwrManagerEventHandler_iarm E owner_is_pwrmgr eventData =
     (if owner_is_pwrmgr
      then (case eventData of
              Some (True, False) \<Rightarrow> deepsleep_awake E False
            | _ \<Rightarrow> ret ())
      else ret ())"

subsection \<open>Web configuration version\<close>

definition getBlobVersion :: "32 word prog" where
  "getBlobVersion = peek gWebCfgBloBVersion"

definition setBlobVersion :: "32 word \<Rightarrow> int prog" where
  "setBlobVersion version = bnd (modify (\<lambda>w. w\<lparr>gWebCfgBloBVersion := version\<rparr>)) (\<lambda>_. ret 0)"

subsection \<open>Profile category\<close>

definition load_profile_category :: "'j platform \<Rightarrow> int prog" where
  "load_profile_category E =
     bnd (ask (\<lambda>t. file_text E t RRD_PROFILE_CATEGORY_FILE)) (\<lambda>fp.
     case (case fp of None \<Rightarrow> [] | Some content \<Rightarrow> c_fgets_all BUF_LEN_256 content) of
       line # _ \<Rightarrow>
         bnd (modify (\<lambda>w. w\<lparr>profileCategory := takeWhile (\<lambda>c. c \<noteq> NEWLINE) (c_str line)\<rparr>)) (\<lambda>_. ret 0)
     | [] \<Rightarrow> bnd (modify (\<lambda>w. w\<lparr>profileCategory := ''all''\<rparr>)) (\<lambda>_. ret (-1)))"

definition save_profile_category :: "'j platform \<Rightarrow> int prog" where
  "save_profile_category E =
     bnd (ask (\<lambda>t. fopen_w_ok E t RRD_PROFILE_CATEGORY_FILE)) (\<lambda>opened.
     if \<not> opened then ret (-1)
     else bnd (emit (EvFopen RRD_PROFILE_CATEGORY_FILE)) (\<lambda>_. bnd (peek profileCategory) (\<lambda>category.
          bnd (ask (fprintf_ok E)) (\<lambda>written. if \<not> written then ret (-1) else
          bnd (emit (EvWrite RRD_PROFILE_CATEGORY_FILE (category @ [NEWLINE]))) (\<lambda>_. ret 0)))))"

datatype rbusError_t = RBUS_ERROR_SUCCESS | RBUS_ERROR_BUS_ERROR | RBUS_ERROR_INVALID_INPUT

datatype rbus_value = RBUS_STRING "string option" | RBUS_OTHER

record rbusProperty =
  prop_name :: "string option"
  prop_value :: "rbus_value option"

definition rrd_SetHandler :: "'j platform \<Rightarrow> rbusProperty option \<Rightarrow> rbusError_t prog" where
  "rrd_SetHandler E prop =
     (case prop of None \<Rightarrow> ret RBUS_ERROR_INVALID_INPUT
      | Some pr \<Rightarrow>
        (case (prop_name pr, prop_value pr) of
           (Some propertyName, Some value) \<Rightarrow>
             (if propertyName = RRD_SET_PROFILE_EVENT
              then (case value of
                      RBUS_STRING (Some str) \<Rightarrow>
                        (if length str > BUF_LEN_256 - 1 then ret RBUS_ERROR_INVALID_INPUT
                         else bnd (modify (\<lambda>w. w\<lparr>profileCategory := c_strncpy (BUF_LEN_256 - 1) str\<rparr>)) (\<lambda>_.
                              bnd (save_profile_category E) (\<lambda>rc.
                              ret (if rc \<noteq> 0 then RBUS_ERROR_BUS_ERROR else RBUS_ERROR_SUCCESS))))
                    | _ \<Rightarrow> ret RBUS_ERROR_INVALID_INPUT)
              else ret RBUS_ERROR_INVALID_INPUT)
         | _ \<Rightarrow> ret RBUS_ERROR_INVALID_INPUT))"

subsection \<open>Profile data\<close>

definition MAX_PROFILE_JSON_SIZE :: nat where
  "MAX_PROFILE_JSON_SIZE = 32768"

text \<open>\<open>cJSON_ArrayForEach\<close>: the children in order.\<close>

definition json_children :: "'j cjson_api \<Rightarrow> 'j option \<Rightarrow> 'j list" where
  "json_children J j = List.map_filter (cJSON_GetArrayItem J j) [0..<cJSON_GetArraySize J j]"

definition has_direct_commands :: "'j cjson_api \<Rightarrow> 'j option \<Rightarrow> bool" where
  "has_direct_commands J category =
     list_ex (\<lambda>item. cj_type J item = cJSON_Object
       \<and> (case cJSON_GetObjectItem J (Some item) (Some ''Commands'') of None \<Rightarrow> False | Some c \<Rightarrow> cj_type J c = cJSON_String))
       (json_children J category)"

text \<open>The array with the names of the issue types of a category.\<close>

definition issue_types :: "'j cjson_api \<Rightarrow> 'j \<Rightarrow> 'j" where
  "issue_types J category =
     foldl (\<lambda>arr issueType. case cj_string J issueType of
              Some s \<Rightarrow> (if cj_type J issueType = cJSON_Object then cJSON_AddItemToArray J arr (cJSON_CreateString J s) else arr)
            | None \<Rightarrow> arr) (cJSON_CreateArray J) (json_children J (Some category))"

definition get_all_categories_json :: "'j cjson_api \<Rightarrow> 'j option \<Rightarrow> string option" where
  "get_all_categories_json J root =
     cJSON_Print J (Some (foldl (\<lambda>response category.
       case cj_string J category of
         Some s \<Rightarrow>
           (if cj_type J category = cJSON_Object \<and> has_direct_commands J (Some category)
               \<and> cJSON_GetArraySize J (Some (issue_types J category)) > 0
            then cJSON_AddItemToObject J response s (issue_types J category) else response)
       | None \<Rightarrow> response) (cJSON_CreateObject J) (json_children J root)))"

definition get_specific_category_json :: "'j cjson_api \<Rightarrow> 'j option \<Rightarrow> string \<Rightarrow> string option" where
  "get_specific_category_json J root category_name =
     (case cJSON_GetObjectItem J root (Some category_name) of
        None \<Rightarrow> get_all_categories_json J root
      | Some category \<Rightarrow>
          (if cj_type J category \<noteq> cJSON_Object then get_all_categories_json J root
           else if \<not> has_direct_commands J (Some category) then cJSON_Print J (Some (cJSON_CreateArray J))
           else cJSON_Print J (Some (issue_types J category))))"

definition read_profile_json_file :: "'j platform \<Rightarrow> string \<Rightarrow> string option prog" where
  "read_profile_json_file E filename =
     bnd (ask (\<lambda>t. file_text E t filename)) (\<lambda>fp. case fp of
       None \<Rightarrow> ret None
     | Some content \<Rightarrow>
         (if length content = 0 \<or> length content \<ge> MAX_PROFILE_JSON_SIZE then ret None
          else bnd (malloc E) (\<lambda>mem. if \<not> mem then ret None else
               bnd (ask (\<lambda>t. fread_len E t (length content))) (\<lambda>bytesRead.
               if bytesRead \<noteq> length content then ret None else ret (Some content)))))"

text \<open>The response is the string that is stored in the property.\<close>

definition set_rbus_response :: "'j platform \<Rightarrow> bool \<Rightarrow> string option \<Rightarrow> (rbusError_t \<times> string option) prog" where
  "set_rbus_response E prop json_str =
     (if \<not> prop \<or> json_str = None then ret (RBUS_ERROR_BUS_ERROR, None)
      else bnd (malloc E) (\<lambda>value.
           if \<not> value then ret (RBUS_ERROR_BUS_ERROR, None) else ret (RBUS_ERROR_SUCCESS, json_str)))"

definition rrd_GetHandler :: "'j platform \<Rightarrow> string \<Rightarrow> (rbusError_t \<times> string option) prog" where
  "rrd_GetHandler E propertyName =
     (if propertyName \<noteq> RRD_GET_PROFILE_EVENT then ret (RBUS_ERROR_INVALID_INPUT, None)
      else bnd (read_profile_json_file E RRD_JSON_FILE) (\<lambda>jsonBuffer. case jsonBuffer of
             None \<Rightarrow> ret (RBUS_ERROR_BUS_ERROR, None)
           | Some text \<Rightarrow>
               (case cJSON_Parse (json E) (c_str text) of
                  None \<Rightarrow> ret (RBUS_ERROR_BUS_ERROR, None)
                | Some root \<Rightarrow>
                    bnd (peek profileCategory) (\<lambda>category.
                    set_rbus_response E True
                      (if category = [] \<or> category = ''all'' then get_all_categories_json (json E) (Some root)
                       else get_specific_category_json (json E) (Some root) category)))))"

section \<open>Finished downloads\<close>

text \<open>The message that a finished download of a package for an issue puts into the queue.\<close>

definition install_message :: "string \<Rightarrow> bool \<Rightarrow> string \<Rightarrow> data_buf" where
  "install_message issue app path =
     (if issue = DEEP_SLEEP_STR \<and> \<not> app
      then RRD_data_buff_init DEEPSLEEP_EVENT_MSG RRD_DEEPSLEEP_RDM_PKG_INSTALL_COMPLETE
      else RRD_data_buff_init EVENT_MSG RRD_DEEPSLEEP_INVALID_DEFAULT)
     \<lparr>mdata := Own issue, jsonPath := Own (path @ RRD_JSON_FILE), inDynamic := \<not> app, appendMode := app\<rparr>"

lemma marked_not_deepsleep: "issue @ APPEND_SUFFIX \<noteq> DEEP_SLEEP_STR"
proof
  assume "issue @ APPEND_SUFFIX = DEEP_SLEEP_STR"
  then have "last (issue @ APPEND_SUFFIX) = last DEEP_SLEEP_STR" by simp
  then show False by (simp add: APPEND_SUFFIX_def DEEP_SLEEP_STR_def)
qed

lemma installed_message_marked:
  assumes "app \<or> \<not> suffix APPEND_SUFFIX issue" and "s = (if app then issue @ APPEND_SUFFIX else issue)"
  shows "installed_message (if s = DEEP_SLEEP_STR
      then RRD_data_buff_init DEEPSLEEP_EVENT_MSG RRD_DEEPSLEEP_RDM_PKG_INSTALL_COMPLETE
      else RRD_data_buff_init EVENT_MSG RRD_DEEPSLEEP_INVALID_DEFAULT) s path = install_message issue app path"
  using assms marked_not_deepsleep [of issue]
  by (cases app) (auto simp: installed_message_def install_message_def checkAppendRequest_suffix suffix_def)

text \<open>An installation event on a platform with memory and a working queue.\<close>

definition install_event :: "string \<Rightarrow> string \<Rightarrow> bool \<Rightarrow> rdm_event" where
  "install_event pkg path complete = \<lparr>owner_is_rdmmgr = True, is_installation_status = True, pkg_name = pkg,
     pkg_inst_path = path, install_complete = complete\<rparr>"

lemma install_event_found:
  assumes mem: "\<forall>t. malloc_ok E t" and snd: "\<forall>t. msgsnd_ok E t" and rep: "cache_rep (cache w) its"
    and item: "List.find (has_name pkg) its = Some (q, Own s)"
  shows "\<exists>w'. rdmManagerEventHandler E (install_event pkg path complete) w = Ret () w'
    \<and> trace w' = trace w \<and> cache_rep (cache w') (drop_first pkg its)
    \<and> mq w' = mq w @ (if complete then [installed_message (if s = DEEP_SLEEP_STR
        then RRD_data_buff_init DEEPSLEEP_EVENT_MSG RRD_DEEPSLEEP_RDM_PKG_INSTALL_COMPLETE
        else RRD_data_buff_init EVENT_MSG RRD_DEEPSLEEP_INVALID_DEFAULT) s path] else [])"
proof -
  from cache_rep_find [OF rep, of pkg] item obtain a n where a: "findPresentInCache pkg (cache w) = Inr (Some a)"
    "cheap (cache w) a = Some n" "c_issueString n = Own s"
    by (auto simp: node_item_def)
  from cache_rep_remove [OF rep a(1)] obtain cs where cs: "remove_item (Some a) (cache w) = Inr cs"
    "cache_rep cs (drop_first pkg its)" by blast
  from mem snd a cs show ?thesis
    by (auto simp: rdmManagerEventHandler_def install_event_def lookup_package_def node_issue_def send_installed_def
        RRDMsgDeliver_def run_defs on_cache_def)
qed

lemma install_event_unknown:
  assumes rep: "cache_rep (cache w) its" and item: "List.find (has_name pkg) its = None"
  shows "rdmManagerEventHandler E (install_event pkg path complete) w = Ret () w"
  using cache_rep_find [OF rep, of pkg] item
  by (auto simp: rdmManagerEventHandler_def install_event_def lookup_package_def run_defs)

section \<open>Memory safety of the handlers\<close>

text \<open>
  The invariant that worker and handlers share: the cache is a well-formed list and
  every buffer in the queue is alive. \<open>ssafe\<close>: it survives, and no object is used or
  freed after it was freed.
\<close>

definition queue_live :: "world \<Rightarrow> bool" where
  "queue_live w \<longleftrightarrow> list_all live_buf (mq w)"

definition sys_ok :: "world \<Rightarrow> bool" where
  "sys_ok w \<longleftrightarrow> cache_wf w \<and> queue_live w"

abbreviation ssafe :: "'a prog \<Rightarrow> ('a \<Rightarrow> bool) \<Rightarrow> bool" where
  "ssafe \<equiv> safe sys_ok benign"

lemma sys_ok_updates [simp]:
  "sys_ok (w\<lparr>tick := t\<rparr>) = sys_ok w" "sys_ok (w\<lparr>trace := es\<rparr>) = sys_ok w"
  "sys_ok (w\<lparr>profileCategory := c\<rparr>) = sys_ok w" "sys_ok (w\<lparr>gWebCfgBloBVersion := v\<rparr>) = sys_ok w"
  by (simp_all add: sys_ok_def cache_wf_def queue_live_def)

lemma timeless_sys_ok [simp]: "timeless sys_ok"
  by (simp add: timeless_def)

lemma ssafe_prims [safe_rules]:
  "(\<And>t. ssafe (k (f t)) Q) \<Longrightarrow> ssafe (bnd (ask f) k) Q"
  "(\<And>m. ssafe (l m) Q) \<Longrightarrow> ssafe (bnd (malloc E) l) Q"
  "ssafe (u ()) Q \<Longrightarrow> ssafe (bnd (emit ev) u) Q"
  "(\<And>w. ssafe (p (g w)) Q) \<Longrightarrow> ssafe (bnd (peek g) p) Q"
  by (simp_all add: safe_bnd_ask safe_bnd_malloc) (auto simp: safe_def hoare_def bnd_def emit_def peek_def)

lemma ssafe_deliver: "live_buf b \<Longrightarrow> ssafe (RRDMsgDeliver E b) (\<lambda>_. True)"
  unfolding RRDMsgDeliver_def
  by (intro safe_rules) (auto simp: safe_def hoare_def modify_def sys_ok_def cache_wf_def queue_live_def)

lemma ssafe_push: "ssafe (pushIssueTypesToMsgQueue E list ty) (\<lambda>_. True)"
  unfolding pushIssueTypesToMsgQueue_def
  by (intro safe_rules ssafe_deliver) (auto simp: c_string_def split: if_splits)

lemma ssafe_issue_handler: "ssafe (remoteDebuggerEventHandler E v) (\<lambda>_. True)"
  unfolding remoteDebuggerEventHandler_def Let_def by (intro safe_rules ssafe_push) simp_all

lemma ssafe_webcfg_handler: "ssafe (remoteDebuggerWebCfgDataEventHandler E v) (\<lambda>_. True)"
  unfolding remoteDebuggerWebCfgDataEventHandler_def by (intro safe_rules ssafe_push) simp_all

lemma ssafe_awake_handler: "ssafe (deepsleep_awake E i) (\<lambda>_. True)"
  unfolding deepsleep_awake_def Let_def by (intro safe_rules ssafe_deliver safe_lift) simp_all

lemma ssafe_power_handlers:
  "ssafe (pwrManagerEventHandler_plugin E c n) (\<lambda>_. True)"
  "ssafe (pwrManagerEventHandler_iarm E own d) (\<lambda>_. True)"
  unfolding pwrManagerEventHandler_plugin_def pwrManagerEventHandler_iarm_def
  by (auto intro!: safe_rules ssafe_awake_handler split: option.splits bool.splits)

text \<open>The handlers of finished downloads use the node they found before they take it out.\<close>

lemma live_installed: "live_buf b \<Longrightarrow> live_buf (installed_message b s path)"
  by (auto simp: installed_message_def split: prod.splits)

lemma send_installed_outcome:
  assumes "sys_ok w" and "live_buf b"
  shows "\<exists>w'. sys_ok w' \<and> cache w' = cache w
    \<and> ((\<exists>go. send_installed E b s path w = Ret go w') \<or> (\<exists>e. send_installed E b s path w = Crash e w' \<and> benign e))"
proof -
  have q: "list_all live_buf (mq w @ [installed_message b s path])"
    using assms live_installed by (simp add: sys_ok_def queue_live_def)
  show ?thesis using assms q live_installed [OF assms(2)]
    by (auto simp: send_installed_def RRDMsgDeliver_def run_defs sys_ok_def cache_wf_def queue_live_def)
qed

lemma found_and_sent:
  assumes fb: "fb = ret () \<or> fb = crash NullDeref" and ok: "sys_ok w" and b: "\<And>s. live_buf (b s)" and a: "findPresentInCache pkg (cache w) = Inr (Some a)"
  shows "case bnd (node_issue a) (\<lambda>s. bnd (malloc E) (\<lambda>mem. if \<not> mem then fb else
      bnd (send_installed E (b s) s path) (\<lambda>go. if go then on_cache (remove_item (Some a)) else ret ()))) w of
    Ret _ w' \<Rightarrow> sys_ok w' | Crash e w' \<Rightarrow> sys_ok w' \<and> benign e"
proof -
  from ok obtain its where rep: "cache_rep (cache w) its" by (auto simp: sys_ok_def cache_wf_def)
  from cache_rep_find [OF rep, of pkg] a obtain n where n: "cheap (cache w) a = Some n" "live (c_issueString n)" by auto
  from cache_rep_remove [OF rep a] obtain cs where cs: "remove_item (Some a) (cache w) = Inr cs" "cache_wf (w\<lparr>cache := cs\<rparr>)"
    by (auto simp: cache_wf_def)
  show ?thesis
  proof (cases "c_issueString n")
    case (Own s)
    let ?w = "w\<lparr>tick := Suc (tick w)\<rparr>"
    from send_installed_outcome [of ?w "b s" E s path] ok b obtain w' where
      w': "sys_ok w'" "cache w' = cache w" "(\<exists>go. send_installed E (b s) s path ?w = Ret go w')
        \<or> (\<exists>e. send_installed E (b s) s path ?w = Crash e w' \<and> benign e)" by auto
    have "sys_ok (w'\<lparr>cache := cs\<rparr>)" using w'(1) cs(2) by (simp add: sys_ok_def cache_wf_def queue_live_def)
    with w' n Own cs ok fb show ?thesis by (auto simp: node_issue_def run_defs on_cache_def)
  qed (use n ok in \<open>auto simp: node_issue_def run_defs\<close>)
qed

lemma bnd_if: "bnd (if c then m else n) k = (if c then bnd m k else bnd n k)"
  by simp

lemma lookup_cases:
  assumes "sys_ok w"
    and "\<And>a. findPresentInCache pkg (cache w) = Inr (Some a) \<Longrightarrow> case found a w of Ret _ w' \<Rightarrow> sys_ok w' | Crash e w' \<Rightarrow> sys_ok w' \<and> benign e"
  shows "case bnd (lookup_package pkg) (\<lambda>node. case node of None \<Rightarrow> ret () | Some a \<Rightarrow> found a) w of
    Ret _ w' \<Rightarrow> sys_ok w' | Crash e w' \<Rightarrow> sys_ok w' \<and> benign e"
proof -
  from assms(1) obtain its where "cache_rep (cache w) its" by (auto simp: sys_ok_def cache_wf_def)
  from cache_rep_find [OF this, of pkg] assms show ?thesis by (auto simp: lookup_package_def run_defs)
qed

lemma ssafe_rdm_handler: "ssafe (rdmManagerEventHandler E ev) (\<lambda>_. True)"
proof (cases "owner_is_rdmmgr ev \<and> is_installation_status ev")
  case True
  show ?thesis unfolding safe_def hoare_def rdmManagerEventHandler_def if_P [OF True] simp_thms
  proof (intro allI impI lookup_cases)
    fix w a
    assume w: "sys_ok w" and a: "findPresentInCache (pkg_name ev) (cache w) = Inr (Some a)"
    show "case bnd (if install_complete ev
        then bnd (node_issue a) (\<lambda>issueString. bnd (malloc E) (\<lambda>mem. if \<not> mem then ret False else
          send_installed E (if issueString = DEEP_SLEEP_STR
            then RRD_data_buff_init DEEPSLEEP_EVENT_MSG RRD_DEEPSLEEP_RDM_PKG_INSTALL_COMPLETE
            else RRD_data_buff_init EVENT_MSG RRD_DEEPSLEEP_INVALID_DEFAULT) issueString (pkg_inst_path ev)))
        else ret True) (\<lambda>go. if go then on_cache (remove_item (Some a)) else ret ()) w of
      Ret _ w' \<Rightarrow> sys_ok w' | Crash e w' \<Rightarrow> sys_ok w' \<and> benign e"
    proof (cases "install_complete ev")
      case True
      then show ?thesis
        using found_and_sent [OF disjI1 [OF refl] w _ a, of
            "\<lambda>s. if s = DEEP_SLEEP_STR then RRD_data_buff_init DEEPSLEEP_EVENT_MSG RRD_DEEPSLEEP_RDM_PKG_INSTALL_COMPLETE
               else RRD_data_buff_init EVENT_MSG RRD_DEEPSLEEP_INVALID_DEFAULT" E "pkg_inst_path ev"]
        by (simp add: bnd_if cong: if_cong)
    next
      case False
      from w obtain its where rep: "cache_rep (cache w) its" by (auto simp: sys_ok_def cache_wf_def)
      from cache_rep_remove [OF this a] w False show ?thesis
        by (auto simp: on_cache_def sys_ok_def cache_wf_def queue_live_def)
    qed
  qed
qed (auto simp: rdmManagerEventHandler_def safe_ret)

lemma ssafe_download_handler: "ssafe (rdmDownloadEventHandler E v) (\<lambda>_. True)"
proof -
  have "ssafe (bnd (lookup_package pkg) (\<lambda>node. case node of None \<Rightarrow> ret () | Some a \<Rightarrow>
      bnd (node_issue a) (\<lambda>s. bnd (malloc E) (\<lambda>mem. if \<not> mem then crash NullDeref else
      bnd (send_installed E (RRD_data_buff_init EVENT_MSG RRD_DEEPSLEEP_RDM_PKG_INSTALL_COMPLETE) s (RRD_TMP_DIR @ pkg))
        (\<lambda>go. if go then on_cache (remove_item (Some a)) else ret ()))))) (\<lambda>_. True)" for pkg
    unfolding safe_def hoare_def simp_thms
    by (intro allI impI lookup_cases found_and_sent [where pkg = pkg]) simp_all
  then show ?thesis unfolding rdmDownloadEventHandler_def Let_def by (intro safe_rules) simp_all
qed

lemma ssafe_load: "ssafe (load_profile_category E) (\<lambda>_. True)"
  unfolding load_profile_category_def
  by (intro safe_rules) (auto simp: safe_def hoare_def run_defs split: list.splits option.splits)

lemma ssafe_set: "ssafe (rrd_SetHandler E p) (\<lambda>_. True)"
  by (auto simp: safe_def hoare_def rrd_SetHandler_def save_profile_category_def run_defs
      split: option.splits rbus_value.splits)

lemma ssafe_get: "ssafe (rrd_GetHandler E p) (\<lambda>_. True)"
  unfolding rrd_GetHandler_def read_profile_json_file_def set_rbus_response_def
  by (intro safe_rules safe_bnd [where A = "\<lambda>_. True"]) auto

section \<open>Profile data\<close>

text \<open>
  The answer to a query of the profile data, written over the document itself: a category
  is listed when one of its issue types has a command string; then all its issue types
  are listed.
\<close>

fun has_command :: "json \<Rightarrow> bool" where
  "has_command (JObj kvs) = (case doc_assoc ''Commands'' kvs of Some (_, JStr _) \<Rightarrow> True | _ \<Rightarrow> False)"
| "has_command _ = False"

fun is_obj :: "json \<Rightarrow> bool" where
  "is_obj (JObj _) = True"
| "is_obj _ = False"

definition issue_names :: "(string \<times> json) list \<Rightarrow> json" where
  "issue_names m = JArr (map (JStr \<circ> fst) (filter (is_obj \<circ> snd) m))"

fun listed :: "string \<times> json \<Rightarrow> (string \<times> json) list" where
  "listed (k, JObj m) = (if list_ex (has_command \<circ> snd) m then [(k, issue_names m)] else [])"
| "listed _ = []"

definition catalog :: "(string \<times> json) list \<Rightarrow> json" where
  "catalog kvs = JObj (concat (map listed kvs))"

definition category_answer :: "string \<Rightarrow> (string \<times> json) list \<Rightarrow> json" where
  "category_answer c kvs =
     (if c = [] \<or> c = ''all'' then catalog kvs else
      case doc_assoc c kvs of
        Some (_, JObj m) \<Rightarrow> (if list_ex (has_command \<circ> snd) m then issue_names m else JArr [])
      | _ \<Rightarrow> catalog kvs)"

lemma map_filter_nth: "List.map_filter (\<lambda>i. if i < length xs then Some (xs ! i) else None) [0..<length xs] = xs"
proof -
  have "map (\<lambda>i. xs ! i) (filter (\<lambda>i. i < length xs) [0..<length xs]) = xs"
    by (simp add: filter_id_conv [THEN iffD2] map_nth)
  moreover have "List.map_filter (\<lambda>i. if i < length xs then Some (xs ! i) else None) is
      = map (\<lambda>i. xs ! i) (filter (\<lambda>i. i < length xs) is)" for "is"
    by (induction "is") auto
  ultimately show ?thesis by simp
qed

lemma json_children_doc: "json_children (doc_api p) (Some (k, v)) = doc_children v"
proof -
  have "doc_item (Some (k, v)) = (\<lambda>i. if i < length (doc_children v) then Some (doc_children v ! i) else None)"
    by (simp add: fun_eq_iff)
  then show ?thesis by (simp add: json_children_def map_filter_nth)
qed

lemma doc_type_object: "doc_type (k, v) = cJSON_Object \<longleftrightarrow> is_obj v"
  by (cases v) auto

lemma has_command_doc:
  "doc_type x = cJSON_Object \<and> (case doc_get (Some x) (Some ''Commands'') of None \<Rightarrow> False | Some c \<Rightarrow> doc_type c = cJSON_String)
   \<longleftrightarrow> has_command (snd x)"
proof (cases x)
  case (Pair k v)
  have "doc_type c = cJSON_String \<longleftrightarrow> (\<exists>s. snd c = JStr s)" for c by (cases c rule: doc_type.cases) auto
  with Pair show ?thesis by (cases v) (auto split: option.splits json.splits)
qed

lemma has_direct_commands_doc:
  "has_direct_commands (doc_api p) (Some (k, JObj m)) = list_ex (has_command \<circ> snd) m"
  unfolding has_direct_commands_def json_children_doc doc_api_sel has_command_doc doc_children.simps
  by (induction m) auto

lemma issue_types_fold:
  "foldl (\<lambda>arr issueType. case fst issueType of
      Some s \<Rightarrow> (if doc_type issueType = cJSON_Object then doc_add_array arr (None, JStr s) else arr)
    | None \<Rightarrow> arr) (None, JArr xs) (map (\<lambda>(k, v). (Some k, v)) m)
   = (None, JArr (xs @ map (JStr \<circ> fst) (filter (is_obj \<circ> snd) m)))"
  by (induction m arbitrary: xs) (auto simp: doc_type_object)

lemma issue_types_doc: "issue_types (doc_api p) (k, JObj m) = (None, issue_names m)"
  using issue_types_fold [of "[]" m]
  unfolding issue_types_def json_children_doc issue_names_def doc_api_sel doc_children.simps by simp

lemma has_command_object: "has_command v \<Longrightarrow> is_obj v"
  by (cases v) auto

lemma all_categories_fold:
  "foldl (\<lambda>response category. case fst category of
      Some s \<Rightarrow> (if doc_type category = cJSON_Object \<and> has_direct_commands (doc_api p) (Some category)
                     \<and> doc_size (Some (issue_types (doc_api p) category)) > 0
                  then doc_add_object response s (issue_types (doc_api p) category) else response)
    | None \<Rightarrow> response) (None, JObj xs) (map (\<lambda>(k, v). (Some k, v)) kvs)
   = (None, JObj (xs @ concat (map listed kvs)))"
proof (induction kvs arbitrary: xs)
  case (Cons kv kvs)
  obtain k v where kv: "kv = (k, v)" by (cases kv)
  show ?case
  proof (cases v)
    case (JObj m)
    have "filter (is_obj \<circ> snd) m \<noteq> []" if "list_ex (has_command \<circ> snd) m"
      using that has_command_object by (fastforce simp: list_ex_iff filter_empty_conv)
    with Cons kv JObj show ?thesis
      by (auto simp: has_direct_commands_doc issue_types_doc issue_names_def)
  qed (use Cons kv in auto)
qed simp

lemma all_categories_doc:
  "get_all_categories_json (doc_api p) (Some (k, JObj kvs)) = Some (print_json (catalog kvs))"
  using all_categories_fold [of p "[]" kvs]
  unfolding get_all_categories_json_def json_children_doc catalog_def doc_api_sel doc_children.simps by simp

lemma specific_category_doc:
  "c \<noteq> [] \<Longrightarrow> c \<noteq> ''all'' \<Longrightarrow>
   get_specific_category_json (doc_api p) (Some (k, JObj kvs)) c = Some (print_json (category_answer c kvs))"
  by (auto simp: get_specific_category_json_def category_answer_def all_categories_doc has_direct_commands_doc
      issue_types_doc issue_names_def split: option.splits json.splits)

section \<open>Profile category\<close>

text \<open>The first line of a file that holds a string and a newline, read into a buffer that fits the string.\<close>

lemma fgets_first_line:
  assumes "NEWLINE \<notin> set acc" and "length acc < n - 1" and "length acc + length s \<le> n - 1"
  shows "\<exists>line rest. c_fgets_go n acc (s @ [NEWLINE]) = line # rest \<and> set line \<subseteq> set acc \<union> set s \<union> {NEWLINE}
    \<and> takeWhile (\<lambda>c. c \<noteq> NEWLINE) line = acc @ takeWhile (\<lambda>c. c \<noteq> NEWLINE) s"
  using assms
proof (induction s arbitrary: acc)
  case Nil
  then show ?case by (auto simp: takeWhile_neq_append)
next
  case (Cons c s)
  show ?case
  proof (cases "c = NEWLINE \<or> Suc (length acc) \<ge> n - 1")
    case True
    with Cons.prems have "c = NEWLINE \<or> s = []" by (cases s) auto
    with True Cons.prems show ?thesis by (auto simp: takeWhile_neq_append takeWhile_neq_id)
  next
    case False
    with Cons.prems Cons.IH [of "acc @ [c]"] show ?thesis by fastforce
  qed
qed

lemma c_str_id: "NUL \<notin> set s \<Longrightarrow> c_str s = s"
  by (simp add: c_str_def takeWhile_neq_id)

lemma load_saved_category:
  assumes "NUL \<notin> set s" and "length s \<le> 255" and "\<forall>t. file_text E t RRD_PROFILE_CATEGORY_FILE = Some (s @ [NEWLINE])"
  shows "load_profile_category E w =
    Ret 0 (w\<lparr>tick := Suc (tick w), profileCategory := takeWhile (\<lambda>c. c \<noteq> NEWLINE) s\<rparr>)"
proof -
  from fgets_first_line [of "[]" 256 s] assms(2) obtain line rest where
    line: "c_fgets_all BUF_LEN_256 (s @ [NEWLINE]) = line # rest" "set line \<subseteq> set s \<union> {NEWLINE}"
      "takeWhile (\<lambda>c. c \<noteq> NEWLINE) line = takeWhile (\<lambda>c. c \<noteq> NEWLINE) s"
    by (auto simp: c_fgets_all_def BUF_LEN_256_def)
  then have "c_str line = line" using assms(1) by (intro c_str_id) auto
  with line assms(3) show ?thesis by (simp add: load_profile_category_def run_defs)
qed

section \<open>Properties\<close>

text \<open>
  C30: A download request and the event of the finished installation together bring the
  issue back: the handler puts exactly one message into the queue, with the issue that
  was waiting, the profile of the package and the append mode of the request (the
  deep-sleep metrics as a deep-sleep message), and the cache is as before the request.
\<close>

theorem requested_package_comes_back:
  assumes "\<forall>t. malloc_ok E t" and "\<forall>t p v. rbus_set_ok E t p v" and "\<forall>t. msgsnd_ok E t"
    and "cache_rep (cache w) its" and "length n \<le> 34" and "live s" and "mdata rbuf = Own issue"
    and "appendMode rbuf \<or> \<not> suffix APPEND_SUFFIX issue"
    and "pkg = package_name (bld E) (devPropData w) deep n"
  shows "\<exists>w1 w2. RRDRdmManagerDownloadRequest E \<lparr>Node = Own n, subNode = s\<rparr> rbuf deep w = Ret \<lparr>Node = Null, subNode = Null\<rparr> w1
    \<and> rdmManagerEventHandler E (install_event pkg path True) w1 = Ret () w2
    \<and> mq w2 = mq w @ [install_message issue (appendMode rbuf) path] \<and> cache_rep (cache w2) its
    \<and> trace w2 = trace w @ [EvRbusSet RDM_MGR_PKG_INST (pkg @ RDM_PKG_SUFFIX)]"
proof -
  let ?s = "if appendMode rbuf then issue @ APPEND_SUFFIX else issue"
  from download_request_mem [OF assms(1,6,7,4), of n deep] assms obtain w1 where
    w1: "RRDRdmManagerDownloadRequest E \<lparr>Node = Own n, subNode = s\<rparr> rbuf deep w = Ret \<lparr>Node = Null, subNode = Null\<rparr> w1"
      "mq w1 = mq w" "trace w1 = trace w @ [EvRbusSet RDM_MGR_PKG_INST (pkg @ RDM_PKG_SUFFIX)]"
    and rep: "cache_rep (cache w1) ((Own pkg, Own ?s) # its)"
    by (auto simp: Let_def)
  have "List.find (has_name pkg) ((Own pkg, Own ?s) # its) = Some (Own pkg, Own ?s)" by (simp add: has_name_def)
  from install_event_found [OF assms(1,3) rep this, of path True] w1 show ?thesis
    using installed_message_marked [OF assms(8) refl, of path] by (fastforce simp: has_name_def)
qed

theorem requested_package_comes_back_witness:
  "\<exists>w1 w2. RRDRdmManagerDownloadRequest (bench (\<lambda>_. None)) \<lparr>Node = Own ''Audio'', subNode = Own ''Mute''\<rparr>
       ((RRD_data_buff_init EVENT_MSG RRD_DEEPSLEEP_INVALID_DEFAULT)\<lparr>mdata := Own ''Audio.Mute'', appendMode := True\<rparr>)
       False fresh_world = Ret \<lparr>Node = Null, subNode = Null\<rparr> w1
    \<and> rdmManagerEventHandler (bench (\<lambda>_. None)) (install_event ''RDK-RRD-Audio'' ''/media/apps/RDK-RRD-Audio'' True) w1 = Ret () w2
    \<and> mq w2 = [install_message ''Audio.Mute'' True ''/media/apps/RDK-RRD-Audio''] \<and> cache_rep (cache w2) []"
proof -
  let ?E = "bench (\<lambda>_. None)"
  let ?b = "(RRD_data_buff_init EVENT_MSG RRD_DEEPSLEEP_INVALID_DEFAULT)\<lparr>mdata := Own ''Audio.Mute'', appendMode := True\<rparr>"
  have "\<forall>t. malloc_ok ?E t" "\<forall>t p v. rbus_set_ok ?E t p v" "\<forall>t. msgsnd_ok ?E t" "cache_rep (cache fresh_world) []"
    "length ''Audio'' \<le> 34" "live (Own ''Mute'')" "mdata ?b = Own ''Audio.Mute''"
    "appendMode ?b \<or> \<not> suffix APPEND_SUFFIX ''Audio.Mute''"
    "''RDK-RRD-Audio'' = package_name (bld ?E) (devPropData fresh_world) False ''Audio''"
    by (simp_all add: bench_def cache_rep_start package_name_def Let_def dyn_lengths)
  from requested_package_comes_back [OF this, of "''/media/apps/RDK-RRD-Audio''"] show ?thesis by auto
qed

text \<open>
  C31: The events of the download manager in every case: a package nobody asked for changes
  nothing, a failed installation only forgets the newest request for the package, a
  finished one also queues its message.
\<close>

theorem package_event_cases:
  assumes "\<forall>t. malloc_ok E t" and "\<forall>t. msgsnd_ok E t" and "cache_rep (cache w) its" and "owned_items its"
  shows "\<exists>w'. rdmManagerEventHandler E (install_event pkg path complete) w = Ret () w' \<and> trace w' = trace w
    \<and> (case List.find (has_name pkg) its of
         None \<Rightarrow> w' = w
       | Some (_, i) \<Rightarrow> cache_rep (cache w') (drop_first pkg its)
           \<and> (\<exists>s. i = Own s \<and> mq w' = mq w @ (if complete
                then [install_message (snd (checkAppendRequest s)) (suffix APPEND_SUFFIX s) path] else [])))"
proof (cases "List.find (has_name pkg) its")
  case None
  with install_event_unknown [OF assms(3) None] show ?thesis by simp
next
  case (Some it)
  then have "it \<in> set its" by (auto simp: find_Some_iff)
  with assms(4) obtain q s where it: "it = (q, Own s)" by (cases it) (auto simp: owned_items_def)
  let ?i = "snd (checkAppendRequest s)" and ?a = "suffix APPEND_SUFFIX s"
  have "s = (if ?a then ?i @ APPEND_SUFFIX else ?i)" "?a \<or> \<not> suffix APPEND_SUFFIX ?i"
    by (auto simp: checkAppendRequest_suffix suffix_def)
  from installed_message_marked [OF this(2,1), of path]
    install_event_found [OF assms(1-3), of pkg q s path complete] Some it show ?thesis by auto
qed

theorem package_event_cases_witness:
  "\<exists>w'. rdmManagerEventHandler (bench (\<lambda>_. None)) (install_event ''RDK-RRD-Audio'' ''/media/apps/RDK-RRD-Audio'' False)
      (fresh_world\<lparr>cache := cache_request ''RDK-RRD-Audio'' ''Audio.Mute'' cache_start\<rparr>) = Ret () w'
    \<and> cache_rep (cache w') [] \<and> mq w' = []"
proof -
  let ?E = "bench (\<lambda>_. None)" and ?cs = "cache_request ''RDK-RRD-Audio'' ''Audio.Mute'' cache_start"
  have "\<forall>t. malloc_ok ?E t" "\<forall>t. msgsnd_ok ?E t"
    "cache_rep (cache (fresh_world\<lparr>cache := ?cs\<rparr>)) [(Own ''RDK-RRD-Audio'', Own ''Audio.Mute'')]"
    "owned_items [(Own ''RDK-RRD-Audio'', Own ''Audio.Mute'')]"
    by (simp_all add: bench_def cache_request_rep cache_rep_start owned_items_def)
  from package_event_cases [OF this, of "''RDK-RRD-Audio''" "''/media/apps/RDK-RRD-Audio''" False] show ?thesis
    by (auto simp: has_name_def)
qed


text \<open>A profile with a category of each kind.\<close>

definition shelf :: "(string \<times> json) list" where
  "shelf = [(''Device'', JObj [(''Info'', JObj [(''Commands'', JStr ''uptime'')]), (''Dump'', JObj []), (''Note'', JStr ''x'')]),
    (''Nested'', JObj [(''Deep'', JObj [(''More'', JObj [])])]), (''Sanity'', JNum 1)]"


text \<open>
  C33: A selected category survives a restart: setting it puts it in force and writes the
  file from which loading restores it, up to its first newline. A category that does not
  fit the buffer is refused and changes nothing; a file that cannot be opened or written
  is reported although the category is already in force, and in the second case the file
  is already truncated.
\<close>

theorem profile_category_persists:
  assumes "NUL \<notin> set s" and "length s \<le> 255 \<Longrightarrow> \<forall>t. file_text E' t RRD_PROFILE_CATEGORY_FILE = Some (s @ [NEWLINE])"
  shows "let set_s = rrd_SetHandler E (Some \<lparr>prop_name = Some RRD_SET_PROFILE_EVENT, prop_value = Some (RBUS_STRING (Some s))\<rparr>) w;
             ok = (fopen_w_ok E (tick w) RRD_PROFILE_CATEGORY_FILE \<and> fprintf_ok E (Suc (tick w))) in
    if length s > 255 then set_s = Ret RBUS_ERROR_INVALID_INPUT w
    else (\<exists>w1. set_s = Ret (if ok then RBUS_ERROR_SUCCESS else RBUS_ERROR_BUS_ERROR) w1 \<and> profileCategory w1 = s
            \<and> trace w1 = trace w @ (if fopen_w_ok E (tick w) RRD_PROFILE_CATEGORY_FILE then [EvFopen RRD_PROFILE_CATEGORY_FILE] else [])
                @ (if ok then [EvWrite RRD_PROFILE_CATEGORY_FILE (s @ [NEWLINE])] else []))
         \<and> load_profile_category E' w' =
             Ret 0 (w'\<lparr>tick := Suc (tick w'), profileCategory := takeWhile (\<lambda>c. c \<noteq> NEWLINE) s\<rparr>)"
proof (cases "length s > 255")
  case True
  then show ?thesis by (simp add: rrd_SetHandler_def BUF_LEN_256_def ret_def Let_def)
next
  case False
  with load_saved_category [OF assms(1)] assms(2) show ?thesis
    by (auto simp: rrd_SetHandler_def save_profile_category_def BUF_LEN_256_def run_defs Let_def c_strncpy_def)
qed

theorem profile_category_persists_witness:
  "(\<exists>w1. rrd_SetHandler (bench (\<lambda>_. None))
       (Some \<lparr>prop_name = Some RRD_SET_PROFILE_EVENT, prop_value = Some (RBUS_STRING (Some ''Device''))\<rparr>) fresh_world
       = Ret RBUS_ERROR_SUCCESS w1 \<and> trace w1 = [EvFopen RRD_PROFILE_CATEGORY_FILE, EvWrite RRD_PROFILE_CATEGORY_FILE (''Device'' @ [NEWLINE])])
   \<and> load_profile_category (bench (\<lambda>_. Some (''Device'' @ [NEWLINE]))) fresh_world
       = Ret 0 (fresh_world\<lparr>tick := 1, profileCategory := ''Device''\<rparr>)"
proof -
  have "NUL \<notin> set ''Device''" "\<forall>t. file_text (bench (\<lambda>_. Some (''Device'' @ [NEWLINE]))) t RRD_PROFILE_CATEGORY_FILE = Some (''Device'' @ [NEWLINE])"
    by (simp_all add: bench_def)
  from profile_category_persists [OF this, of "bench (\<lambda>_. None)" fresh_world fresh_world] show ?thesis
    by (auto simp: Let_def bench_def fresh_world_def takeWhile_neq_id)
qed

text \<open>
  C38: The handler of web configuration data. For every C string, on every platform with
  memory, the daemon reads behind the copy it made; nothing is queued.
\<close>

theorem webcfg_event_overrun:
  assumes "\<forall>t. malloc_ok E t" and "NUL \<notin> set s"
  shows "\<exists>w'. remoteDebuggerWebCfgDataEventHandler E (Some (Some s)) w = Crash OutOfBoundsRead w' \<and> mq w' = mq w"
  using assms
  by (auto simp: remoteDebuggerWebCfgDataEventHandler_def pushIssueTypesToMsgQueue_def c_string_def c_strncpy_def run_defs)

theorem webcfg_event_overrun_witness:
  "\<exists>w'. remoteDebuggerWebCfgDataEventHandler (bench (\<lambda>_. None)) (Some (Some ''gQ==''))  fresh_world
     = Crash OutOfBoundsRead w' \<and> mq w' = []"
  using webcfg_event_overrun [of "bench (\<lambda>_. None)" "''gQ==''" fresh_world] by (simp add: bench_def)

end
