(* ===== verification/RRD_WebCfg.thy ===== *)
theory RRD_WebCfg
  imports RRD_Interface
begin

text \<open>
  The web configuration decoder: \<^verbatim>\<open>src/src/rrdMsgPackDecoder.c\<close>. A document arrives as
  base64 text of a MessagePack map; the list of issues in it becomes one message of the
  queue. The MessagePack and base64 libraries are functions of a record \<open>webcfg_api\<close>.
  An unpacked string is, as in the library, a pointer into the buffer with a size: the
  model keeps the bytes from the pointer to the end of the buffer. Reading a member of
  the object union that was not stored is a fault, except that an integer member reads
  as some bits, which the record gives.
\<close>

section \<open>Model\<close>

datatype msgpack_object =
    MSGPACK_NIL
  | MSGPACK_BOOLEAN bool
  | MSGPACK_POSITIVE_INTEGER "64 word"
  | MSGPACK_NEGATIVE_INTEGER "64 word"
  | MSGPACK_FLOAT "64 word"
  | MSGPACK_STR nat string
  | MSGPACK_ARRAY "msgpack_object list"
  | MSGPACK_MAP "(msgpack_object \<times> msgpack_object) list"
  | MSGPACK_BIN nat string
  | MSGPACK_EXT nat string

datatype msgpack_object_type =
    MSGPACK_OBJECT_NIL | MSGPACK_OBJECT_BOOLEAN | MSGPACK_OBJECT_POSITIVE_INTEGER | MSGPACK_OBJECT_NEGATIVE_INTEGER
  | MSGPACK_OBJECT_FLOAT | MSGPACK_OBJECT_STR | MSGPACK_OBJECT_ARRAY | MSGPACK_OBJECT_MAP | MSGPACK_OBJECT_BIN
  | MSGPACK_OBJECT_EXT

fun mp_type :: "msgpack_object \<Rightarrow> msgpack_object_type" where
  "mp_type MSGPACK_NIL = MSGPACK_OBJECT_NIL"
| "mp_type (MSGPACK_BOOLEAN _) = MSGPACK_OBJECT_BOOLEAN"
| "mp_type (MSGPACK_POSITIVE_INTEGER _) = MSGPACK_OBJECT_POSITIVE_INTEGER"
| "mp_type (MSGPACK_NEGATIVE_INTEGER _) = MSGPACK_OBJECT_NEGATIVE_INTEGER"
| "mp_type (MSGPACK_FLOAT _) = MSGPACK_OBJECT_FLOAT"
| "mp_type (MSGPACK_STR _ _) = MSGPACK_OBJECT_STR"
| "mp_type (MSGPACK_ARRAY _) = MSGPACK_OBJECT_ARRAY"
| "mp_type (MSGPACK_MAP _) = MSGPACK_OBJECT_MAP"
| "mp_type (MSGPACK_BIN _ _) = MSGPACK_OBJECT_BIN"
| "mp_type (MSGPACK_EXT _ _) = MSGPACK_OBJECT_EXT"

datatype msgpack_unpack_return =
    MSGPACK_UNPACK_SUCCESS | MSGPACK_UNPACK_EXTRA_BYTES | MSGPACK_UNPACK_CONTINUE
  | MSGPACK_UNPACK_PARSE_ERROR | MSGPACK_UNPACK_NOMEM_ERROR

record webcfg_api =
  b64_get_decoded_buffer_size :: "nat \<Rightarrow> nat"
  b64_decode :: "string \<Rightarrow> string option"
  stale_byte :: "nat \<Rightarrow> char"
  msgpack_unpack_next :: "string \<Rightarrow> msgpack_unpack_return \<times> nat \<times> msgpack_object"
  union_bits :: "msgpack_object \<Rightarrow> 64 word"

text \<open>The members of the object union.\<close>

fun via_u64 :: "webcfg_api \<Rightarrow> msgpack_object \<Rightarrow> 64 word" where
  "via_u64 P (MSGPACK_POSITIVE_INTEGER n) = n"
| "via_u64 P (MSGPACK_NEGATIVE_INTEGER n) = n"
| "via_u64 P obj = union_bits P obj"

fun via_str :: "msgpack_object \<Rightarrow> fault + (nat \<times> string)" where
  "via_str (MSGPACK_STR n mem) = Inr (n, mem)"
| "via_str (MSGPACK_BIN n mem) = Inr (n, mem)"
| "via_str _ = Inl WrongMember"

fun via_map :: "msgpack_object \<Rightarrow> fault + (msgpack_object \<times> msgpack_object) list" where
  "via_map (MSGPACK_MAP kvs) = Inr kvs"
| "via_map _ = Inl WrongMember"

text \<open>\<open>strncmp(a, b, n) == 0\<close> for a block of memory and a string.\<close>

fun c_strncmp :: "string \<Rightarrow> string \<Rightarrow> nat \<Rightarrow> fault + bool" where
  "c_strncmp a b 0 = Inr True"
| "c_strncmp [] b (Suc n) = Inl OutOfBoundsRead"
| "c_strncmp (c # a) b (Suc n) =
     (if c \<noteq> c_at b 0 then Inr False else if c = NUL then Inr True else c_strncmp a (tl b) n)"

text \<open>The bytes that \<open>strncat\<close> and \<open>strndup\<close> take from a block.\<close>

definition c_strn :: "nat \<Rightarrow> string \<Rightarrow> string" where
  "c_strn n mem = c_str (take n mem)"

subsection \<open>Searching the map\<close>

text \<open>
  The macro \<open>match\<close> compares as many bytes as the key has. A value of another type than
  expected is returned as well when its key starts with the name.
\<close>

definition key_matches :: "string \<Rightarrow> msgpack_object_type \<Rightarrow> msgpack_object \<times> msgpack_object \<Rightarrow> fault + bool" where
  "key_matches name expect_type kv =
     (case fst kv of
        MSGPACK_STR n mem \<Rightarrow>
          (if mp_type (snd kv) = expect_type then c_strncmp mem name n else c_strncmp mem name (length name))
      | _ \<Rightarrow> Inr False)"

fun finder :: "string \<Rightarrow> msgpack_object_type \<Rightarrow> (msgpack_object \<times> msgpack_object) list \<Rightarrow> fault + msgpack_object option" where
  "finder name expect_type [] = Inr None"
| "finder name expect_type (kv # kvs) =
     (case key_matches name expect_type kv of
        Inl e \<Rightarrow> Inl e
      | Inr True \<Rightarrow> Inr (Some (snd kv))
      | Inr False \<Rightarrow> finder name expect_type kvs)"

subsection \<open>Documents\<close>

record remotedebuggerparam =
  commandList :: "string cptr"
  param_length :: "32 word"

record remotedebuggerdoc =
  param :: "remotedebuggerparam cptr"
  entries_count :: nat
  subdoc_name :: "string cptr"
  version :: "32 word"
  transaction_id :: "16 word"

text \<open>The error numbers of the decoder.\<close>

definition OK :: int where
  "OK = 0"

definition OUT_OF_MEMORY :: int where
  "OUT_OF_MEMORY = 1"

definition INVALID_FIRST_ELEMENT :: int where
  "INVALID_FIRST_ELEMENT = 2"

definition MISSING_ENTRY :: int where
  "MISSING_ENTRY = 3"

definition INVALID_OBJECT :: int where
  "INVALID_OBJECT = 4"

definition INVALID_VERSION :: int where
  "INVALID_VERSION = 5"

text \<open>\<open>remotedebuggerdoc_destroy\<close>: the command list, the parameters, the name, the document.\<close>

definition remotedebuggerdoc_destroy :: "remotedebuggerdoc cptr \<Rightarrow> fault + unit" where
  "remotedebuggerdoc_destroy ld =
     (case ld of Null \<Rightarrow> Inr () | Dangling \<Rightarrow> Inl UseAfterFree
      | Own d \<Rightarrow>
        (case (case param d of Null \<Rightarrow> Inr () | Dangling \<Rightarrow> Inl UseAfterFree
               | Own p \<Rightarrow> c_free (commandList p)) of
           Inl e \<Rightarrow> Inl e
         | Inr _ \<Rightarrow> c_free (subdoc_name d)))"

definition error_map :: "(int \<times> string option) list" where
  "error_map = [(OK, Some ''No errors.''), (OUT_OF_MEMORY, Some ''Out of memory.''),
     (INVALID_FIRST_ELEMENT, Some ''Invalid first element.''), (INVALID_VERSION, Some ''Invalid 'version' value.''),
     (INVALID_OBJECT, Some ''Invalid 'value' array.''), (0, None)]"

fun strerror_loop :: "int \<Rightarrow> (int \<times> string option) list \<Rightarrow> fault + string" where
  "strerror_loop errnum [] = Inl OutOfBoundsRead"
| "strerror_loop errnum ((v, None) # m) = Inr ''Unknown error.''"
| "strerror_loop errnum ((v, Some txt) # m) = (if v \<noteq> errnum then strerror_loop errnum m else Inr txt)"

definition remotedebuggerdoc_strerror :: "int \<Rightarrow> fault + string" where
  "remotedebuggerdoc_strerror errnum = strerror_loop errnum error_map"

text \<open>The size of the joined list, in the unsigned 32-bit arithmetic of the expression.\<close>

fun str_size :: "msgpack_object \<Rightarrow> nat" where
  "str_size (MSGPACK_STR n mem) = n"
| "str_size _ = 0"

definition getReqTotalSizeOfIssueTypesStr :: "msgpack_object list \<Rightarrow> 32 word" where
  "getReqTotalSizeOfIssueTypesStr items =
     foldl (\<lambda>total x. total + of_nat (str_size x)) 0 items + of_nat (length items) + 1"

subsection \<open>Issue types of the document\<close>

text \<open>\<open>strncat\<close> and \<open>strcat\<close> into a zeroed block of \<open>cap\<close> bytes that holds a string.\<close>

definition cat_to :: "nat \<Rightarrow> string \<Rightarrow> string \<Rightarrow> fault + string" where
  "cat_to cap dst src = (if length dst + length src + 1 > cap then Inl BufferOverflow else Inr (dst @ src))"

text \<open>The loop that joins the strings; \<open>n\<close> is the size of the array.\<close>

fun join_loop :: "nat \<Rightarrow> nat \<Rightarrow> nat \<Rightarrow> msgpack_object list \<Rightarrow> string \<Rightarrow> fault + string" where
  "join_loop cap n index [] dst = Inr dst"
| "join_loop cap n index (MSGPACK_STR k mem # xs) dst =
     (case cat_to cap dst (c_strn k mem) of
        Inl e \<Rightarrow> Inl e
      | Inr dst1 \<Rightarrow>
          (case (if index < n - 1 then cat_to cap dst1 '','' else Inr dst1) of
             Inl e \<Rightarrow> Inl e
           | Inr dst2 \<Rightarrow> join_loop cap n (Suc index) xs dst2))"
| "join_loop cap n index (_ # xs) dst = join_loop cap n (Suc index) xs dst"

text \<open>
  The size of the block is computed as an \<open>int\<close>: a negative one asks for more memory than
  there is, and a block of no bytes is written outside.
\<close>

definition fill_param :: "'j platform \<Rightarrow> msgpack_object list \<Rightarrow> remotedebuggerparam prog" where
  "fill_param E items =
     (let resultLen = getReqTotalSizeOfIssueTypesStr items in
      bnd (malloc E) (\<lambda>mem.
      if \<not> mem \<or> sint (resultLen + 1) < 0 then ret \<lparr>commandList = Null, param_length = resultLen\<rparr>
      else if resultLen + 1 = 0 then crash BufferOverflow
      else bnd (lift (join_loop (unat resultLen + 1) (length items) 0 items [])) (\<lambda>txt.
           ret \<lparr>commandList = Own txt, param_length = resultLen\<rparr>)))"

fun process_remotedebuggerparams ::
  "'j platform \<Rightarrow> remotedebuggerparam \<Rightarrow> (msgpack_object \<times> msgpack_object) list \<Rightarrow> (int \<times> remotedebuggerparam) prog" where
  "process_remotedebuggerparams E rrdParam [] = ret (-1, rrdParam)"
| "process_remotedebuggerparams E rrdParam ((MSGPACK_STR k mem, MSGPACK_ARRAY items) # kvs) =
     bnd (lift (c_strncmp mem ''IssueType'' k)) (\<lambda>eq.
     if eq then bnd (fill_param E items) (\<lambda>q. ret (if commandList q = Null then -1 else 0, q))
     else process_remotedebuggerparams E rrdParam kvs)"
| "process_remotedebuggerparams E rrdParam (_ # kvs) = process_remotedebuggerparams E rrdParam kvs"

text \<open>
  The objects that \<open>finder\<close> returned are used without a test. \<open>param_length\<close> is not set
  before the list is found; no code reads it then.
\<close>

definition obj_arg :: "msgpack_object option \<Rightarrow> fault + msgpack_object" where
  "obj_arg obj = (case obj of None \<Rightarrow> Inl NullDeref | Some x \<Rightarrow> Inr x)"

definition process_remotedebuggerdoc ::
  "'j platform \<Rightarrow> webcfg_api \<Rightarrow> remotedebuggerdoc \<Rightarrow> msgpack_object \<Rightarrow> msgpack_object option \<Rightarrow> msgpack_object option
     \<Rightarrow> msgpack_object option \<Rightarrow> (int \<times> remotedebuggerdoc) prog" where
  "process_remotedebuggerdoc E P ld obj obj1 obj2 obj3 =
     bnd (lift (obj_arg obj1)) (\<lambda>o1. bnd (lift (via_str o1)) (\<lambda>(k, mem). bnd (strdup E (c_strn k mem)) (\<lambda>name.
     bnd (lift (obj_arg obj2)) (\<lambda>o2. bnd (lift (obj_arg obj3)) (\<lambda>o3.
     let ld1 = ld\<lparr>subdoc_name := name, version := ucast (via_u64 P o2), transaction_id := ucast (via_u64 P o3), entries_count := 1\<rparr> in
     bnd (malloc E) (\<lambda>got. if \<not> got then ret (-1, ld1) else
     bnd (lift (via_map obj)) (\<lambda>mapobj.
     bnd (process_remotedebuggerparams E \<lparr>commandList = Null, param_length = 0\<rparr> mapobj) (\<lambda>(rc, q).
     ret (if rc \<noteq> 0 then -1 else 0, ld1\<lparr>param := Own q\<rparr>)))))))))"

subsection \<open>Conversion\<close>

definition empty_doc :: remotedebuggerdoc where
  "empty_doc = \<lparr>param = Null, entries_count = 0, subdoc_name = Null, version = 0, transaction_id = 0\<rparr>"

type_synonym process_fn = "remotedebuggerdoc \<Rightarrow> msgpack_object
  \<Rightarrow> (msgpack_object option \<times> msgpack_object option \<times> msgpack_object option) option \<Rightarrow> (int \<times> remotedebuggerdoc) prog"

text \<open>The document with the new value of \<open>errno\<close>, if it is set.\<close>

definition convert_fail :: "remotedebuggerdoc \<Rightarrow> int option \<Rightarrow> (remotedebuggerdoc option \<times> int option) prog" where
  "convert_fail p err = bnd (lift (remotedebuggerdoc_destroy (Own p))) (\<lambda>_. ret (None, err))"

definition convert_inner ::
  "bool \<Rightarrow> process_fn \<Rightarrow> msgpack_object option \<Rightarrow> (msgpack_object option \<times> msgpack_object option \<times> msgpack_object option) option
     \<Rightarrow> (remotedebuggerdoc option \<times> int option) prog" where
  "convert_inner optional process inner args =
     (case inner of
        None \<Rightarrow> (if optional then ret (Some empty_doc, Some OK) else convert_fail empty_doc (Some INVALID_FIRST_ELEMENT))
      | Some obj \<Rightarrow>
          bnd (process empty_doc obj args) (\<lambda>(rc, p).
          if rc = 0 then ret (Some p, Some OK) else convert_fail p (Some INVALID_FIRST_ELEMENT)))"

definition helper_convert ::
  "'j platform \<Rightarrow> webcfg_api \<Rightarrow> string option \<Rightarrow> string \<Rightarrow> msgpack_object_type \<Rightarrow> bool \<Rightarrow> process_fn
     \<Rightarrow> (remotedebuggerdoc option \<times> int option) prog" where
  "helper_convert E P buf wrapper expect_type optional process =
     bnd (malloc E) (\<lambda>mem. if \<not> mem then ret (None, Some OUT_OF_MEMORY) else
     (case buf of
        None \<Rightarrow> ret (Some empty_doc, None)
      | Some bytes \<Rightarrow>
          (if bytes = [] then ret (Some empty_doc, None) else
          (case msgpack_unpack_next P bytes of
             (MSGPACK_UNPACK_SUCCESS, offset, MSGPACK_MAP kvs) \<Rightarrow>
               (if offset = 0 then convert_fail empty_doc None
                else if take (length ''parameters'') wrapper = ''parameters''
                then bnd (lift (finder wrapper expect_type kvs)) (\<lambda>inner. convert_inner optional process inner None)
                else bnd (lift (finder wrapper expect_type kvs)) (\<lambda>inner.
                     bnd (lift (finder ''subdoc_name'' expect_type kvs)) (\<lambda>sd.
                     bnd (lift (finder ''version'' expect_type kvs)) (\<lambda>v.
                     bnd (lift (finder ''transaction_id'' expect_type kvs)) (\<lambda>ti.
                     convert_inner optional process inner (Some (sd, v, ti)))))))
           | _ \<Rightarrow> convert_fail empty_doc None))))"

text \<open>With one argument only, the missing ones would be read from nowhere.\<close>

definition process_doc_args :: "'j platform \<Rightarrow> webcfg_api \<Rightarrow> process_fn" where
  "process_doc_args E P ld obj args =
     (case args of None \<Rightarrow> crash UninitRead
      | Some (o1, o2, o3) \<Rightarrow> process_remotedebuggerdoc E P ld obj o1 o2 o3)"

definition remotedebuggerdoc_convert ::
  "'j platform \<Rightarrow> webcfg_api \<Rightarrow> string option \<Rightarrow> (remotedebuggerdoc option \<times> int option) prog" where
  "remotedebuggerdoc_convert E P buf =
     helper_convert E P buf ''remotedebugger'' MSGPACK_OBJECT_MAP True (process_doc_args E P)"

definition get_msgpack_unpack_status :: "webcfg_api \<Rightarrow> string option \<Rightarrow> nat \<Rightarrow> msgpack_unpack_return" where
  "get_msgpack_unpack_status P decodedbuf n =
     (case decodedbuf of None \<Rightarrow> MSGPACK_UNPACK_NOMEM_ERROR
      | Some block \<Rightarrow> (if n = 0 then MSGPACK_UNPACK_NOMEM_ERROR else fst (msgpack_unpack_next P (take n block))))"

subsection \<open>Applying a document\<close>

definition rollback_Debugger :: int where
  "rollback_Debugger = 0"

definition PrepareDataToPush :: "'j platform \<Rightarrow> string \<Rightarrow> 32 word \<Rightarrow> unit prog" where
  "PrepareDataToPush E list issueTypeListLen =
     bnd (malloc E) (\<lambda>mem. if \<not> mem then ret () else
     (let n = unat issueTypeListLen; copy = c_strncpy n list in
      pushIssueTypesToMsgQueue E (copy @ replicate (n - length copy) NUL @ [NUL]) EVENT_MSG))"

datatype blob_status = BLOB_EXEC_SUCCESS | SYSCFG_FAILURE

record Err =
  ErrorCode :: blob_status
  ErrorMsg :: string

definition doc_list :: "remotedebuggerdoc cptr \<Rightarrow> fault + (string \<times> 32 word) option" where
  "doc_list Data =
     (case Data of Null \<Rightarrow> Inr None | Dangling \<Rightarrow> Inl UseAfterFree
      | Own d \<Rightarrow>
        (case param d of Null \<Rightarrow> Inr None | Dangling \<Rightarrow> Inl UseAfterFree
         | Own q \<Rightarrow>
           (case commandList q of Null \<Rightarrow> Inr None | Dangling \<Rightarrow> Inl UseAfterFree
            | Own list \<Rightarrow> Inr (Some (list, param_length q)))))"

definition Process_RemoteDebugger_WebConfigRequest :: "'j platform \<Rightarrow> remotedebuggerdoc cptr \<Rightarrow> Err option prog" where
  "Process_RemoteDebugger_WebConfigRequest E Data =
     bnd (malloc E) (\<lambda>mem. if \<not> mem then ret None else
     bnd (lift (doc_list Data)) (\<lambda>found. case found of
       Some (list, n) \<Rightarrow>
         bnd (PrepareDataToPush E list n) (\<lambda>_. ret (Some \<lparr>ErrorCode = BLOB_EXEC_SUCCESS, ErrorMsg = []\<rparr>))
     | None \<Rightarrow>
         ret (Some \<lparr>ErrorCode = SYSCFG_FAILURE, ErrorMsg = ''failure while applying remote debugger subdoc''\<rparr>)))"

record execData =
  txid :: "16 word"
  exec_version :: "32 word"
  numOfEntries :: nat
  exec_subdoc_name :: string
  user_data :: "remotedebuggerdoc cptr"

definition FreeResources_RemoteDebugger :: "execData cptr \<Rightarrow> fault + unit" where
  "FreeResources_RemoteDebugger arg =
     (case arg of Null \<Rightarrow> Inr () | Dangling \<Rightarrow> Inl UseAfterFree
      | Own blob_exec_data \<Rightarrow> remotedebuggerdoc_destroy (user_data blob_exec_data))"

subsection \<open>Decoding a message\<close>

text \<open>The decoded block with the number of decoded bytes; the rest of the block was never written.\<close>

definition decoded_block :: "webcfg_api \<Rightarrow> nat \<Rightarrow> string \<Rightarrow> string" where
  "decoded_block P decodeMsgSize bytes =
     bytes @ map (stale_byte P) [length bytes..<decodeMsgSize] @ (if length bytes \<le> decodeMsgSize then [NUL] else [])"

definition get_base64_decodedbuffer :: "'j platform \<Rightarrow> webcfg_api \<Rightarrow> string option \<Rightarrow> (string \<times> nat) option prog" where
  "get_base64_decodedbuffer E P pString =
     (case pString of None \<Rightarrow> ret None
      | Some s \<Rightarrow>
        (let decodeMsgSize = b64_get_decoded_buffer_size P (length s) in
         bnd (malloc E) (\<lambda>mem. if \<not> mem then ret None else
         (case b64_decode P s of None \<Rightarrow> ret None
          | Some bytes \<Rightarrow>
            (if length bytes > decodeMsgSize + 1 then crash BufferOverflow
             else ret (Some (decoded_block P decodeMsgSize bytes, length bytes)))))))"

text \<open>The request that is handed to the web configuration framework, if there is one.\<close>

definition decodeWebCfgData :: "'j platform \<Rightarrow> webcfg_api \<Rightarrow> string option \<Rightarrow> (int \<times> execData option) prog" where
  "decodeWebCfgData E P pString =
     bnd (get_base64_decodedbuffer E P pString) (\<lambda>r. case r of
       None \<Rightarrow> ret (-1, None)
     | Some (block, n) \<Rightarrow>
         (if get_msgpack_unpack_status P (Some block) n = MSGPACK_UNPACK_SUCCESS
          then bnd (remotedebuggerdoc_convert E P (Some (take (n + 1) block))) (\<lambda>(info, _). case info of
                 None \<Rightarrow> ret (-1, None)
               | Some d \<Rightarrow>
                   (let doc = d\<lparr>entries_count := 1\<rparr> in
                    bnd (malloc E) (\<lambda>mem.
                    if mem then ret (0, Some \<lparr>txid = transaction_id doc, exec_version = version doc, numOfEntries = entries_count doc,
                                              exec_subdoc_name = ''remotedebugger'', user_data = Own doc\<rparr>)
                    else bnd (lift (remotedebuggerdoc_destroy (Own doc))) (\<lambda>_. ret (-1, None)))))
          else ret (-1, None)))"

section \<open>Joining the issue types\<close>

text \<open>The list of issues of an array: its strings, each but the last item with a comma.\<close>

definition issue_piece :: "msgpack_object \<Rightarrow> string" where
  "issue_piece x = (case x of MSGPACK_STR k mem \<Rightarrow> c_strn k mem | _ \<Rightarrow> [])"

fun is_str :: "msgpack_object \<Rightarrow> bool" where
  "is_str (MSGPACK_STR _ _) = True"
| "is_str _ = False"

fun joined :: "msgpack_object list \<Rightarrow> string" where
  "joined [] = []"
| "joined (x # xs) = issue_piece x @ (if is_str x \<and> xs \<noteq> [] then '','' else []) @ joined xs"

lemma issue_piece_length: "length (issue_piece x) \<le> str_size x"
  using length_takeWhile_le [of _ "take (str_size x) _"]
  by (cases x) (auto simp: issue_piece_def c_strn_def c_str_def intro: le_trans [OF length_takeWhile_le])

lemma joined_length: "length (joined xs) \<le> sum_list (map str_size xs) + length xs"
proof (induction xs)
  case (Cons x xs)
  then show ?case using issue_piece_length [of x] by auto
qed simp

lemma joined_NUL: "NUL \<notin> set (joined xs)"
proof (induction xs)
  case (Cons x xs)
  have "NUL \<notin> set (issue_piece x)"
    by (cases x) (auto simp: issue_piece_def c_strn_def c_str_def dest: set_takeWhileD)
  with Cons show ?case by auto
qed simp

lemma join_loop_joined:
  assumes "length dst + sum_list (map str_size xs) + length xs < cap" and "index + length xs = n"
  shows "join_loop cap n index xs dst = Inr (dst @ joined xs)"
  using assms
proof (induction xs arbitrary: index dst)
  case (Cons x xs)
  show ?case
  proof (cases "is_str x")
    case True
    then obtain k mem where x: "x = MSGPACK_STR k mem" by (cases x) auto
    let ?d = "dst @ issue_piece x @ (if xs \<noteq> [] then '','' else [])"
    have len: "length (c_strn k mem) \<le> k" using issue_piece_length [of x] x by (simp add: issue_piece_def)
    with Cons.prems x have "join_loop cap n (Suc index) xs ?d = Inr (?d @ joined xs)"
      by (intro Cons.IH) (auto simp: issue_piece_def)
    with Cons.prems x len show ?thesis by (cases "xs = []") (auto simp: cat_to_def issue_piece_def)
  next
    case False
    with Cons show ?thesis by (cases x) (auto simp: issue_piece_def)
  qed
qed simp

lemma total_size:
  "foldl (\<lambda>total x. total + of_nat (str_size x)) (of_nat a) xs = (of_nat (a + sum_list (map str_size xs)) :: 32 word)"
proof (induction xs arbitrary: a)
  case (Cons x xs)
  from Cons [of "a + str_size x"] show ?case by (simp add: algebra_simps)
qed simp

definition needed :: "msgpack_object list \<Rightarrow> nat" where
  "needed xs = sum_list (map str_size xs) + length xs + 1"

lemma total_size_needed: "getReqTotalSizeOfIssueTypesStr xs = of_nat (needed xs)"
  using total_size [of 0 xs] by (simp add: getReqTotalSizeOfIssueTypesStr_def needed_def)

lemma total_size_unat:
  assumes "needed xs + 1 < 2 ^ 31"
  shows "unat (getReqTotalSizeOfIssueTypesStr xs) = needed xs" "sint (getReqTotalSizeOfIssueTypesStr xs + 1) = int (needed xs) + 1"
proof -
  from assms show "unat (getReqTotalSizeOfIssueTypesStr xs) = needed xs"
    by (simp add: total_size_needed unat_of_nat take_bit_nat_eq_self)
  have "getReqTotalSizeOfIssueTypesStr xs + 1 = of_nat (needed xs + 1)" by (simp add: total_size_needed)
  then have "sint (getReqTotalSizeOfIssueTypesStr xs + 1) = int (needed xs + 1)"
    by (simp only: sint_of_nat_small [OF assms])
  then show "sint (getReqTotalSizeOfIssueTypesStr xs + 1) = int (needed xs) + 1" by simp
qed

lemma fill_param_joined:
  assumes "\<forall>t. malloc_ok E t" and "needed xs + 1 < 2 ^ 31"
  shows "fill_param E xs w = Ret \<lparr>commandList = Own (joined xs), param_length = of_nat (needed xs)\<rparr> (w\<lparr>tick := Suc (tick w)\<rparr>)"
proof -
  have "join_loop (needed xs + 1) (length xs) 0 xs [] = Inr (joined xs)"
    using join_loop_joined [of "[]" xs "needed xs + 1" 0 "length xs"] by (simp add: needed_def)
  moreover have "sint (getReqTotalSizeOfIssueTypesStr xs + 1) > 0" by (simp add: total_size_unat [OF assms(2)])
  then have "getReqTotalSizeOfIssueTypesStr xs + 1 \<noteq> 0" "\<not> sint (getReqTotalSizeOfIssueTypesStr xs + 1) < 0" by auto
  ultimately show ?thesis using assms(1) total_size_unat(1) [OF assms(2)]
    by (simp add: fill_param_def Let_def run_defs total_size_needed)
qed

text \<open>The list is taken apart again at the commas.\<close>

lemma joined_tokens:
  assumes "list_all (\<lambda>s. s \<noteq> [] \<and> CHR '','' \<notin> set s \<and> NUL \<notin> set s) ss"
  shows "c_tokens (CHR '','') (joined (map (\<lambda>s. MSGPACK_STR (length s) (s @ f s)) ss)) = ss"
  using assms
proof (induction ss)
  case (Cons s ss)
  have piece: "issue_piece (MSGPACK_STR (length s) (s @ f s)) = s"
    using Cons.prems by (simp add: issue_piece_def c_strn_def c_str_id)
  show ?case
  proof (cases "ss = []")
    case True
    with Cons.prems piece show ?thesis by (simp add: c_tokens_single)
  next
    case False
    with Cons piece show ?thesis by (simp add: c_tokens_append)
  qed
qed simp

section \<open>Keys\<close>

text \<open>
  What the two comparisons decide for keys and names without NUL: a key of the expected
  type is accepted when it is a prefix of the name, another one when the name is a prefix
  of the bytes at the key.
\<close>

lemma strncmp_key:
  assumes "NUL \<notin> set k" and "NUL \<notin> set name"
  shows "c_strncmp (k @ r) name (length k) = Inr (prefix k name)"
  using assms
proof (induction k arbitrary: name)
  case (Cons c k)
  then show ?case by (cases name) (auto simp: c_at_def)
qed simp

lemma strncmp_name:
  assumes "NUL \<notin> set name" and "length name \<le> length mem"
  shows "c_strncmp mem name (length name) = Inr (prefix name mem)"
  using assms
proof (induction name arbitrary: mem)
  case (Cons c name)
  then show ?case by (cases mem) (auto simp: c_at_def)
qed simp

lemma strncmp_benign: "c_strncmp a b n = Inl e \<Longrightarrow> benign e"
  by (induction a b n rule: c_strncmp.induct) (auto split: if_splits)

lemma finder_benign: "finder name ty kvs = Inl e \<Longrightarrow> benign e"
proof (induction kvs)
  case (Cons kv kvs)
  then show ?case
    by (auto simp: key_matches_def split: sum.splits bool.splits msgpack_object.splits if_splits dest: strncmp_benign)
qed simp

section \<open>Memory safety of the decoder\<close>

definition live_doc :: "remotedebuggerdoc \<Rightarrow> bool" where
  "live_doc d \<longleftrightarrow> live (subdoc_name d) \<and> live (param d) \<and> (\<forall>q. param d = Own q \<longrightarrow> live (commandList q))"

definition live_exec :: "execData \<Rightarrow> bool" where
  "live_exec x \<longleftrightarrow> (\<exists>d. user_data x = Own d \<and> live_doc d)"

lemma destroy_live: "live_doc d \<Longrightarrow> remotedebuggerdoc_destroy (Own d) = Inr ()"
  by (auto simp: remotedebuggerdoc_destroy_def live_doc_def split: cptr.splits)

lemma free_exec_live: "live_exec x \<Longrightarrow> FreeResources_RemoteDebugger (Own x) = Inr ()"
  by (auto simp: FreeResources_RemoteDebugger_def live_exec_def destroy_live)

lemma live_doc_empty [simp]: "live_doc empty_doc"
  by (simp add: live_doc_def empty_doc_def)

lemma cat_to_benign: "cat_to cap d s = Inl e \<Longrightarrow> benign e"
  by (auto simp: cat_to_def split: if_splits)

lemma join_loop_benign: "join_loop cap n i xs dst = Inl e \<Longrightarrow> benign e"
  by (induction cap n i xs dst rule: join_loop.induct)
    (auto split: sum.splits if_splits dest: cat_to_benign)

lemma ssafe_fill: "ssafe (fill_param E items) (\<lambda>q. live (commandList q))"
  unfolding fill_param_def Let_def by (intro safe_rules) (auto dest: join_loop_benign)

lemma ssafe_params:
  "live (commandList q) \<Longrightarrow> ssafe (process_remotedebuggerparams E q kvs) (\<lambda>(_, q'). live (commandList q'))"
  by (induction E q kvs rule: process_remotedebuggerparams.induct)
    (auto intro!: safe_rules safe_bnd [OF ssafe_fill] dest: strncmp_benign)

lemma ssafe_strdup: "ssafe (strdup E s) live"
  unfolding strdup_def by (intro safe_rules) simp

lemma obj_arg_benign: "obj_arg x = Inl e \<Longrightarrow> benign e"
  by (auto simp: obj_arg_def split: option.splits)

lemma via_benign: "via_str x = Inl e \<Longrightarrow> benign e" "via_map x = Inl e \<Longrightarrow> benign e"
  by (cases x; auto)+

lemma ssafe_process_doc:
  "live_doc ld \<Longrightarrow> ssafe (process_remotedebuggerdoc E P ld obj o1 o2 o3) (\<lambda>(_, d). live_doc d)"
  unfolding process_remotedebuggerdoc_def Let_def
  by (intro safe_rules safe_bnd [OF ssafe_strdup] safe_bnd [OF ssafe_params])
    (auto simp: live_doc_def dest: obj_arg_benign via_benign)

lemma ssafe_fail: "live_doc d \<Longrightarrow> ssafe (convert_fail d err) (\<lambda>(x, _). x = None)"
  unfolding convert_fail_def by (simp add: destroy_live safe_ret)

definition good_doc :: "remotedebuggerdoc option \<times> int option \<Rightarrow> bool" where
  "good_doc r \<longleftrightarrow> (\<forall>d. fst r = Some d \<longrightarrow> live_doc d)"

lemma ssafe_inner: "ssafe (convert_inner opt (process_doc_args E P) inner args) good_doc"
proof -
  have doc: "ssafe (process_doc_args E P empty_doc obj args) (\<lambda>(_, d). live_doc d)" for obj
    unfolding process_doc_args_def by (intro safe_rules ssafe_process_doc) simp_all
  show ?thesis unfolding convert_inner_def
    by (intro safe_rules safe_bnd [OF doc] safe_weaken [OF ssafe_fail]) (auto simp: good_doc_def)
qed

lemma ssafe_convert: "ssafe (remotedebuggerdoc_convert E P buf) good_doc"
proof -
  have fail: "ssafe (convert_fail empty_doc err) good_doc" for err
    by (rule safe_weaken [OF ssafe_fail]) (auto simp: good_doc_def)
  have found: "ssafe (bnd (lift (finder n t kvs)) k) good_doc" if "\<And>x. ssafe (k x) good_doc" for n t kvs k
    using that by (intro safe_rules) (auto dest: finder_benign)
  show ?thesis unfolding remotedebuggerdoc_convert_def helper_convert_def
    by (auto intro!: safe_rules found ssafe_inner fail simp: good_doc_def
        split: msgpack_unpack_return.splits msgpack_object.splits)
qed

lemma ssafe_decode: "ssafe (decodeWebCfgData E P s) (\<lambda>(_, x). \<forall>y. x = Some y \<longrightarrow> live_exec y)"
proof -
  have b64: "ssafe (get_base64_decodedbuffer E P s) (\<lambda>_. True)"
    unfolding get_base64_decodedbuffer_def Let_def by (intro safe_rules) simp_all
  have entries: "live_doc (d\<lparr>entries_count := n\<rparr>) = live_doc d" for d n by (simp add: live_doc_def)
  show ?thesis unfolding decodeWebCfgData_def Let_def
    by (intro safe_rules safe_bnd [OF b64] safe_bnd [OF ssafe_convert])
      (auto simp: good_doc_def live_exec_def entries destroy_live)
qed

lemma ssafe_apply:
  assumes "live_exec x"
  shows "ssafe (Process_RemoteDebugger_WebConfigRequest E (user_data x)) (\<lambda>_. True)"
proof -
  from assms obtain d where d: "user_data x = Own d" "live_doc d" by (auto simp: live_exec_def)
  then have "\<exists>found. doc_list (user_data x) = Inr found"
  proof (cases "param d")
    case (Own q)
    with d show ?thesis by (cases "commandList q") (auto simp: doc_list_def live_doc_def)
  qed (auto simp: doc_list_def live_doc_def)
  moreover have "ssafe (PrepareDataToPush E list n) (\<lambda>_. True)" for list n
    unfolding PrepareDataToPush_def Let_def by (intro safe_rules ssafe_push) simp
  ultimately show ?thesis unfolding Process_RemoteDebugger_WebConfigRequest_def
    by (intro safe_rules) (auto intro!: safe_rules safe_bnd [where A = "\<lambda>_. True"])
qed

section \<open>A small MessagePack reader\<close>

text \<open>
  A concrete unpacker for the short formats (small positive integers, short strings,
  arrays and maps), to evaluate the decoder on real bytes; the base64 layer is left out.
  Every object needs at least one byte, so fuel for each byte and each level is enough.
\<close>

fun pair_up :: "'a list \<Rightarrow> ('a \<times> 'a) list" where
  "pair_up (a # b # xs) = (a, b) # pair_up xs"
| "pair_up _ = []"

fun mp_obj :: "nat \<Rightarrow> string \<Rightarrow> (msgpack_object \<times> string) option"
  and mp_seq :: "nat \<Rightarrow> nat \<Rightarrow> string \<Rightarrow> (msgpack_object list \<times> string) option" where
  "mp_obj 0 m = None"
| "mp_obj (Suc f) [] = None"
| "mp_obj (Suc f) (c # m) =
     (let b = (of_char c :: int) in
      if b < 128 then Some (MSGPACK_POSITIVE_INTEGER (of_int b), m)
      else if b < 144 then map_option (\<lambda>(xs, m'). (MSGPACK_MAP (pair_up xs), m')) (mp_seq f (nat (2 * (b - 128))) m)
      else if b < 160 then map_option (\<lambda>(xs, m'). (MSGPACK_ARRAY xs, m')) (mp_seq f (nat (b - 144)) m)
      else if b < 192 \<and> nat (b - 160) \<le> length m then Some (MSGPACK_STR (nat (b - 160)) m, drop (nat (b - 160)) m)
      else None)"
| "mp_seq f 0 m = Some ([], m)"
| "mp_seq 0 (Suc n) m = None"
| "mp_seq (Suc f) (Suc n) m =
     (case mp_obj f m of None \<Rightarrow> None
      | Some (x, m') \<Rightarrow> map_option (\<lambda>(xs, m''). (x # xs, m'')) (mp_seq f n m'))"

definition mp_unpack :: "string \<Rightarrow> msgpack_unpack_return \<times> nat \<times> msgpack_object" where
  "mp_unpack bytes = (case mp_obj (2 * length bytes) bytes of
     None \<Rightarrow> (MSGPACK_UNPACK_PARSE_ERROR, 0, MSGPACK_NIL)
   | Some (x, rest) \<Rightarrow> (MSGPACK_UNPACK_SUCCESS, length bytes - length rest, x))"

definition plain_api :: webcfg_api where
  "plain_api = \<lparr>b64_get_decoded_buffer_size = (\<lambda>n. n), b64_decode = Some, stale_byte = (\<lambda>_. NUL),
     msgpack_unpack_next = mp_unpack, union_bits = (\<lambda>_. 0)\<rparr>"

definition fixstr :: "string \<Rightarrow> string" where
  "fixstr s = char_of (160 + int (length s)) # s"

text \<open>A document with two issues.\<close>

definition sample_doc :: string where
  "sample_doc = [char_of (132 :: int)]
     @ fixstr ''remotedebugger'' @ [char_of (129 :: int)] @ fixstr ''IssueType'' @ [char_of (146 :: int)] @ fixstr ''Device.Info'' @ fixstr ''Wifi''
     @ fixstr ''subdoc_name'' @ fixstr ''remotedebugger''
     @ fixstr ''version'' @ [char_of (7 :: int)]
     @ fixstr ''transaction_id'' @ [char_of (9 :: int)]"

section \<open>Properties\<close>

text \<open>The four members of a document, as the search finds them.\<close>

definition doc_members ::
  "(msgpack_object \<times> msgpack_object) list \<Rightarrow> msgpack_object \<Rightarrow> msgpack_object \<Rightarrow> msgpack_object \<Rightarrow> msgpack_object \<Rightarrow> bool" where
  "doc_members kvs body nm v ti \<longleftrightarrow>
     finder ''remotedebugger'' MSGPACK_OBJECT_MAP kvs = Inr (Some body)
     \<and> finder ''subdoc_name'' MSGPACK_OBJECT_MAP kvs = Inr (Some nm)
     \<and> finder ''version'' MSGPACK_OBJECT_MAP kvs = Inr (Some v)
     \<and> finder ''transaction_id'' MSGPACK_OBJECT_MAP kvs = Inr (Some ti)"

text \<open>What the two unpackings of a message see, when it decodes to a map.\<close>

definition decodes_to :: "webcfg_api \<Rightarrow> string \<Rightarrow> (msgpack_object \<times> msgpack_object) list \<Rightarrow> bool" where
  "decodes_to P s kvs \<longleftrightarrow>
     (case b64_decode P s of None \<Rightarrow> False
      | Some bytes \<Rightarrow>
        (let n = b64_get_decoded_buffer_size P (length s) in
         bytes \<noteq> [] \<and> length bytes \<le> n \<and> fst (msgpack_unpack_next P bytes) = MSGPACK_UNPACK_SUCCESS
         \<and> (case msgpack_unpack_next P (take (Suc (length bytes)) (decoded_block P n bytes)) of
              (status, off, obj) \<Rightarrow> status = MSGPACK_UNPACK_SUCCESS \<and> 0 < off \<and> obj = MSGPACK_MAP kvs)))"

lemma issue_key: "c_strncmp (''IssueType'' @ r) ''IssueType'' 9 = Inr True"
  by (simp add: eval_nat_numeral c_at_def)

lemma decode_convert:
  assumes "\<forall>t. malloc_ok E t" and "decodes_to P s kvs"
    and found: "finder ''remotedebugger'' MSGPACK_OBJECT_MAP kvs = Inr inner" "finder ''subdoc_name'' MSGPACK_OBJECT_MAP kvs = Inr sd"
      "finder ''version'' MSGPACK_OBJECT_MAP kvs = Inr v" "finder ''transaction_id'' MSGPACK_OBJECT_MAP kvs = Inr ti"
  shows "decodeWebCfgData E P (Some s) w =
    (case convert_inner True (process_doc_args E P) inner (Some (sd, v, ti)) (w\<lparr>tick := Suc (Suc (tick w))\<rparr>) of
     Crash e w' \<Rightarrow> Crash e w'
   | Ret (info, _) w' \<Rightarrow> (case info of None \<Rightarrow> Ret (-1, None) w'
       | Some d \<Rightarrow> Ret (0, Some \<lparr>txid = transaction_id d, exec_version = version d, numOfEntries = 1,
           exec_subdoc_name = ''remotedebugger'', user_data = Own (d\<lparr>entries_count := 1\<rparr>)\<rparr>) (w'\<lparr>tick := Suc (tick w')\<rparr>)))"
proof -
  from assms(2) obtain bytes off where b: "b64_decode P s = Some bytes" "bytes \<noteq> []"
    "length bytes \<le> b64_get_decoded_buffer_size P (length s)" "fst (msgpack_unpack_next P bytes) = MSGPACK_UNPACK_SUCCESS"
    "msgpack_unpack_next P (take (Suc (length bytes)) (decoded_block P (b64_get_decoded_buffer_size P (length s)) bytes))
       = (MSGPACK_UNPACK_SUCCESS, off, MSGPACK_MAP kvs)" "0 < off"
    by (auto simp: decodes_to_def Let_def split: option.splits)
  let ?block = "decoded_block P (b64_get_decoded_buffer_size P (length s)) bytes"
  have status: "get_msgpack_unpack_status P (Some ?block) (length bytes) = MSGPACK_UNPACK_SUCCESS"
    using b(2,4) by (simp add: get_msgpack_unpack_status_def decoded_block_def)
  have conv: "remotedebuggerdoc_convert E P (Some (take (Suc (length bytes)) ?block)) w0
      = convert_inner True (process_doc_args E P) inner (Some (sd, v, ti)) (w0\<lparr>tick := Suc (tick w0)\<rparr>)" for w0
    using assms(1) b found by (simp add: remotedebuggerdoc_convert_def helper_convert_def run_defs decoded_block_def)
  have b64: "get_base64_decodedbuffer E P (Some s) w = Ret (Some (?block, length bytes)) (w\<lparr>tick := Suc (tick w)\<rparr>)"
    using assms(1) b(1,3) by (simp add: get_base64_decodedbuffer_def run_defs Let_def)
  show ?thesis
    using assms(1) status conv [of "w\<lparr>tick := Suc (tick w)\<rparr>"] b64
    by (cases "convert_inner True (process_doc_args E P) inner (Some (sd, v, ti)) (w\<lparr>tick := Suc (Suc (tick w))\<rparr>)")
      (auto simp: decodeWebCfgData_def run_defs Let_def split: option.splits)
qed

text \<open>Applying a request whose document has a list.\<close>

lemma apply_list:
  assumes "\<forall>t. malloc_ok E t" and "\<forall>t. msgsnd_ok E t" and "doc_list d = Inr (Some (list, of_nat n))"
    and "NUL \<notin> set list" and "length list \<le> n" and "n < 2 ^ 31"
  shows "\<exists>w'. Process_RemoteDebugger_WebConfigRequest E d w = Ret (Some \<lparr>ErrorCode = BLOB_EXEC_SUCCESS, ErrorMsg = []\<rparr>) w'
    \<and> cache w' = cache w \<and> trace w' = trace w
    \<and> mq w' = mq w @ [(RRD_data_buff_init EVENT_MSG RRD_DEEPSLEEP_INVALID_DEFAULT)
         \<lparr>mdata := Own (snd (checkAppendRequest list)), appendMode := fst (checkAppendRequest list)\<rparr>]"
proof -
  have n: "unat (of_nat n :: 32 word) = n" using assms(6) by (simp add: unat_of_nat take_bit_nat_eq_self)
  have copy: "c_string (list @ replicate (n - length list) NUL @ [NUL]) = Inr list"
    using assms(4) by (cases "n - length list") (auto simp: c_string_def c_str_def takeWhile_neq_append)
  show ?thesis using assms(1-3,5) copy
    by (auto simp: Process_RemoteDebugger_WebConfigRequest_def PrepareDataToPush_def pushIssueTypesToMsgQueue_def
        RRDMsgDeliver_def run_defs Let_def c_strncpy_def n split: prod.splits)
qed

lemma joined_needed: "length (joined xs) \<le> needed xs"
  using joined_length [of xs] by (simp add: needed_def)

text \<open>
  C34: A document that decodes to a map with the issue types, a name, a version and a
  transaction number becomes a request with that version and transaction; applying it
  queues exactly one message with the joined list of issues, an append mark at its end
  taken off and noted; and the resources can be freed afterwards.
\<close>

theorem webcfg_document_queued:
  assumes "\<forall>t. malloc_ok E t" and "\<forall>t. msgsnd_ok E t" and "decodes_to P s kvs"
    and "doc_members kvs (MSGPACK_MAP [(MSGPACK_STR 9 (''IssueType'' @ r), MSGPACK_ARRAY items)]) (MSGPACK_STR k nm)
           (MSGPACK_POSITIVE_INTEGER v) (MSGPACK_POSITIVE_INTEGER ti)"
    and "needed items + 1 < 2 ^ 31"
  shows "\<exists>x w1 w2. decodeWebCfgData E P (Some s) w = Ret (0, Some x) w1 \<and> mq w1 = mq w
    \<and> exec_version x = ucast v \<and> txid x = ucast ti
    \<and> Process_RemoteDebugger_WebConfigRequest E (user_data x) w1 = Ret (Some \<lparr>ErrorCode = BLOB_EXEC_SUCCESS, ErrorMsg = []\<rparr>) w2
    \<and> mq w2 = mq w @ [(RRD_data_buff_init EVENT_MSG RRD_DEEPSLEEP_INVALID_DEFAULT)
         \<lparr>mdata := Own (snd (checkAppendRequest (joined items))), appendMode := fst (checkAppendRequest (joined items))\<rparr>]
    \<and> FreeResources_RemoteDebugger (Own x) = Inr ()"
proof -
  let ?q = "\<lparr>commandList = Own (joined items), param_length = of_nat (needed items)\<rparr>"
  let ?d = "\<lparr>param = Own ?q, entries_count = 1, subdoc_name = Own (c_strn k nm), version = ucast v, transaction_id = ucast ti\<rparr>"
  let ?x = "\<lparr>txid = ucast ti, exec_version = ucast v, numOfEntries = 1, exec_subdoc_name = ''remotedebugger'', user_data = Own ?d\<rparr>"
  note m = assms(4) [unfolded doc_members_def]
  let ?body = "MSGPACK_MAP [(MSGPACK_STR 9 (''IssueType'' @ r), MSGPACK_ARRAY items)]"
  let ?w = "w\<lparr>tick := Suc (Suc (tick w))\<rparr>"
  obtain t where "convert_inner True (process_doc_args E P) (Some ?body)
      (Some (Some (MSGPACK_STR k nm), Some (MSGPACK_POSITIVE_INTEGER v), Some (MSGPACK_POSITIVE_INTEGER ti))) ?w
      = Ret (Some ?d, Some OK) (?w\<lparr>tick := t\<rparr>)"
    using assms(1) fill_param_joined [OF assms(1,5)] issue_key [of r]
    by (auto simp: convert_inner_def process_doc_args_def process_remotedebuggerdoc_def obj_arg_def strdup_def
        empty_doc_def run_defs Let_def simp del: append.simps)
  with decode_convert [OF assms(1,3), of "Some ?body" "Some (MSGPACK_STR k nm)" "Some (MSGPACK_POSITIVE_INTEGER v)"
      "Some (MSGPACK_POSITIVE_INTEGER ti)" w] m
  have "decodeWebCfgData E P (Some s) w = Ret (0, Some ?x) (w\<lparr>tick := Suc t\<rparr>)" by simp
  moreover from assms joined_NUL joined_needed obtain w2 where
    "Process_RemoteDebugger_WebConfigRequest E (Own ?d) (w\<lparr>tick := Suc t\<rparr>) = Ret (Some \<lparr>ErrorCode = BLOB_EXEC_SUCCESS, ErrorMsg = []\<rparr>) w2"
    "mq w2 = mq w @ [(RRD_data_buff_init EVENT_MSG RRD_DEEPSLEEP_INVALID_DEFAULT)
         \<lparr>mdata := Own (snd (checkAppendRequest (joined items))), appendMode := fst (checkAppendRequest (joined items))\<rparr>]"
    using apply_list [OF assms(1,2), of "Own ?d" "joined items" "needed items" "w\<lparr>tick := Suc t\<rparr>"] by (auto simp: doc_list_def)
  moreover have "live_exec ?x" by (simp add: live_exec_def live_doc_def)
  ultimately show ?thesis using free_exec_live [of ?x] by fastforce
qed

text \<open>The sample document, unpacked.\<close>

definition sample_mem :: "nat \<Rightarrow> string" where
  "sample_mem n = drop n (sample_doc @ [NUL])"

definition sample_kvs :: "(msgpack_object \<times> msgpack_object) list" where
  "sample_kvs = (case mp_unpack (sample_doc @ [NUL]) of (_, _, MSGPACK_MAP kvs) \<Rightarrow> kvs | _ \<Rightarrow> [])"

definition sample_items :: "msgpack_object list" where
  "sample_items = [MSGPACK_STR 11 (sample_mem 29), MSGPACK_STR 4 (sample_mem 41)]"

lemma sample_facts:
  "decodes_to plain_api sample_doc sample_kvs"
  "doc_members sample_kvs (MSGPACK_MAP [(MSGPACK_STR 9 (''IssueType'' @ sample_mem 27), MSGPACK_ARRAY sample_items)])
     (MSGPACK_STR 14 (sample_mem 58)) (MSGPACK_POSITIVE_INTEGER 7) (MSGPACK_POSITIVE_INTEGER 9)"
  "needed sample_items = 18" "checkAppendRequest (joined sample_items) = (False, ''Device.Info,Wifi'')"
  by code_simp+

theorem webcfg_document_queued_witness:
  "\<exists>x w1 w2. decodeWebCfgData (bench (\<lambda>_. None)) plain_api (Some sample_doc) fresh_world = Ret (0, Some x) w1
    \<and> exec_version x = 7 \<and> txid x = 9
    \<and> Process_RemoteDebugger_WebConfigRequest (bench (\<lambda>_. None)) (user_data x) w1
        = Ret (Some \<lparr>ErrorCode = BLOB_EXEC_SUCCESS, ErrorMsg = []\<rparr>) w2
    \<and> mq w2 = [(RRD_data_buff_init EVENT_MSG RRD_DEEPSLEEP_INVALID_DEFAULT)\<lparr>mdata := Own ''Device.Info,Wifi'', appendMode := False\<rparr>]
    \<and> FreeResources_RemoteDebugger (Own x) = Inr ()"
proof -
  have "\<forall>t. malloc_ok (bench (\<lambda>_. None)) t" "\<forall>t. msgsnd_ok (bench (\<lambda>_. None)) t" "needed sample_items + 1 < 2 ^ 31"
    by (simp_all add: bench_def sample_facts(3))
  from webcfg_document_queued [OF this(1,2) sample_facts(1,2) this(3), of fresh_world] show ?thesis
    unfolding sample_facts(4) fst_conv snd_conv by fastforce
qed



text \<open>
  Which entry the search of a map returns: the first one whose key is accepted. A key
  whose value has the expected type is accepted when it is a prefix of the name, so that
  the empty key is always accepted; any other one when the bytes at the key start with
  the name, so that a longer key is accepted and its value has the wrong type.
\<close>

theorem finder_first_match:
  assumes "NUL \<notin> set name" and "list_all (\<lambda>(k, r, v). NUL \<notin> set k \<and> length name \<le> length (k @ r)) es"
  shows "finder name ty (map (\<lambda>(k, r, v). (MSGPACK_STR (length k) (k @ r), v)) es) =
    Inr (map_option (\<lambda>(k, r, v). v)
      (List.find (\<lambda>(k, r, v). if mp_type v = ty then prefix k name else prefix name (k @ r)) es))"
  using assms(2)
proof (induction es)
  case (Cons e es)
  obtain k r v where e: "e = (k, r, v)" by (cases e)
  have "key_matches name ty (MSGPACK_STR (length k) (k @ r), v)
      = Inr (if mp_type v = ty then prefix k name else prefix name (k @ r))"
    using Cons.prems e assms(1) strncmp_key [of k name r] strncmp_name [of name "k @ r"] by (auto simp: key_matches_def)
  with Cons e show ?case by (auto simp: list_all_iff)
qed simp

theorem finder_first_match_witness:
  "finder ''version'' MSGPACK_OBJECT_MAP (map (\<lambda>(k, r, v). (MSGPACK_STR (length k) (k @ r), v))
     [(''remotedebugger'', [], MSGPACK_MAP []), (''versions'', ''xyz'', MSGPACK_NIL), (''version'', '' '', MSGPACK_POSITIVE_INTEGER 7)])
   = Inr (Some MSGPACK_NIL)"
proof -
  have "NUL \<notin> set ''version''" by simp
  then show ?thesis
    by (subst finder_first_match) (simp_all add: prefix_def)
qed

text \<open>
  C37: A document that has issue types but no name, version or transaction number makes the
  daemon dereference NULL, although the search reported the missing entry.
\<close>

theorem webcfg_missing_member_crashes:
  assumes "\<forall>t. malloc_ok E t" and "decodes_to P s kvs"
    and "finder ''remotedebugger'' MSGPACK_OBJECT_MAP kvs = Inr (Some body)"
    and "finder ''subdoc_name'' MSGPACK_OBJECT_MAP kvs = Inr sd" and "sd = None \<or> sd = Some (MSGPACK_STR k nm)"
    and "finder ''version'' MSGPACK_OBJECT_MAP kvs = Inr v" and "finder ''transaction_id'' MSGPACK_OBJECT_MAP kvs = Inr ti"
    and "None \<in> {sd, v, ti}"
  shows "\<exists>w'. decodeWebCfgData E P (Some s) w = Crash NullDeref w' \<and> mq w' = mq w"
proof -
  let ?w = "w\<lparr>tick := Suc (Suc (tick w))\<rparr>"
  have "\<exists>t. convert_inner True (process_doc_args E P) (Some body) (Some (sd, v, ti)) ?w = Crash NullDeref (w\<lparr>tick := t\<rparr>)"
    using assms(1,5,8)
    by (auto simp: convert_inner_def process_doc_args_def process_remotedebuggerdoc_def obj_arg_def strdup_def run_defs
        split: option.splits)
  then show ?thesis using decode_convert [OF assms(1-4,6,7), of w] by auto
qed

theorem webcfg_missing_member_crashes_witness:
  "\<exists>w'. decodeWebCfgData (bench (\<lambda>_. None)) plain_api (Some ([char_of (129 :: int)] @ fixstr ''remotedebugger'' @ [char_of (128 :: int)])) fresh_world
     = Crash NullDeref w' \<and> mq w' = []"
proof -
  let ?s = "[char_of (129 :: int)] @ fixstr ''remotedebugger'' @ [char_of (128 :: int)]"
  let ?kvs = "[(MSGPACK_STR 14 (''remotedebugger'' @ [char_of (128 :: int), NUL]), MSGPACK_MAP [])]"
  have "\<forall>t. malloc_ok (bench (\<lambda>_. None)) t" by (simp add: bench_def)
  moreover have "decodes_to plain_api ?s ?kvs" by code_simp
  moreover have "finder ''remotedebugger'' MSGPACK_OBJECT_MAP ?kvs = Inr (Some (MSGPACK_MAP []))"
    "finder ''subdoc_name'' MSGPACK_OBJECT_MAP ?kvs = Inr None" "finder ''version'' MSGPACK_OBJECT_MAP ?kvs = Inr None"
    "finder ''transaction_id'' MSGPACK_OBJECT_MAP ?kvs = Inr None" by code_simp+
  ultimately show ?thesis
    using webcfg_missing_member_crashes [of "bench (\<lambda>_. None)" plain_api ?s ?kvs "MSGPACK_MAP []" None _ _ None None fresh_world]
    by simp
qed

end
