(* ===== verification/RRD_Bus.thy ===== *)
theory RRD_Bus
  imports RRD_Interface
begin

text \<open>
  Connecting to the buses and leaving them: \<open>RRD_subscribe\<close> and \<open>RRD_unsubscribe\<close> of
  \<^verbatim>\<open>src/src/rrdInterface.c\<close> and their IARM parts in \<^verbatim>\<open>src/src/rrdIarmEvents.c\<close>. The
  libraries answer each call with a number; what is called is recorded in the trace. The
  loop that waits for the power controller may run for ever and has fuel.
\<close>

section \<open>Model\<close>

definition RRD_SET_ISSUE_EVENT :: string where
  "RRD_SET_ISSUE_EVENT = ''Device.DeviceInfo.X_RDKCENTRAL-COM_RFC.Feature.RDKRemoteDebugger.IssueType''"

definition RRD_WEBCFG_ISSUE_EVENT :: string where
  "RRD_WEBCFG_ISSUE_EVENT = ''Device.DeviceInfo.X_RDKCENTRAL-COM_RFC.Feature.RDKRemoteDebugger.WebCfgData''"

definition RDM_DOWNLOAD_EVENT :: string where
  "RDM_DOWNLOAD_EVENT = ''Device.DeviceInfo.X_RDKCENTRAL-COM_RDKDownloadManager.DownloadStatus''"

definition bus_call_rc :: "'j platform \<Rightarrow> bus_call \<Rightarrow> int prog" where
  "bus_call_rc E c = bnd (emit (EvBus c)) (\<lambda>_. ask (\<lambda>t. bus_rc E t c))"

subsection \<open>The power controller\<close>

definition RETRYSLEEP :: nat where
  "RETRYSLEEP = 300 * 1000"

fun connect_loop :: "nat \<Rightarrow> 'j platform \<Rightarrow> unit prog" where
  "connect_loop 0 E = crash NoReturn"
| "connect_loop (Suc n) E =
     bnd (bus_call_rc E PowerController_Connect) (\<lambda>rc.
     if rc = 0 then modify (\<lambda>w. w\<lparr>isPwrCtlInterface := True\<rparr>)
     else bnd (emit (EvUsleep RETRYSLEEP)) (\<lambda>_. connect_loop n E))"

definition getPwrCtrlInterface :: "nat \<Rightarrow> 'j platform \<Rightarrow> unit prog" where
  "getPwrCtrlInterface n E =
     bnd (emit (EvSleep 5)) (\<lambda>_.
     bnd (emit (EvBus PowerController_Init)) (\<lambda>_.
     bnd (connect_loop n E) (\<lambda>_.
     bnd (bus_call_rc E PowerController_Register) (\<lambda>_. ret ()))))"

subsection \<open>Connecting\<close>

definition RRD_IARM_subscribe :: "'j platform \<Rightarrow> int prog" where
  "RRD_IARM_subscribe E =
     bnd (bus_call_rc E IARM_Bus_Init) (\<lambda>r1. if r1 \<noteq> 0 then ret r1 else
     bnd (bus_call_rc E IARM_Bus_Connect) (\<lambda>r2. if r2 \<noteq> 0 then ret r2 else
     bnd (bus_call_rc E IARM_Register_RDMMGR) (\<lambda>r3. if r3 \<noteq> 0 then ret r3 else
     if PWRMGR_PLUGIN (bld E)
     then bnd (bus_call_rc E Pthread_create) (\<lambda>c.
          if c = 0 then bnd (bus_call_rc E Pthread_detach) (\<lambda>_. ret r3) else ret r3)
     else bus_call_rc E IARM_Register_PWRMGR)))"

definition subscriptions :: "build \<Rightarrow> (string \<times> handler) list" where
  "subscriptions B = [(RRD_SET_ISSUE_EVENT, IssueHandler), (RRD_WEBCFG_ISSUE_EVENT, WebCfgHandler)]
     @ (if IARMBUS_SUPPORT B \<and> \<not> USE_L2_SUPPORT B then [] else [(RDM_DOWNLOAD_EVENT, DownloadHandler)])"

definition profileDataElements :: "string list" where
  "profileDataElements = [RRD_SET_PROFILE_EVENT, RRD_GET_PROFILE_EVENT]"

text \<open>The block for the registration is cleared without a test for NULL.\<close>

definition webconfigFrameworkInit :: "'j platform \<Rightarrow> unit prog" where
  "webconfigFrameworkInit E =
     bnd (malloc E) (\<lambda>mem. if mem then emit (EvBus (Register_sub_docs ''remotedebugger'')) else crash NullDeref)"

definition RRD_subscribe :: "'j platform \<Rightarrow> int prog" where
  "RRD_subscribe E =
     bnd (if IARMBUS_SUPPORT (bld E) then RRD_IARM_subscribe E else ret 0) (\<lambda>r1. if r1 \<noteq> 0 then ret r1 else
     bnd (bus_call_rc E Rbus_open) (\<lambda>r2. if r2 \<noteq> 0 then ret r2 else
     bnd (bus_call_rc E (RbusEvent_SubscribeEx (subscriptions (bld E)))) (\<lambda>r3.
     bnd (load_profile_category E) (\<lambda>_.
     bnd (bus_call_rc E (Rbus_regDataElements profileDataElements)) (\<lambda>res.
     bnd (webconfigFrameworkInit E) (\<lambda>_. ret (if res \<noteq> 0 \<and> r3 = 0 then res else r3)))))))"

subsection \<open>Leaving\<close>

definition RRD_IARM_unsubscribe :: "'j platform \<Rightarrow> int prog" where
  "RRD_IARM_unsubscribe E =
     bnd (bus_call_rc E IARM_Bus_Disconnect) (\<lambda>r1. if r1 \<noteq> 0 then ret r1 else
     bnd (bus_call_rc E IARM_Bus_Term) (\<lambda>r2. if r2 \<noteq> 0 then ret r2 else
     bnd (bus_call_rc E IARM_UnRegister_RDMMGR) (\<lambda>r3. if r3 \<noteq> 0 then ret r3 else
     if PWRMGR_PLUGIN (bld E)
     then bnd (peek isPwrCtlInterface) (\<lambda>connected.
          if connected
          then bnd (bus_call_rc E PowerController_UnRegister) (\<lambda>r4.
               bnd (emit (EvBus PowerController_Term)) (\<lambda>_. ret r4))
          else ret r3)
     else bus_call_rc E IARM_UnRegister_PWRMGR)))"

definition RRD_unsubscribe :: "'j platform \<Rightarrow> int prog" where
  "RRD_unsubscribe E =
     bnd (if IARMBUS_SUPPORT (bld E) then RRD_IARM_unsubscribe E else ret 0) (\<lambda>r1. if r1 \<noteq> 0 then ret r1 else
     bnd (bus_call_rc E (RbusEvent_UnsubscribeEx 3)) (\<lambda>r2. if r2 \<noteq> 0 then ret r2 else
     bnd (bus_call_rc E (Rbus_unregDataElements profileDataElements)) (\<lambda>_.
     bus_call_rc E Rbus_close)))"

section \<open>Properties\<close>

text \<open>The calls of a complete subscription; \<open>started\<close>: the power thread could be created.\<close>

definition iarm_calls :: "build \<Rightarrow> bool \<Rightarrow> bus_call list" where
  "iarm_calls B started =
     (if IARMBUS_SUPPORT B
      then [IARM_Bus_Init, IARM_Bus_Connect, IARM_Register_RDMMGR]
           @ (if PWRMGR_PLUGIN B then Pthread_create # (if started then [Pthread_detach] else []) else [IARM_Register_PWRMGR])
      else [])"

definition subscribe_calls :: "build \<Rightarrow> bool \<Rightarrow> bus_call list" where
  "subscribe_calls B started = iarm_calls B started
     @ [Rbus_open, RbusEvent_SubscribeEx (subscriptions B), Rbus_regDataElements profileDataElements,
        Register_sub_docs ''remotedebugger'']"

lemma load_category_run: "\<exists>rc c. load_profile_category E w = Ret rc (w\<lparr>tick := Suc (tick w), profileCategory := c\<rparr>)"
  by (auto simp: load_profile_category_def run_defs split: option.splits list.splits)

lemma bus_call_rc_run:
  "bus_call_rc E c w = Ret (bus_rc E (tick w) c) (w\<lparr>tick := Suc (tick w), trace := trace w @ [EvBus c]\<rparr>)"
  by (simp add: bus_call_rc_def run_defs)

fun bus_calls :: "event list \<Rightarrow> bus_call list" where
  "bus_calls [] = []"
| "bus_calls (EvBus c # es) = c # bus_calls es"
| "bus_calls (_ # es) = bus_calls es"

lemma bus_calls_append [simp]: "bus_calls (xs @ ys) = bus_calls xs @ bus_calls ys"
  by (induction xs rule: bus_calls.induct) auto

lemma acts_bus_call [act_rules]: "(\<And>r. Q r [EvBus c]) \<Longrightarrow> acts (bus_call_rc E c) Q"
  unfolding bus_call_rc_def by (intro act_rules acts_reads [OF reads_ask [where Q = "\<lambda>_. True"]]) auto

lemma acts_bnd_bus_call [act_rules]:
  "(\<And>r. acts (k r) (\<lambda>y fs. Q y (EvBus c # fs))) \<Longrightarrow> acts (bnd (bus_call_rc E c) k) Q"
  by (rule acts_bnd [where A = "\<lambda>r es. es = [EvBus c]"]) (auto intro: act_rules)

lemma iarm_part:
  "acts (if IARMBUS_SUPPORT (bld E) then RRD_IARM_subscribe E else ret 0)
     (\<lambda>r es. \<exists>s. prefix (bus_calls es) (iarm_calls (bld E) s) \<and> (r = 0 \<longrightarrow> bus_calls es = iarm_calls (bld E) s))"
  unfolding RRD_IARM_subscribe_def iarm_calls_def by (intro act_rules) auto

text \<open>
  Connecting to the buses. On a platform with memory the daemon makes the calls of the
  subscription in their order and stops at the first one that must succeed and fails; it
  reports success only when every call was made, so that all handlers are registered.
  Queue and cache are untouched.
\<close>

theorem subscribe_complete:
  assumes "\<forall>t. malloc_ok E t"
  shows "\<exists>r w' es started. RRD_subscribe E w = Ret r w' \<and> trace w' = trace w @ es \<and> mq w' = mq w \<and> cache w' = cache w
    \<and> prefix (bus_calls es) (subscribe_calls (bld E) started)
    \<and> (if r = 0 then bus_calls es = subscribe_calls (bld E) started else True)"
proof -
  from iarm_part [of E] obtain r t es s where
    i: "(if IARMBUS_SUPPORT (bld E) then RRD_IARM_subscribe E else ret 0) w = Ret r (w\<lparr>tick := t, trace := trace w @ es\<rparr>)"
      "prefix (bus_calls es) (iarm_calls (bld E) s)" "r = 0 \<longrightarrow> bus_calls es = iarm_calls (bld E) s"
    unfolding acts_def by blast
  let ?open = "es @ [EvBus Rbus_open]"
  let ?all = "?open @ [EvBus (RbusEvent_SubscribeEx (subscriptions (bld E))), EvBus (Rbus_regDataElements profileDataElements),
    EvBus (Register_sub_docs ''remotedebugger'')]"
  let ?w = "w\<lparr>tick := Suc (Suc t), trace := trace w @ ?open @ [EvBus (RbusEvent_SubscribeEx (subscriptions (bld E)))]\<rparr>"
  obtain rc c where l: "load_profile_category E ?w = Ret rc (?w\<lparr>tick := Suc (tick ?w), profileCategory := c\<rparr>)"
    using load_category_run by blast
  note run = bnd_def bus_call_rc_run ret_def RRD_subscribe_def i(1) webconfigFrameworkInit_def malloc_def ask_def emit_def
  consider "r \<noteq> 0" | "r = 0" "bus_rc E t Rbus_open \<noteq> 0" | "r = 0" "bus_rc E t Rbus_open = 0" by blast
  then show ?thesis
  proof cases
    case 1
    with i(2) show ?thesis
      by (intro exI [of _ r] exI [of _ "w\<lparr>tick := t, trace := trace w @ es\<rparr>"] exI [of _ es] exI [of _ s])
        (auto simp: run subscribe_calls_def)
  next
    case 2
    with i(3) show ?thesis
      by (intro exI [of _ "bus_rc E t Rbus_open"] exI [of _ "w\<lparr>tick := Suc t, trace := trace w @ ?open\<rparr>"] exI [of _ ?open] exI [of _ s])
        (auto simp: run subscribe_calls_def)
  next
    case 3
    let ?res = "bus_rc E (Suc (Suc (Suc t))) (Rbus_regDataElements profileDataElements)"
    let ?r3 = "bus_rc E (Suc t) (RbusEvent_SubscribeEx (subscriptions (bld E)))"
    let ?fin = "w\<lparr>tick := Suc (Suc (Suc (Suc (Suc t)))), trace := trace w @ ?all, profileCategory := c\<rparr>"
    from 3 i(3) l assms show ?thesis
      by (intro exI [of _ "if ?res \<noteq> 0 \<and> ?r3 = 0 then ?res else ?r3"] exI [of _ ?fin] exI [of _ ?all] exI [of _ s])
        (simp add: run subscribe_calls_def)
  qed
qed

theorem subscribe_complete_witness:
  "\<exists>r w' es started. RRD_subscribe (bench (\<lambda>_. None)) fresh_world = Ret r w' \<and> trace w' = es \<and> mq w' = []
    \<and> (if r = 0 then bus_calls es = subscribe_calls bench_build started else True)"
  using subscribe_complete [of "bench (\<lambda>_. None)" fresh_world] by (auto simp: bench_def)

text \<open>The connection loop: failed attempts, each followed by a sleep, then a successful one.\<close>

definition attempts :: "nat \<Rightarrow> event list" where
  "attempts k = concat (replicate k [EvBus PowerController_Connect, EvUsleep RETRYSLEEP]) @ [EvBus PowerController_Connect]"

lemma attempts_Suc: "attempts (Suc k) = EvBus PowerController_Connect # EvUsleep RETRYSLEEP # attempts k"
  by (simp add: attempts_def)

lemma connect_loop_run:
  assumes "bus_rc E (tick w + k) PowerController_Connect = 0" and "\<forall>i < k. bus_rc E (tick w + i) PowerController_Connect \<noteq> 0"
    and "k < n"
  shows "connect_loop n E w =
    Ret () (w\<lparr>tick := Suc (tick w + k), trace := trace w @ attempts k, isPwrCtlInterface := True\<rparr>)"
  using assms
proof (induction k arbitrary: n w)
  case 0
  then obtain m where "n = Suc m" by (cases n) auto
  with 0 show ?case by (simp add: bnd_def bus_call_rc_run modify_def attempts_def)
next
  case (Suc k)
  then obtain m where n: "n = Suc m" by (cases n) auto
  let ?w = "w\<lparr>tick := Suc (tick w), trace := trace w @ [EvBus PowerController_Connect, EvUsleep RETRYSLEEP]\<rparr>"
  have "connect_loop m E ?w = Ret () (?w\<lparr>tick := Suc (tick ?w + k), trace := trace ?w @ attempts k, isPwrCtlInterface := True\<rparr>)"
  proof (rule Suc.IH)
    show "\<forall>i < k. bus_rc E (tick ?w + i) PowerController_Connect \<noteq> 0"
      using Suc.prems(2) by (metis (no_types, lifting) add_Suc_right add_Suc_shift Suc_mono world.select_convs(1) world.surjective world.update_convs(1,2))
  qed (use Suc.prems n in simp_all)
  moreover have "bus_rc E (tick w) PowerController_Connect \<noteq> 0" using Suc.prems(2) by force
  ultimately show ?case using n by (simp add: bnd_def bus_call_rc_run emit_def attempts_Suc)
qed

text \<open>
  C36: The thread that waits for the power controller: if some attempt to connect succeeds,
  the thread ends, having slept once after every failed attempt and none after the
  successful one, and registers the handler for the power state after the connection.
\<close>

theorem power_connection_made:
  assumes "bus_rc E (tick w + k) PowerController_Connect = 0" and "\<forall>i < k. bus_rc E (tick w + i) PowerController_Connect \<noteq> 0"
    and "k < n"
  shows "\<exists>w'. getPwrCtrlInterface n E w = Ret () w' \<and> isPwrCtlInterface w'
    \<and> trace w' = trace w @ [EvSleep 5, EvBus PowerController_Init] @ attempts k @ [EvBus PowerController_Register]"
proof -
  let ?w = "w\<lparr>trace := trace w @ [EvSleep 5, EvBus PowerController_Init]\<rparr>"
  from connect_loop_run [of E ?w k n] assms
  have "connect_loop n E ?w = Ret () (?w\<lparr>tick := Suc (tick w + k), trace := trace ?w @ attempts k, isPwrCtlInterface := True\<rparr>)"
    by simp
  then show ?thesis by (simp add: getPwrCtrlInterface_def bnd_def emit_def bus_call_rc_run ret_def)
qed

theorem power_connection_made_witness:
  "\<exists>w'. getPwrCtrlInterface 10 ((bench (\<lambda>_. None))\<lparr>bus_rc := (\<lambda>t c. if t < 2 then 1 else 0)\<rparr>) fresh_world = Ret () w'
    \<and> isPwrCtlInterface w' \<and> trace w' = [EvSleep 5, EvBus PowerController_Init] @ attempts 2 @ [EvBus PowerController_Register]"
  using power_connection_made [of "(bench (\<lambda>_. None))\<lparr>bus_rc := (\<lambda>t c. if t < 2 then 1 else 0)\<rparr>" fresh_world 2 10]
  by (simp add: fresh_world_def)

end
