(* ===== verification/RRD_Main.thy ===== *)
theory RRD_Main
  imports RRD_WebCfg RRD_Bus
begin

text \<open>
  The daemon as a whole: \<^verbatim>\<open>src/src/rrdMain.c\<close> and the dispatch of messages. The bus calls the
  handlers, the worker thread takes one message after the other from the queue, the web
  configuration framework applies the requests it was given. The system is a transition
  relation whose steps are these calls in any order; each runs to its end before the next
  one starts. An invariant of the reachable states joins the results of the components.
\<close>

section \<open>Model\<close>

subsection \<open>Messages\<close>

text \<open>The message, and the request for the web configuration framework, if there is one.\<close>

definition processWebCfgTypeEvent :: "'j platform \<Rightarrow> webcfg_api \<Rightarrow> data_buf \<Rightarrow> (data_buf \<times> execData option) prog" where
  "processWebCfgTypeEvent E P rbuf =
     bnd (lift (str_arg (mdata rbuf))) (\<lambda>m. case m of
       None \<Rightarrow> ret (rbuf, None)
     | Some s \<Rightarrow>
         bnd (decodeWebCfgData E P (Some s)) (\<lambda>(_, x).
         bnd (lift (free_mdata rbuf)) (\<lambda>b. ret (b, x))))"

text \<open>
  What the worker does with a message, and what is left of the buffer: only a message of an
  unknown type is freed as a whole, the others leave the buffer behind.
\<close>

definition dispatch :: "'j platform \<Rightarrow> webcfg_api \<Rightarrow> data_buf \<Rightarrow> (data_buf cptr \<times> execData option) prog" where
  "dispatch E P rbuf =
     bnd (lift (str_arg (mdata rbuf))) (\<lambda>_. case mtype rbuf of
       EVENT_MSG \<Rightarrow> bnd (processIssueTypeEvent E rbuf) (\<lambda>_. ret (Own rbuf, None))
     | EVENT_WEBCFG_MSG \<Rightarrow> bnd (processWebCfgTypeEvent E P rbuf) (\<lambda>(b, x). ret (Own b, x))
     | DEEPSLEEP_EVENT_MSG \<Rightarrow>
         (if IARMBUS_SUPPORT (bld E) then bnd (RRDProcessDeepSleepAwakeEvents E rbuf) (\<lambda>b. ret (Own b, None))
          else ret (Own rbuf, None))
     | DEFAULT \<Rightarrow> bnd (lift (c_free (mdata rbuf))) (\<lambda>_. ret (Dangling, None)))"

text \<open>
  The log line of the sender behind \<open>RRDMsgDeliver\<close> (in \<open>pushIssueTypesToMsgQueue\<close>, in the
  handlers of packages and of the power state) reads the message it has given away.
\<close>

definition log_sent :: "data_buf cptr \<Rightarrow> fault + nat" where
  "log_sent sbuf = (case c_read sbuf of Inl e \<Rightarrow> Inl e
     | Inr b \<Rightarrow> (case c_read (mdata b) of Inl e \<Rightarrow> Inl e | Inr s \<Rightarrow> Inr (length s)))"

text \<open>
  One round of the worker thread: whether the loop goes on, and the request. With an empty
  queue the call blocks, so the round is only taken when there is a message or an error.
\<close>

definition worker_round :: "'j platform \<Rightarrow> webcfg_api \<Rightarrow> (bool \<times> execData option) prog" where
  "worker_round E P =
     bnd (ask (msgrcv_ok E)) (\<lambda>received. if \<not> received then ret (False, None) else
     bnd (peek mq) (\<lambda>q. case q of
       [] \<Rightarrow> ret (True, None)
     | rbuf # rest \<Rightarrow>
         bnd (modify (\<lambda>w. w\<lparr>mq := rest\<rparr>)) (\<lambda>_.
         bnd (dispatch E P rbuf) (\<lambda>(_, x). ret (True, x)))))"

subsection \<open>Start and end\<close>

definition isRRDEnabled :: "'j platform \<Rightarrow> bool prog" where
  "isRRDEnabled E =
     (if IARMBUS_SUPPORT (bld E)
      then bnd (ask (rfc_enable E)) (\<lambda>v. ret (case v of None \<Rightarrow> True | Some s \<Rightarrow> \<not> c_strcasecmp_eq ''false'' s))
      else bnd (ask (syscfg_init_ok E)) (\<lambda>ok. if \<not> ok then ret True else
           bnd (ask (syscfg_get E)) (\<lambda>v. ret (case v of None \<Rightarrow> False | Some s \<Rightarrow> s \<noteq> [] \<and> take 4 (c_strncpy 63 s) = ''true''))))"

text \<open>\<open>main\<close> up to the start of the worker thread.\<close>

definition main_start :: "'j platform \<Rightarrow> unit prog" where
  "main_start E =
     bnd (ask (\<lambda>t. file_text E t RRD_DEVICE_PROP_FILE)) (\<lambda>file.
     bnd (malloc E) (\<lambda>mem.
     bnd (modify (\<lambda>w. w\<lparr>devPropData := RRDStoreDeviceInfo mem file\<rparr>)) (\<lambda>_.
     bnd (modify (\<lambda>w. w\<lparr>cache := initCache (cache w)\<rparr>)) (\<lambda>_.
     bnd (isRRDEnabled E) (\<lambda>isEnabled. if \<not> isEnabled then crash (ProcExit 0) else
     bnd (ask (msgget_ok E)) (\<lambda>queue. if \<not> queue then crash (ProcExit 1) else
     bnd (RRD_subscribe E) (\<lambda>_. ret ())))))))"

text \<open>\<open>main\<close> after the worker thread has ended.\<close>

definition main_end :: "'j platform \<Rightarrow> int prog" where
  "main_end E = bnd (RRD_unsubscribe E) (\<lambda>_. ret 0)"

subsection \<open>The system\<close>

record sys =
  sys_world :: world
  blobs :: "execData list"
  thread_on :: bool

datatype outcome = Running sys | Down fault sys

datatype action =
    IssueEvent "string option option"
  | WebCfgEvent "string option option"
  | RdmEvent rdm_event
  | DownloadEvent "string option option"
  | PowerPlugin bool bool
  | PowerIarm bool "(bool \<times> bool) option"
  | SetProfile "rbusProperty option"
  | GetProfile string
  | SetVersion "32 word"
  | Worker
  | ApplyBlob

definition on_world :: "'a prog \<Rightarrow> (sys \<Rightarrow> 'a \<Rightarrow> sys) \<Rightarrow> sys \<Rightarrow> outcome" where
  "on_world m f s = (case m (sys_world s) of
     Ret x w \<Rightarrow> Running (f (s\<lparr>sys_world := w\<rparr>) x)
   | Crash e w \<Rightarrow> Down e (s\<lparr>sys_world := w\<rparr>))"

text \<open>Which calls can happen: those the build registers, a message to take, a request to apply.\<close>

fun enabled :: "build \<Rightarrow> action \<Rightarrow> sys \<Rightarrow> bool" where
  "enabled B (RdmEvent ev) s = IARMBUS_SUPPORT B"
| "enabled B (DownloadEvent v) s = (\<not> IARMBUS_SUPPORT B \<or> USE_L2_SUPPORT B)"
| "enabled B (PowerPlugin c n) s = (IARMBUS_SUPPORT B \<and> PWRMGR_PLUGIN B)"
| "enabled B (PowerIarm own d) s = (IARMBUS_SUPPORT B \<and> \<not> PWRMGR_PLUGIN B)"
| "enabled B Worker s = (thread_on s \<and> mq (sys_world s) \<noteq> [])"
| "enabled B ApplyBlob s = (blobs s \<noteq> [])"
| "enabled B _ s = True"

text \<open>The framework applies a request and then frees its resources.\<close>

definition apply_blob :: "'j platform \<Rightarrow> execData \<Rightarrow> unit prog" where
  "apply_blob E x =
     bnd (Process_RemoteDebugger_WebConfigRequest E (user_data x)) (\<lambda>_.
     lift (FreeResources_RemoteDebugger (Own x)))"

fun perform :: "'j platform \<Rightarrow> webcfg_api \<Rightarrow> action \<Rightarrow> sys \<Rightarrow> outcome" where
  "perform E P (IssueEvent v) s = on_world (remoteDebuggerEventHandler E v) (\<lambda>s _. s) s"
| "perform E P (WebCfgEvent v) s = on_world (remoteDebuggerWebCfgDataEventHandler E v) (\<lambda>s _. s) s"
| "perform E P (RdmEvent ev) s = on_world (rdmManagerEventHandler E ev) (\<lambda>s _. s) s"
| "perform E P (DownloadEvent v) s = on_world (rdmDownloadEventHandler E v) (\<lambda>s _. s) s"
| "perform E P (PowerPlugin c n) s = on_world (pwrManagerEventHandler_plugin E c n) (\<lambda>s _. s) s"
| "perform E P (PowerIarm own d) s = on_world (pwrManagerEventHandler_iarm E own d) (\<lambda>s _. s) s"
| "perform E P (SetProfile p) s = on_world (rrd_SetHandler E p) (\<lambda>s _. s) s"
| "perform E P (GetProfile n) s = on_world (rrd_GetHandler E n) (\<lambda>s _. s) s"
| "perform E P (SetVersion v) s = on_world (setBlobVersion v) (\<lambda>s _. s) s"
| "perform E P Worker s =
     on_world (worker_round E P) (\<lambda>s (on, x). s\<lparr>thread_on := on, blobs := blobs s @ (case x of None \<Rightarrow> [] | Some y \<Rightarrow> [y])\<rparr>) s"
| "perform E P ApplyBlob s =
     (case blobs s of [] \<Rightarrow> Running s
      | x # rest \<Rightarrow> on_world (apply_blob E x) (\<lambda>s _. s\<lparr>blobs := rest\<rparr>) s)"

inductive reachable :: "'j platform \<Rightarrow> webcfg_api \<Rightarrow> sys \<Rightarrow> bool" for E P where
  start: "main_start E fresh_world = Ret () w \<Longrightarrow> reachable E P \<lparr>sys_world = w, blobs = [], thread_on = True\<rparr>"
| step: "reachable E P s \<Longrightarrow> enabled (bld E) a s \<Longrightarrow> perform E P a s = Running s' \<Longrightarrow> reachable E P s'"

section \<open>The worker\<close>

text \<open>Two invariants together.\<close>

lemma safe_both:
  assumes "safe I F m Q" and "keeps J m"
  shows "safe (\<lambda>w. I w \<and> J w) F m Q"
proof -
  have "case m w of Ret x w' \<Rightarrow> (I w' \<and> J w') \<and> Q x | Crash e w' \<Rightarrow> (I w' \<and> J w') \<and> F e" if "I w" "J w" for w
    using safeD [OF assms(1) that(1)] keepsD [OF assms(2) that(2)] by auto
  then show ?thesis unfolding safe_def hoare_def by blast
qed

lemma sys_ok_both: "sys_ok = (\<lambda>w. cache_wf w \<and> queue_live w)"
  by (simp add: fun_eq_iff sys_ok_def)

lemma eventless_queue_live [simp]: "eventless queue_live"
  by (auto simp: eventless_def timeless_def queue_live_def intro!: keeps_emit)

text \<open>Processing a message does not touch the queue.\<close>

interpretation queue_kept: step_invariant E True queue_live for E
  by unfold_locales (auto simp: keeps_check_any timeless_def queue_live_def intro!: keeps_emit keeps_on_cache)

lemma ssafe_issue_message: "live_buf b \<Longrightarrow> ssafe (processIssueTypeEvent E b) (\<lambda>_. True)"
  unfolding sys_ok_both by (intro safe_both msafe_event queue_kept.keeps_event) simp_all

lemma ssafe_deepsleep_message: "live_buf b \<Longrightarrow> ssafe (RRDProcessDeepSleepAwakeEvents E b) (\<lambda>_. True)"
  unfolding sys_ok_both by (intro safe_both msafe_awake queue_kept.keeps_awake) simp_all

lemma ssafe_webcfg_message:
  assumes "live_buf b"
  shows "ssafe (processWebCfgTypeEvent E P b) (\<lambda>(_, x). \<forall>y. x = Some y \<longrightarrow> live_exec y)"
proof -
  obtain b1 where "free_mdata b = Inr b1"
    using free_mdata_live [of b] assms by (auto simp: live_buf_def)
  then show ?thesis unfolding processWebCfgTypeEvent_def using assms
    by (intro safe_rules safe_bnd [OF ssafe_decode]) (auto simp: live_buf_def str_arg_benign)
qed

definition live_request :: "execData option \<Rightarrow> bool" where
  "live_request x \<longleftrightarrow> (\<forall>y. x = Some y \<longrightarrow> live_exec y)"

lemma ssafe_dispatch:
  assumes "live_buf b"
  shows "ssafe (dispatch E P b) (\<lambda>(_, x). live_request x)"
proof -
  have "c_free (mdata b) = Inr ()" "str_arg (mdata b) \<noteq> Inl e" for e
    using assms by (auto simp: live_buf_def str_arg_benign)
  then show ?thesis unfolding dispatch_def
    by (intro safe_rules, simp, cases "mtype b")
      (auto intro!: safe_rules safe_bnd [OF ssafe_issue_message [OF assms]] safe_bnd [OF ssafe_deepsleep_message [OF assms]]
        safe_bnd [OF ssafe_webcfg_message [OF assms]] simp: live_request_def)
qed

lemma ssafe_round: "ssafe (worker_round E P) (\<lambda>(_, x). live_request x)"
proof -
  have "case worker_round E P w of Ret y w' \<Rightarrow> sys_ok w' \<and> live_request (snd y) | Crash e w' \<Rightarrow> sys_ok w' \<and> benign e"
    if w: "sys_ok w" for w
  proof (cases "msgrcv_ok E (tick w) \<and> mq w \<noteq> []")
    case True
    then obtain b rest where q: "mq w = b # rest" by (cases "mq w") auto
    let ?w = "w\<lparr>tick := Suc (tick w), mq := rest\<rparr>"
    have "live_buf b" "sys_ok ?w" using w q by (auto simp: sys_ok_def queue_live_def cache_wf_def)
    from safeD [OF ssafe_dispatch [OF this(1)] this(2), of E P] True q show ?thesis
      by (auto simp: worker_round_def run_defs)
  qed (use w in \<open>auto simp: worker_round_def run_defs live_request_def\<close>)
  then show ?thesis unfolding safe_def hoare_def case_prod_beta by blast
qed

lemma ssafe_apply_blob: "live_exec x \<Longrightarrow> ssafe (apply_blob E x) (\<lambda>_. True)"
  unfolding apply_blob_def
  by (intro safe_bnd [OF ssafe_apply] safe_lift) (simp_all add: free_exec_live)

section \<open>The invariant of the system\<close>

definition sys_inv :: "sys \<Rightarrow> bool" where
  "sys_inv s \<longleftrightarrow> sys_ok (sys_world s) \<and> list_all live_exec (blobs s)"

fun out_ok :: "outcome \<Rightarrow> bool" where
  "out_ok (Running s) = sys_inv s"
| "out_ok (Down e s) = (benign e \<and> sys_inv s)"

lemma on_world_ok:
  assumes "ssafe m Q" and "sys_inv s" and "\<And>w x. sys_ok w \<Longrightarrow> Q x \<Longrightarrow> sys_inv (f (s\<lparr>sys_world := w\<rparr>) x)"
  shows "out_ok (on_world m f s)"
  using safeD [OF assms(1), of "sys_world s"] assms(2,3) by (auto simp: on_world_def sys_inv_def)

lemma on_world_plain: "ssafe m Q \<Longrightarrow> sys_inv s \<Longrightarrow> out_ok (on_world m (\<lambda>s _. s) s)"
  by (rule on_world_ok) (auto simp: sys_inv_def)

lemma ssafe_version: "ssafe (setBlobVersion v) (\<lambda>_. True)"
  by (simp add: setBlobVersion_def safe_def hoare_def run_defs)

lemmas handler_safe = ssafe_issue_handler ssafe_webcfg_handler ssafe_rdm_handler ssafe_download_handler
  ssafe_power_handlers ssafe_set ssafe_get ssafe_version

lemma perform_ok:
  assumes "sys_inv s"
  shows "out_ok (perform E P a s)"
proof (cases a)
  case Worker
  have "out_ok (on_world (worker_round E P)
      (\<lambda>s (on, x). s\<lparr>thread_on := on, blobs := blobs s @ (case x of None \<Rightarrow> [] | Some y \<Rightarrow> [y])\<rparr>) s)"
    by (rule on_world_ok [OF ssafe_round assms])
      (use assms in \<open>auto simp: sys_inv_def live_request_def split: option.splits\<close>)
  with Worker show ?thesis by simp
next
  case ApplyBlob
  show ?thesis
  proof (cases "blobs s")
    case (Cons x rest)
    with assms have "live_exec x" by (simp add: sys_inv_def)
    have "out_ok (on_world (apply_blob E x) (\<lambda>s _. s\<lparr>blobs := rest\<rparr>) s)"
      by (rule on_world_ok [OF ssafe_apply_blob [OF \<open>live_exec x\<close>] assms]) (use assms Cons in \<open>auto simp: sys_inv_def\<close>)
    with ApplyBlob Cons show ?thesis by simp
  qed (use ApplyBlob assms in simp)
qed (use assms handler_safe in \<open>auto intro!: on_world_plain\<close>)

text \<open>The start.\<close>

lemma ssafe_bus_call [safe_rules]: "(\<And>r. ssafe (k r) Q) \<Longrightarrow> ssafe (bnd (bus_call_rc E c) k) Q"
  by (simp add: safe_def hoare_def bnd_def bus_call_rc_run)

lemma ssafe_subscribe: "ssafe (RRD_subscribe E) (\<lambda>_. True)"
proof -
  have "ssafe (bus_call_rc E c) (\<lambda>_. True)" for c by (simp add: safe_def hoare_def bus_call_rc_run)
  then have iarm: "ssafe (if b then RRD_IARM_subscribe E else ret 0) (\<lambda>_. True)" for b
    unfolding RRD_IARM_subscribe_def by (intro safe_rules) simp_all
  have init: "ssafe (webconfigFrameworkInit E) (\<lambda>_. True)"
    by (simp add: webconfigFrameworkInit_def safe_def hoare_def run_defs)
  show ?thesis unfolding RRD_subscribe_def
    by (intro safe_rules safe_bnd [OF iarm] safe_bnd [OF ssafe_load] safe_bnd [OF init]) simp_all
qed

lemma start_ok:
  assumes "main_start E fresh_world = Ret () w"
  shows "sys_inv \<lparr>sys_world = w, blobs = [], thread_on = True\<rparr>"
proof -
  have init: "initCache cache_start = cache_start" by (simp add: cache_start_def initCache_def)
  from assms obtain w1 r where w1: "RRD_subscribe E w1 = Ret r w" "cache w1 = cache_start" "mq w1 = []"
    by (auto simp: main_start_def isRRDEnabled_def run_defs init split: if_splits run.splits)
  then have "sys_ok w1" using cache_rep_start by (auto simp: sys_ok_def cache_wf_def queue_live_def)
  with safeD [OF ssafe_subscribe this, of E] w1 show ?thesis by (auto simp: sys_inv_def)
qed

lemma reachable_inv: "reachable E P s \<Longrightarrow> sys_inv s"
proof (induction rule: reachable.induct)
  case (step s a s')
  with perform_ok [of s E P a] show ?case by simp
qed (rule start_ok)

section \<open>Events of the system\<close>

lemma keeps_modify_events [keep_rules]: "(\<And>w. trace (f w) = trace w) \<Longrightarrow> keeps (all_events Q) (modify f)"
  by (rule keeps_modify) (simp add: all_events_def)

lemma keeps_message_type [keep_rules]:
  "keeps I a \<Longrightarrow> keeps I b \<Longrightarrow> keeps I c \<Longrightarrow> keeps I d \<Longrightarrow>
   keeps I (case x of DEFAULT \<Rightarrow> a | EVENT_MSG \<Rightarrow> b | EVENT_WEBCFG_MSG \<Rightarrow> c | DEEPSLEEP_EVENT_MSG \<Rightarrow> d)"
  by (cases x) auto

lemma keeps_list [keep_rules]:
  "keeps I m \<Longrightarrow> (\<And>y ys. keeps I (n y ys)) \<Longrightarrow> keeps I (case x of [] \<Rightarrow> m | y # ys \<Rightarrow> n y ys)"
  by (cases x) auto

text \<open>Everything but the processing of messages runs no command.\<close>

lemma keeps_quiet:
  "keeps (all_events Q) (RRDMsgDeliver E b)"
  "keeps (all_events Q) (lookup_package p)"
  "keeps (all_events Q) (node_issue a)"
  "keeps (all_events Q) (get_base64_decodedbuffer E P d)"
  "keeps (all_events Q) (load_profile_category E)"
  "keeps (all_events Q) (fill_param E items)"
  "keeps (all_events Q) (strdup E str)"
  "keeps (all_events Q) (read_profile_json_file E f)"
  "keeps (all_events Q) (set_rbus_response E pr js)"
  "keeps (all_events Q) (convert_fail doc err)"
  unfolding RRDMsgDeliver_def lookup_package_def node_issue_def get_base64_decodedbuffer_def Let_def
    load_profile_category_def fill_param_def strdup_def read_profile_json_file_def set_rbus_response_def convert_fail_def
  by (intro keep_rules; simp)+

lemma keeps_push: "keeps (all_events Q) (pushIssueTypesToMsgQueue E list ty)"
  unfolding pushIssueTypesToMsgQueue_def by (intro keep_rules keeps_quiet)

lemma keeps_send: "keeps (all_events Q) (send_installed E b s path)"
  unfolding send_installed_def by (intro keep_rules keeps_quiet)

lemma keeps_params: "keeps (all_events Q) (process_remotedebuggerparams E q kvs)"
  by (induction E q kvs rule: process_remotedebuggerparams.induct) (auto intro!: keep_rules keeps_quiet)

lemma keeps_inner: "keeps (all_events Q) (convert_inner opt (process_doc_args E P) inner args)"
  unfolding convert_inner_def process_doc_args_def process_remotedebuggerdoc_def Let_def
  by (intro keep_rules keeps_quiet keeps_params)

lemma keeps_decode: "keeps (all_events Q) (decodeWebCfgData E P s)"
  unfolding decodeWebCfgData_def remotedebuggerdoc_convert_def helper_convert_def Let_def
  by (auto intro!: keep_rules keeps_quiet keeps_inner split: msgpack_unpack_return.splits msgpack_object.splits)

lemma keeps_apply_blob: "keeps (all_events Q) (apply_blob E x)"
  unfolding apply_blob_def Process_RemoteDebugger_WebConfigRequest_def PrepareDataToPush_def Let_def
  by (intro keep_rules keeps_push)

lemma keeps_handlers:
  assumes other: "\<And>ev. \<not> is_run ev \<Longrightarrow> Q ev"
  shows "keeps (all_events Q) (remoteDebuggerEventHandler E v)"
    "keeps (all_events Q) (remoteDebuggerWebCfgDataEventHandler E v)"
    "keeps (all_events Q) (rdmManagerEventHandler E ev)"
    "keeps (all_events Q) (rdmDownloadEventHandler E v)"
    "keeps (all_events Q) (deepsleep_awake E i)"
    "keeps (all_events Q) (rrd_SetHandler E pr)"
    "keeps (all_events Q) (rrd_GetHandler E nm)"
    "keeps (all_events Q) (setBlobVersion ver)"
proof -
  have ev: "Q (EvRbusSet p x)" "Q (EvWrite f x)" "Q (EvFopen f)" for p x f by (auto intro!: other simp: is_run_def)
  show "keeps (all_events Q) (remoteDebuggerEventHandler E v)" "keeps (all_events Q) (remoteDebuggerWebCfgDataEventHandler E v)"
    unfolding remoteDebuggerEventHandler_def remoteDebuggerWebCfgDataEventHandler_def Let_def
    by (intro keep_rules keeps_push)+
  show "keeps (all_events Q) (rdmManagerEventHandler E ev)" "keeps (all_events Q) (rdmDownloadEventHandler E v)"
    unfolding rdmManagerEventHandler_def rdmDownloadEventHandler_def Let_def
    by (intro keep_rules keeps_quiet keeps_send)+
  show "keeps (all_events Q) (deepsleep_awake E i)"
    unfolding deepsleep_awake_def Let_def by (intro keep_rules keeps_quiet ev)
  show "keeps (all_events Q) (rrd_SetHandler E pr)"
    unfolding rrd_SetHandler_def save_profile_category_def
    by (auto intro!: keep_rules ev split: option.splits rbus_value.splits)
  show "keeps (all_events Q) (rrd_GetHandler E nm)"
    unfolding rrd_GetHandler_def by (intro keep_rules keeps_quiet)
  show "keeps (all_events Q) (setBlobVersion ver)"
    unfolding setBlobVersion_def by (intro keep_rules) simp
qed

lemma keeps_power:
  assumes "keeps I (deepsleep_awake E True)" and "keeps I (deepsleep_awake E False)"
  shows "keeps I (pwrManagerEventHandler_plugin E c n)" "keeps I (pwrManagerEventHandler_iarm E own d)"
  using assms unfolding pwrManagerEventHandler_plugin_def pwrManagerEventHandler_iarm_def
  by (cases "USE_L2_SUPPORT (bld E)"; auto intro!: keep_rules split: option.splits bool.splits)+

lemma keeps_start:
  assumes other: "\<And>ev. \<not> is_run ev \<Longrightarrow> Q ev"
  shows "keeps (all_events Q) (main_start E)"
proof -
  have ev: "Q (EvBus c)" for c by (auto intro!: other simp: is_run_def)
  have call: "keeps (all_events Q) (bus_call_rc E c)" for c
    unfolding bus_call_rc_def by (intro keep_rules ev)
  show ?thesis
    unfolding main_start_def isRRDEnabled_def RRD_subscribe_def RRD_IARM_subscribe_def webconfigFrameworkInit_def
    by (intro keep_rules keeps_quiet call ev) simp_all
qed

context step_invariant
begin

text \<open>An invariant of message processing that the decoder keeps is kept by a round of the worker.\<close>

lemma keeps_round:
  assumes "app" and "\<And>q. keeps I (modify (\<lambda>w. w\<lparr>mq := q\<rparr>))" and "\<And>s. keeps I (decodeWebCfgData E P s)"
  shows "keeps I (worker_round E P)"
  unfolding worker_round_def dispatch_def processWebCfgTypeEvent_def
  by (intro keep_rules keeps_ask timeless assms keeps_event keeps_awake) (simp add: assms)

end

text \<open>Any action keeps the permission of all events.\<close>

fun out_world :: "outcome \<Rightarrow> world" where
  "out_world (Running s) = sys_world s"
| "out_world (Down e s) = sys_world s"

lemma on_world_keeps:
  "keeps I m \<Longrightarrow> I (sys_world s) \<Longrightarrow> (\<And>s x. sys_world (f s x) = sys_world s) \<Longrightarrow> I (out_world (on_world m f s))"
  using keepsD [of I m "sys_world s"] by (auto simp: on_world_def split: run.splits)

lemma perform_permitted:
  assumes laws: "cjson_laws (json E)" "static_sanity E" and s: "all_events (permitted (json E) True) (sys_world s)"
  shows "all_events (permitted (json E) True) (out_world (perform E P a s))"
proof -
  have other: "\<not> is_run ev \<Longrightarrow> permitted (json E) True ev" for ev by (auto simp: permitted_def)
  note h = keeps_handlers [of "permitted (json E) True", OF other]
  note here = on_world_keeps [where I = "all_events (permitted (json E) True)", OF _ s]
  have round: "keeps (all_events (permitted (json E) True)) (worker_round E P)"
    by (rule step_invariant.keeps_round [OF permitted_invariant [OF laws, of True]])
      (simp_all add: keeps_decode keeps_modify_events)
  show ?thesis
  proof (cases a)
    case Worker
    then show ?thesis using here [OF round] by (simp add: case_prod_beta)
  next
    case ApplyBlob
    then show ?thesis using s by (cases "blobs s") (simp_all add: here keeps_apply_blob)
  qed (simp_all add: here h keeps_power [OF h(5) h(5)])
qed

lemma reachable_permitted:
  assumes "cjson_laws (json E)" "static_sanity E" and "reachable E P s"
  shows "all_events (permitted (json E) True) (sys_world s)"
  using assms(3)
proof (induction rule: reachable.induct)
  case (start w)
  have "keeps (all_events (permitted (json E) True)) (main_start E)"
    by (rule keeps_start) (auto simp: permitted_def is_run_def)
  from keepsD [OF this, of fresh_world] start show ?case by (simp add: all_events_def)
next
  case (step s a s')
  with perform_permitted [OF assms(1,2), of s P a] show ?case by simp
qed

section \<open>Runs\<close>

text \<open>A sequence of actions; one that is not enabled is left out.\<close>

fun run_actions :: "'j platform \<Rightarrow> webcfg_api \<Rightarrow> action list \<Rightarrow> sys \<Rightarrow> outcome" where
  "run_actions E P [] s = Running s"
| "run_actions E P (a # as) s =
     (if enabled (bld E) a s
      then (case perform E P a s of Running s' \<Rightarrow> run_actions E P as s' | Down e s' \<Rightarrow> Down e s')
      else run_actions E P as s)"

lemma run_actions_reachable:
  "reachable E P s \<Longrightarrow> run_actions E P as s = Running s' \<Longrightarrow> reachable E P s'"
  by (induction as arbitrary: s) (auto split: if_splits outcome.splits intro: reachable.step)

text \<open>The device of the examples after its start, and a run in which one issue is processed.\<close>

definition lab_start :: sys where
  "lab_start = \<lparr>sys_world = end_world (main_start lab fresh_world), blobs = [], thread_on = True\<rparr>"

definition lab_actions :: "action list" where
  "lab_actions = [IssueEvent (Some (Some ''Device.Info'')), Worker]"

lemma lab_start_reachable: "reachable lab P lab_start"
proof -
  have "case main_start lab fresh_world of Ret _ _ \<Rightarrow> True | Crash _ _ \<Rightarrow> False" by code_simp
  then obtain w where "main_start lab fresh_world = Ret () w" by (cases "main_start lab fresh_world") auto
  then show ?thesis using reachable.start [of lab w P] by (simp add: lab_start_def)
qed

lemma lab_run_reached: "\<exists>s. reachable lab plain_api s \<and> List.member (trace (sys_world s)) lab_run"
proof -
  have "case run_actions lab plain_api lab_actions lab_start of
      Running s \<Rightarrow> List.member (trace (sys_world s)) lab_run | Down e s \<Rightarrow> False"
    by code_simp
  then obtain s where "run_actions lab plain_api lab_actions lab_start = Running s" "List.member (trace (sys_world s)) lab_run"
    by (cases "run_actions lab plain_api lab_actions lab_start") auto
  then show ?thesis using run_actions_reachable [OF lab_start_reachable] by blast
qed

section \<open>What the sender of a message reads afterwards\<close>

abbreviation emptied :: "data_buf \<Rightarrow> bool" where
  "emptied b \<equiv> (\<forall>s. mdata b \<noteq> Own s)"

abbreviation yields :: "'a prog \<Rightarrow> ('a \<Rightarrow> bool) \<Rightarrow> bool" where
  "yields m Q \<equiv> safe (\<lambda>_. True) (\<lambda>_. True) m Q"

lemma yieldsD: "yields m Q \<Longrightarrow> m w = Ret x w' \<Longrightarrow> Q x"
  by (auto simp: safe_def hoare_def dest!: spec [of _ w])

lemma yields_any: "yields m (\<lambda>_. True)"
  by (auto simp: safe_def hoare_def split: run.splits)

lemma freed_emptied:
  "free_fields b = Inr b' \<Longrightarrow> emptied b'" "free_mdata b = Inr b' \<Longrightarrow> emptied b'"
  "free_mdata_path b = Inr b' \<Longrightarrow> emptied b'"
  by (auto simp: free_fields_def free_null_def free_mdata_def free_mdata_path_def free_stale_def
      split: sum.splits cptr.splits)

lemma yields_check: "yields (checkIssueNodeInfo E node cfg b deep d) (\<lambda>(b', _). emptied b')"
  unfolding checkIssueNodeInfo_def Let_def
  by (intro safe_rules safe_bnd [OF yields_any]) (auto dest: freed_emptied(1))

lemma yields_check_dynamic:
  "inDynamic b \<Longrightarrow> yields (RRDCheckIssueInDynamicProfile E b node) (\<lambda>(j, b'). j = None \<longrightarrow> emptied b')"
  unfolding RRDCheckIssueInDynamicProfile_def
  by (intro safe_rules safe_bnd [OF yields_any]) (auto dest: freed_emptied)

lemma yields_installed:
  assumes "inDynamic b" and "dsEvent b = RRD_DEEPSLEEP_RDM_PKG_INSTALL_COMPLETE" and "mdata b = Own s"
  shows "yields (RRDProcessDeepSleepAwakeEvents E b) emptied"
  unfolding RRDProcessDeepSleepAwakeEvents_def assms(2)
  by (simp only: deepsleep_event_et.case)
    (intro safe_rules safe_bnd [OF yields_any] safe_bnd [OF yields_check_dynamic] safe_bnd [OF yields_check],
      auto simp: assms)

lemma webcfg_message_freed:
  assumes "mdata b = Own s" and "processWebCfgTypeEvent E P b w = Ret (b', x) w'"
  shows "mdata b' = Dangling"
  using assms by (auto simp: processWebCfgTypeEvent_def free_mdata_def free_stale_def run_defs split: run.splits prod.splits)

text \<open>
  C7: The sender of a message reads it for a log line after it was queued. The line is
  harmless while the worker has not taken the message. After the worker is done with it,
  it is harmless for an issue, whose buffer is never freed, and a read of freed memory for
  web configuration data and for a message of an unknown type; for an installed deep-sleep
  package there is no way of processing it that leaves the text to be read.
\<close>

theorem sent_message_read:
  assumes "mdata b = Own s" and "dispatch E P b w = Ret (b', x) w'"
  shows "log_sent (Own b) = Inr (length s) \<and> (case mtype b of
      EVENT_MSG \<Rightarrow> b' = Own b \<and> log_sent b' = Inr (length s)
    | EVENT_WEBCFG_MSG \<Rightarrow> log_sent b' = Inl UseAfterFree
    | DEFAULT \<Rightarrow> b' = Dangling \<and> log_sent b' = Inl UseAfterFree
    | DEEPSLEEP_EVENT_MSG \<Rightarrow>
        IARMBUS_SUPPORT (bld E) \<and> dsEvent b = RRD_DEEPSLEEP_RDM_PKG_INSTALL_COMPLETE \<and> inDynamic b \<longrightarrow>
          log_sent b' \<in> {Inl UseAfterFree, Inl NullDeref})"
proof (cases "mtype b")
  case EVENT_WEBCFG_MSG
  with assms show ?thesis
    by (auto simp: dispatch_def log_sent_def bnd_def ret_def lift_def split: run.splits prod.splits
        dest!: webcfg_message_freed [OF assms(1)])
next
  case DEEPSLEEP_EVENT_MSG
  have "log_sent b' \<in> {Inl UseAfterFree, Inl NullDeref}"
    if "IARMBUS_SUPPORT (bld E)" "dsEvent b = RRD_DEEPSLEEP_RDM_PKG_INSTALL_COMPLETE" "inDynamic b"
  proof -
    from DEEPSLEEP_EVENT_MSG assms that(1) obtain c w2
      where c: "RRDProcessDeepSleepAwakeEvents E b w = Ret c w2" "b' = Own c"
      by (auto simp: dispatch_def bnd_def ret_def lift_def split: run.splits)
    from yieldsD [OF yields_installed [OF that(3,2) assms(1)] c(1)] have "emptied c" .
    with c(2) show ?thesis by (cases "mdata c") (auto simp: log_sent_def)
  qed
  with DEEPSLEEP_EVENT_MSG assms(1) show ?thesis by (simp add: log_sent_def)
qed (use assms in \<open>auto simp: dispatch_def log_sent_def bnd_def ret_def lift_def split: run.splits\<close>)

theorem sent_message_read_witness:
  "\<exists>b' x w'. dispatch lab plain_api
      ((RRD_data_buff_init EVENT_WEBCFG_MSG RRD_DEEPSLEEP_INVALID_DEFAULT)\<lparr>mdata := Own ''gaE=''\<rparr>) fresh_world = Ret (b', x) w'
    \<and> log_sent b' = Inl UseAfterFree"
proof -
  let ?b = "(RRD_data_buff_init EVENT_WEBCFG_MSG RRD_DEEPSLEEP_INVALID_DEFAULT)\<lparr>mdata := Own ''gaE=''\<rparr>"
  have "case dispatch lab plain_api ?b fresh_world of Ret _ _ \<Rightarrow> True | Crash _ _ \<Rightarrow> False" by code_simp
  then obtain b' x w' where run: "dispatch lab plain_api ?b fresh_world = Ret (b', x) w'"
    by (cases "dispatch lab plain_api ?b fresh_world") auto
  moreover have "mdata ?b = Own ''gaE=''" "mtype ?b = EVENT_WEBCFG_MSG" by (simp_all add: RRD_data_buff_init_def)
  ultimately show ?thesis using sent_message_read [OF _ run, of "''gaE=''"] by auto
qed

text \<open>The handler of an issue and the worker, one after the other.\<close>

definition issue_message :: "string \<Rightarrow> data_buf" where
  "issue_message v = (case checkAppendRequest v of (app, issues) \<Rightarrow>
     (RRD_data_buff_init EVENT_MSG RRD_DEEPSLEEP_INVALID_DEFAULT)\<lparr>mdata := Own issues, appendMode := app\<rparr>)"

lemma issue_handler_run:
  assumes "\<forall>t. malloc_ok E t" and "\<forall>t. msgsnd_ok E t" and "v \<noteq> []" and "NUL \<notin> set v"
  shows "\<exists>t. remoteDebuggerEventHandler E (Some (Some v)) w = Ret () (w\<lparr>tick := t, mq := mq w @ [issue_message v]\<rparr>)"
proof -
  have "hd (v @ [NUL]) \<noteq> NUL" using assms(3,4) by (cases v) auto
  moreover have "c_string (v @ [NUL]) = Inr v"
    using assms(4) by (simp add: c_string_def c_str_def takeWhile_neq_append)
  ultimately show ?thesis using assms(1-3)
    by (auto simp: remoteDebuggerEventHandler_def pushIssueTypesToMsgQueue_def RRDMsgDeliver_def c_strncpy_def issue_message_def
        run_defs Let_def split: prod.splits)
qed

lemma worker_round_run:
  assumes "\<forall>t. msgrcv_ok E t" and "mq w = b # q" and "mtype b = EVENT_MSG" and "live_buf b"
  shows "worker_round E P w =
    (case processIssueTypeEvent E b (w\<lparr>tick := Suc (tick w), mq := q\<rparr>) of Ret _ w' \<Rightarrow> Ret (True, None) w' | Crash e w' \<Rightarrow> Crash e w')"
proof -
  obtain m where "str_arg (mdata b) = Inr m" using assms(4) by (cases "mdata b") (auto simp: live_buf_def)
  with assms(1-3) show ?thesis by (auto simp: worker_round_def dispatch_def run_defs split: run.splits)
qed

end
