(* ===== verification/RRD_Messages.thy ===== *)
theory RRD_Messages
  imports RRD_Main
begin

text \<open>
  The messages of the daemon: which combinations of type, event, path and flags the senders
  of \<^verbatim>\<open>src/src/rrdInterface.c\<close> and \<^verbatim>\<open>src/src/rrdIarmEvents.c\<close> put into a buffer, and that the
  queue holds nothing else in any reachable state of the system.
\<close>

section \<open>Well-formed messages\<close>

text \<open>
  An issue from the bus carries neither path nor flag; one that waited for a package carries
  the path of the profile and exactly one of the two flags. Deep-sleep messages exist only
  in builds with the IARM manager and always have the text of the metrics issue.
\<close>

definition issue_typed :: "data_buf \<Rightarrow> bool" where
  "issue_typed b \<longleftrightarrow>
     (jsonPath b = Null \<and> \<not> inDynamic b \<and> dsEvent b = RRD_DEEPSLEEP_INVALID_DEFAULT
      \<or> jsonPath b \<notin> {Null, Dangling} \<and> inDynamic b \<noteq> appendMode b
        \<and> dsEvent b \<in> {RRD_DEEPSLEEP_INVALID_DEFAULT, RRD_DEEPSLEEP_RDM_PKG_INSTALL_COMPLETE})"

definition deepsleep_typed :: "build \<Rightarrow> data_buf \<Rightarrow> bool" where
  "deepsleep_typed B b \<longleftrightarrow> IARMBUS_SUPPORT B \<and> mdata b = Own DEEP_SLEEP_STR \<and> \<not> appendMode b
     \<and> (dsEvent b = RRD_DEEPSLEEP_RDM_DOWNLOAD_PKG_INITIATE \<and> jsonPath b = Null \<and> \<not> inDynamic b
        \<or> dsEvent b = RRD_DEEPSLEEP_RDM_PKG_INSTALL_COMPLETE \<and> jsonPath b \<notin> {Null, Dangling} \<and> inDynamic b)"

definition typed_msg :: "build \<Rightarrow> data_buf \<Rightarrow> bool" where
  "typed_msg B b \<longleftrightarrow> (\<exists>s. mdata b = Own s) \<and> suffix_of b = Null \<and>
     (case mtype b of
        EVENT_MSG \<Rightarrow> issue_typed b
      | EVENT_WEBCFG_MSG \<Rightarrow> jsonPath b = Null \<and> \<not> inDynamic b \<and> dsEvent b = RRD_DEEPSLEEP_INVALID_DEFAULT
      | DEEPSLEEP_EVENT_MSG \<Rightarrow> deepsleep_typed B b
      | DEFAULT \<Rightarrow> False)"

lemmas typed_defs = typed_msg_def issue_typed_def deepsleep_typed_def RRD_data_buff_init_def

section \<open>Statements that keep the queue\<close>

definition queued :: "(data_buf \<Rightarrow> bool) \<Rightarrow> world \<Rightarrow> bool" where
  "queued Q w \<longleftrightarrow> list_all Q (mq w)"

lemma queue_rules:
  "timeless (queued Q)"
  "keeps (queued Q) (ask f)"
  "keeps (queued Q) (malloc E)"
  "keeps (queued Q) (emit ev)"
  "keeps (queued Q) (on_cache g)"
  "(\<And>w. mq (h w) = mq w) \<Longrightarrow> keeps (queued Q) (modify h)"
  by (auto simp: timeless_def queued_def malloc_def intro!: keeps_ask keeps_emit keeps_on_cache keeps_modify)

interpretation queue_any: step_invariant E True "queued Q" for E Q
  by unfold_locales (auto simp: queue_rules keeps_check_any eventless_def)

lemma keeps_deliver: "Q b \<Longrightarrow> keeps (queued Q) (RRDMsgDeliver E b)"
  unfolding RRDMsgDeliver_def by (intro keep_rules queue_rules keeps_modify) (simp add: queued_def)

lemma keeps_reads:
  "keeps (queued Q) (lookup_package p)" "keeps (queued Q) (node_issue a)"
  "keeps (queued Q) (strdup E str)" "keeps (queued Q) (fill_param E items)"
  "keeps (queued Q) (get_base64_decodedbuffer E P d)" "keeps (queued Q) (convert_fail doc err)"
  unfolding lookup_package_def node_issue_def strdup_def fill_param_def get_base64_decodedbuffer_def convert_fail_def Let_def
  by (intro keep_rules queue_rules; simp)+

section \<open>The senders\<close>

lemma queued_push:
  assumes "ty \<in> {EVENT_MSG, EVENT_WEBCFG_MSG}"
  shows "keeps (queued (typed_msg B)) (pushIssueTypesToMsgQueue E list ty)"
proof -
  have "typed_msg B ((RRD_data_buff_init ty RRD_DEEPSLEEP_INVALID_DEFAULT)\<lparr>mdata := Own s, appendMode := app\<rparr>)" for s app
    using assms by (auto simp: typed_defs)
  then show ?thesis unfolding pushIssueTypesToMsgQueue_def
    by (intro keep_rules queue_rules keeps_deliver)
qed

lemma deep_sleep_not_append: "checkAppendRequest DEEP_SLEEP_STR = (False, DEEP_SLEEP_STR)"
  by code_simp

lemma queued_send:
  assumes "mtype b = EVENT_MSG \<and> dsEvent b \<in> {RRD_DEEPSLEEP_INVALID_DEFAULT, RRD_DEEPSLEEP_RDM_PKG_INSTALL_COMPLETE}
      \<or> mtype b = DEEPSLEEP_EVENT_MSG \<and> dsEvent b = RRD_DEEPSLEEP_RDM_PKG_INSTALL_COMPLETE \<and> IARMBUS_SUPPORT B \<and> s = DEEP_SLEEP_STR"
    and "suffix_of b = Null"
  shows "keeps (queued (typed_msg B)) (send_installed E b s path)"
proof -
  have "typed_msg B (installed_message b s path)"
    using assms by (auto simp: installed_message_def typed_defs deep_sleep_not_append split: prod.splits)
  then show ?thesis unfolding send_installed_def by (intro keep_rules queue_rules keeps_deliver)
qed

lemma queued_installed:
  assumes "IARMBUS_SUPPORT B"
  shows "keeps (queued (typed_msg B)) (send_installed E
    (if s = DEEP_SLEEP_STR then RRD_data_buff_init DEEPSLEEP_EVENT_MSG RRD_DEEPSLEEP_RDM_PKG_INSTALL_COMPLETE
     else RRD_data_buff_init EVENT_MSG RRD_DEEPSLEEP_INVALID_DEFAULT) s path)"
  by (rule queued_send) (use assms in \<open>auto simp: RRD_data_buff_init_def\<close>)

lemma queued_handlers:
  "keeps (queued (typed_msg B)) (remoteDebuggerEventHandler E v)"
  "keeps (queued (typed_msg B)) (remoteDebuggerWebCfgDataEventHandler E v)"
  "IARMBUS_SUPPORT B \<Longrightarrow> keeps (queued (typed_msg B)) (rdmManagerEventHandler E ev)"
  "keeps (queued (typed_msg B)) (rdmDownloadEventHandler E v)"
  "IARMBUS_SUPPORT B \<Longrightarrow> keeps (queued (typed_msg B)) (deepsleep_awake E i)"
  unfolding remoteDebuggerEventHandler_def remoteDebuggerWebCfgDataEventHandler_def rdmManagerEventHandler_def
    rdmDownloadEventHandler_def deepsleep_awake_def Let_def
  by (auto intro!: keep_rules queue_rules keeps_reads queued_push queued_installed queued_send keeps_deliver
      split: option.splits simp: typed_msg_def deepsleep_typed_def) (simp_all add: typed_defs)

lemma queued_bus:
  "keeps (queued Q) (rrd_SetHandler E pr)"
  "keeps (queued Q) (rrd_GetHandler E nm)"
  "keeps (queued Q) (setBlobVersion ver)"
  unfolding rrd_SetHandler_def rrd_GetHandler_def setBlobVersion_def save_profile_category_def load_profile_category_def
    read_profile_json_file_def set_rbus_response_def Let_def
  by (auto intro!: keep_rules queue_rules split: option.splits rbus_value.splits list.splits)

lemma queued_start: "keeps (queued Q) (main_start E)"
proof -
  have call: "keeps (queued Q) (bus_call_rc E c)" for c
    unfolding bus_call_rc_def by (intro keep_rules queue_rules)
  have load: "keeps (queued Q) (load_profile_category E)"
    unfolding load_profile_category_def by (auto intro!: keep_rules queue_rules split: list.splits)
  show ?thesis
    unfolding main_start_def isRRDEnabled_def RRD_subscribe_def RRD_IARM_subscribe_def webconfigFrameworkInit_def
    by (intro keep_rules queue_rules call load) simp_all
qed

section \<open>The worker and the framework\<close>

lemma queued_decode: "keeps (queued Q) (decodeWebCfgData E P s)"
proof -
  have params: "keeps (queued Q) (process_remotedebuggerparams E q kvs)" for q kvs
    by (induction E q kvs rule: process_remotedebuggerparams.induct) (auto intro!: keep_rules keeps_reads)
  have inner: "keeps (queued Q) (convert_inner opt (process_doc_args E P) inner args)" for opt inner args
    unfolding convert_inner_def process_doc_args_def process_remotedebuggerdoc_def Let_def
    by (intro keep_rules queue_rules keeps_reads params)
  show ?thesis
    unfolding decodeWebCfgData_def remotedebuggerdoc_convert_def helper_convert_def Let_def
    by (auto intro!: keep_rules queue_rules keeps_reads inner split: msgpack_unpack_return.splits msgpack_object.splits)
qed

lemma queued_dispatch: "keeps (queued Q) (dispatch E P b)"
  unfolding dispatch_def processWebCfgTypeEvent_def
  by (intro keep_rules queued_decode queue_any.keeps_event queue_any.keeps_awake) simp

lemma queued_round:
  assumes "queued Q w"
  shows "queued Q (end_world (worker_round E P w))"
proof (cases "msgrcv_ok E (tick w) \<and> mq w \<noteq> []")
  case True
  then obtain b rest where q: "mq w = b # rest" by (cases "mq w") auto
  with assms have "queued Q (w\<lparr>tick := Suc (tick w), mq := rest\<rparr>)" by (simp add: queued_def)
  from keepsD [OF queued_dispatch this, of E P b] True q show ?thesis
    by (auto simp: worker_round_def run_defs split: run.splits)
qed (use assms in \<open>auto simp: worker_round_def run_defs queued_def\<close>)

lemma queued_apply: "keeps (queued (typed_msg B)) (apply_blob E x)"
  unfolding apply_blob_def Process_RemoteDebugger_WebConfigRequest_def PrepareDataToPush_def Let_def
  by (intro keep_rules queue_rules queued_push) simp_all

text \<open>The world after an action is the one in which its program ends.\<close>

lemma on_world_end:
  "(\<And>s x. sys_world (f s x) = sys_world s) \<Longrightarrow> out_world (on_world m f s) = end_world (m (sys_world s))"
  by (auto simp: on_world_def split: run.splits)

lemma perform_queued:
  assumes "queued (typed_msg (bld E)) (sys_world s)" and "enabled (bld E) a s"
  shows "queued (typed_msg (bld E)) (out_world (perform E P a s))"
proof (cases a)
  case Worker
  then show ?thesis using queued_round [OF assms(1), of E P] by (simp add: on_world_end case_prod_beta)
next
  case ApplyBlob
  then show ?thesis using assms(1) keepsD [OF queued_apply assms(1)]
    by (cases "blobs s") (simp_all add: on_world_end)
next
  case (PowerPlugin c n)
  then show ?thesis using assms
    by (auto simp: on_world_end pwrManagerEventHandler_plugin_def ret_def intro!: keepsD [OF queued_handlers(5)])
next
  case (PowerIarm own d)
  then show ?thesis using assms
    by (auto simp: on_world_end pwrManagerEventHandler_iarm_def ret_def crash_def intro!: keepsD [OF queued_handlers(5)]
        split: option.splits bool.splits)
qed (use assms in \<open>simp_all add: on_world_end keepsD [OF queued_bus(1)] keepsD [OF queued_bus(2)] keepsD [OF queued_bus(3)]
  keepsD [OF queued_handlers(1)] keepsD [OF queued_handlers(2)] keepsD [OF queued_handlers(3)] keepsD [OF queued_handlers(4)]\<close>)

lemma reachable_queued:
  assumes "reachable E P s"
  shows "queued (typed_msg (bld E)) (sys_world s)"
  using assms
proof (induction rule: reachable.induct)
  case (start w)
  have "queued (typed_msg (bld E)) fresh_world" by (simp add: queued_def)
  from keepsD [OF queued_start this, of E] start show ?case by simp
next
  case (step s a s')
  from perform_queued [OF step(4) step(2), of P] step(3) show ?case by simp
qed

section \<open>Property\<close>

text \<open>
  C6: Every message that waits in the queue of a reachable state, and after any further
  step, also one that crashes, is well formed: it has a live text and no suffix; its type
  is one the worker knows; an issue that waited for a package brings the path of its
  profile and is either dynamic or an append request; a deep-sleep message exists only in
  a build that handles it and carries the metrics issue with one of the two events.
\<close>

theorem queued_messages_typed:
  assumes "reachable E P s"
  shows "list_all (typed_msg (bld E)) (mq (sys_world s))
    \<and> (\<forall>a. enabled (bld E) a s \<longrightarrow> list_all (typed_msg (bld E)) (mq (out_world (perform E P a s))))"
  using reachable_queued [OF assms] perform_queued [OF reachable_queued [OF assms], of _ P]
  by (simp add: queued_def)

theorem queued_messages_typed_witness:
  "\<exists>s. reachable lab plain_api s \<and> length (mq (sys_world s)) = 2 \<and> list_all (typed_msg (bld lab)) (mq (sys_world s))"
proof -
  let ?as = "[IssueEvent (Some (Some ''Device'')), IssueEvent (Some (Some ''Wifi_apnd''))]"
  have "case run_actions lab plain_api ?as lab_start of Running s \<Rightarrow> length (mq (sys_world s)) = 2 | Down e s \<Rightarrow> False"
    by code_simp
  then obtain s where "run_actions lab plain_api ?as lab_start = Running s" "length (mq (sys_world s)) = 2"
    by (cases "run_actions lab plain_api ?as lab_start") auto
  then show ?thesis
    using run_actions_reachable [OF lab_start_reachable] queued_messages_typed [of lab plain_api s] by blast
qed

end
