(* ===== verification/RRD_Threads.thy ===== *)
theory RRD_Threads
  imports RRD_Interface
begin

text \<open>
  The threads that share the package cache (\<^verbatim>\<open>src/src/rrdRunCmdThread.c\<close>): the worker asks
  for a package and then remembers who waits for it; the bus threads run the handlers of
  finished downloads (\<^verbatim>\<open>src/src/rrdIarmEvents.c\<close>, \<^verbatim>\<open>src/src/rrdInterface.c\<close>). The lock of the
  cache covers one list operation, and a handler keeps the node it found outside the lock.
  A handler is cut into the pieces between two uses of shared memory; the pieces of all
  threads interleave in any order.
\<close>

section \<open>Model\<close>

text \<open>The event of the download manager, or the bus event with the package name made from it.\<close>

datatype source = Manager rdm_event | Download string

fun src_pkg :: "source \<Rightarrow> string" where
  "src_pkg (Manager ev) = pkg_name ev"
| "src_pkg (Download pkg) = pkg"

fun src_path :: "source \<Rightarrow> string" where
  "src_path (Manager ev) = pkg_inst_path ev"
| "src_path (Download pkg) = RRD_TMP_DIR @ pkg"

fun src_complete :: "source \<Rightarrow> bool" where
  "src_complete (Manager ev) = install_complete ev"
| "src_complete (Download pkg) = True"

fun start_buf :: "source \<Rightarrow> string \<Rightarrow> data_buf" where
  "start_buf (Manager ev) issueString =
     (if issueString = DEEP_SLEEP_STR
      then RRD_data_buff_init DEEPSLEEP_EVENT_MSG RRD_DEEPSLEEP_RDM_PKG_INSTALL_COMPLETE
      else RRD_data_buff_init EVENT_MSG RRD_DEEPSLEEP_INVALID_DEFAULT)"
| "start_buf (Download pkg) issueString = RRD_data_buff_init EVENT_MSG RRD_DEEPSLEEP_RDM_PKG_INSTALL_COMPLETE"

text \<open>
  Where a handler is: before the lookup; with the node it found, before it measures its
  issue string, before it copies it and before it sends the copy; in \<open>remove_item\<close>, before
  the lock and after it.
\<close>

datatype handler =
    Idle
  | Calling source
  | Measuring source nat
  | Copying source nat data_buf
  | Delivering source nat data_buf
  | Removing source nat
  | Freeing source nat

text \<open>The answers of the platform to one piece: the three allocations and \<open>msgsnd\<close>.\<close>

record answers =
  mem_buf :: bool
  mem_text :: bool
  mem_path :: bool
  queue_ok :: bool

definition cache_text :: "cstate \<Rightarrow> nat \<Rightarrow> fault + string" where
  "cache_text cs a = (case node_at cs a of Inl e \<Rightarrow> Inl e | Inr n \<Rightarrow> c_read (c_issueString n))"

fun hstep :: "answers \<Rightarrow> handler \<Rightarrow> cstate \<Rightarrow> data_buf list \<Rightarrow> fault + handler \<times> cstate \<times> data_buf list" where
  "hstep x Idle cs q = Inr (Idle, cs, q)"
| "hstep x (Calling src) cs q =
     (case findPresentInCache (src_pkg src) cs of
        Inl e \<Rightarrow> Inl e
      | Inr None \<Rightarrow> Inr (Idle, cs, q)
      | Inr (Some a) \<Rightarrow> Inr (if src_complete src then Measuring src a else Removing src a, cs, q))"
| "hstep x (Measuring src a) cs q =
     (case cache_text cs a of
        Inl e \<Rightarrow> Inl e
      | Inr issueString \<Rightarrow>
          if mem_buf x then Inr (Copying src a (start_buf src issueString), cs, q)
          else (case src of Manager ev \<Rightarrow> Inr (Idle, cs, q) | Download pkg \<Rightarrow> Inl NullDeref))"
| "hstep x (Copying src a sendbuf) cs q =
     (if \<not> mem_text x \<or> \<not> mem_path x then Inr (Idle, cs, q)
      else (case cache_text cs a of
              Inl e \<Rightarrow> Inl e
            | Inr issueString \<Rightarrow>
                Inr (Delivering src a (installed_message sendbuf issueString (src_path src)), cs, q)))"
| "hstep x (Delivering src a sendbuf) cs q =
     (if queue_ok x then Inr (Removing src a, cs, q @ [sendbuf]) else Inl (ProcExit 1))"
| "hstep x (Removing src a) cs q = (case unlink a cs of Inl e \<Rightarrow> Inl e | Inr cs' \<Rightarrow> Inr (Freeing src a, cs', q))"
| "hstep x (Freeing src a) cs q =
     (case freecacheDataCacheNode a cs of Inl e \<Rightarrow> Inl e | Inr cs' \<Rightarrow> Inr (Idle, cs', q))"

text \<open>All threads: any number of bus threads, and the entry that the worker is about to make.\<close>

record conc =
  ccache :: cstate
  cqueue :: "data_buf list"
  busy :: "nat \<Rightarrow> handler"
  asking :: "(string \<times> string) option"

text \<open>
  An event starts a handler on an idle thread; a thread does one piece; the worker has set
  the parameter that starts a download (for the package, on behalf of the issue); the
  worker appends the entry.
\<close>

datatype thread_move =
    Event nat source
  | Thread nat answers
  | Ask string string
  | Append bool

fun move :: "thread_move \<Rightarrow> conc \<Rightarrow> (fault + conc) option" where
  "move (Event i src) s = (if busy s i = Idle then Some (Inr (s\<lparr>busy := (busy s)(i := Calling src)\<rparr>)) else None)"
| "move (Thread i x) s =
     Some (case hstep x (busy s i) (ccache s) (cqueue s) of
       Inl e \<Rightarrow> Inl e
     | Inr (h, cs, q) \<Rightarrow> Inr (s\<lparr>ccache := cs, cqueue := q, busy := (busy s)(i := h)\<rparr>))"
| "move (Ask p issue) s = (if asking s = None then Some (Inr (s\<lparr>asking := Some (p, issue)\<rparr>)) else None)"
| "move (Append mem) s =
     (case asking s of
        None \<Rightarrow> None
      | Some (p, issue) \<Rightarrow>
          Some (case append_item mem (Own p) (Own issue) (ccache s) of
            Inl e \<Rightarrow> Inl e
          | Inr cs \<Rightarrow> Inr (s\<lparr>ccache := cs, asking := None\<rparr>)))"

definition conc_start :: conc where
  "conc_start = \<lparr>ccache = cache_start, cqueue = [], busy = (\<lambda>_. Idle), asking = None\<rparr>"

fun run_moves :: "thread_move list \<Rightarrow> conc \<Rightarrow> (fault + conc) option" where
  "run_moves [] s = Some (Inr s)"
| "run_moves (m # ms) s = (case move m s of None \<Rightarrow> None | Some (Inl e) \<Rightarrow> (if ms = [] then Some (Inl e) else None)
     | Some (Inr s') \<Rightarrow> run_moves ms s')"

section \<open>A handler on its own\<close>

fun hsteps :: "nat \<Rightarrow> answers \<Rightarrow> handler \<Rightarrow> cstate \<Rightarrow> data_buf list \<Rightarrow> fault + handler \<times> cstate \<times> data_buf list" where
  "hsteps 0 x h cs q = Inr (h, cs, q)"
| "hsteps (Suc n) x h cs q = (case hstep x h cs q of Inl e \<Rightarrow> Inl e | Inr (h', cs', q') \<Rightarrow> hsteps n x h' cs' q')"

definition answers_at :: "'j platform \<Rightarrow> nat \<Rightarrow> answers" where
  "answers_at E t = \<lparr>mem_buf = malloc_ok E t, mem_text = malloc_ok E (Suc t), mem_path = malloc_ok E (Suc (Suc t)),
     queue_ok = msgsnd_ok E (Suc (Suc (Suc t)))\<rparr>"

lemma hsteps_Idle [simp]: "hsteps n x Idle cs q = Inr (Idle, cs, q)"
  by (induction n) auto

lemma start_buf_free [simp]: "RRD_data_buff_deAlloc (start_buf src s) = Inr ()"
  "RRD_data_buff_deAlloc ((start_buf src s)\<lparr>mdata := Own []\<rparr>) = Inr ()"
  "RRD_data_buff_deAlloc (installed_message (start_buf src s) s p) = Inr ()"
  by (cases src; auto simp: RRD_data_buff_deAlloc_def RRD_data_buff_init_def installed_message_def split: prod.splits)+

definition agrees :: "fault + handler \<times> cstate \<times> data_buf list \<Rightarrow> unit run \<Rightarrow> world \<Rightarrow> bool" where
  "agrees r p w = (case r of
     Inl e \<Rightarrow> \<exists>w'. p = Crash e w'
   | Inr (h, cs, q) \<Rightarrow> h = Idle \<and> (\<exists>t. p = Ret () (w\<lparr>tick := t, cache := cs, mq := q\<rparr>)))"

lemma agrees_remove:
  "agrees (hsteps 2 x (Removing src a) (cache w) (mq w)) (on_cache (remove_item (Some a)) w) w"
  by (auto simp: agrees_def eval_nat_numeral on_cache_def remove_item_def split: sum.splits
      intro: exI [of _ "tick w"])

lemma agrees_tick: "agrees r p (w\<lparr>tick := t\<rparr>) = agrees r p w"
  by (auto simp: agrees_def split: sum.splits)

lemma hsteps_step:
  "hstep x h cs q = Inr (h', cs', q') \<Longrightarrow> hsteps (Suc n) x h cs q = hsteps n x h' cs' q'"
  by simp

lemma agrees_send:
  assumes "cache_text (cache w) a = Inr s" and "x = answers_at E t" and "tick w = Suc t"
  shows "agrees (hsteps 4 x (Copying src a (start_buf src s)) (cache w) (mq w))
     (bnd (send_installed E (start_buf src s) s (src_path src)) (\<lambda>go.
        if go then on_cache (remove_item (Some a)) else ret ()) w) w"
proof (cases "mem_text x \<and> mem_path x \<and> queue_ok x")
  case True
  let ?m = "installed_message (start_buf src s) s (src_path src)"
  let ?w = "w\<lparr>tick := Suc (Suc (Suc (Suc t))), mq := mq w @ [?m]\<rparr>"
  have "bnd (send_installed E (start_buf src s) s (src_path src)) (\<lambda>go.
        if go then on_cache (remove_item (Some a)) else ret ()) w = on_cache (remove_item (Some a)) ?w"
    using True assms by (simp add: answers_at_def send_installed_def RRDMsgDeliver_def run_defs)
  moreover have "hsteps 4 x (Copying src a (start_buf src s)) (cache w) (mq w)
      = hsteps 2 x (Removing src a) (cache ?w) (mq ?w)"
    using hsteps_step [where n = 3 and x = x and h = "Copying src a (start_buf src s)"]
      hsteps_step [where n = 2 and x = x and h = "Delivering src a ?m"] True assms(1) by simp
  ultimately show ?thesis using agrees_remove [of x src a ?w] by (auto simp: agrees_def split: sum.splits)
next
  case False
  then show ?thesis using assms
    by (auto simp: agrees_def eval_nat_numeral answers_at_def send_installed_def RRDMsgDeliver_def run_defs
        intro: exI [of _ "t + 2"] exI [of _ "t + 3"])
qed

lemma bnd_malloc: "bnd (malloc E) k w = k (malloc_ok E (tick w)) (w\<lparr>tick := Suc (tick w)\<rparr>)"
  by (simp add: bnd_def malloc_def ask_def)

lemma agrees_found:
  "agrees (hsteps 5 (answers_at E (tick w)) (Measuring src a) (cache w) (mq w))
     (bnd (node_issue a) (\<lambda>issueString. bnd (malloc E) (\<lambda>mem.
        if \<not> mem then (case src of Manager ev \<Rightarrow> ret () | Download pkg \<Rightarrow> crash NullDeref)
        else bnd (send_installed E (start_buf src issueString) issueString (src_path src)) (\<lambda>go.
             if go then on_cache (remove_item (Some a)) else ret ()))) w) w"
proof (cases "cache_text (cache w) a")
  case (Inl e)
  then show ?thesis
    by (simp add: agrees_def eval_nat_numeral node_issue_def run_defs cache_text_def split: sum.splits)
next
  case (Inr s)
  then have issue: "node_issue a w = Ret s w"
    by (simp add: node_issue_def cache_text_def run_defs split: sum.splits)
  show ?thesis
  proof (cases "malloc_ok E (tick w)")
    case True
    let ?w = "w\<lparr>tick := Suc (tick w)\<rparr>"
    have "hsteps 5 (answers_at E (tick w)) (Measuring src a) (cache w) (mq w)
        = hsteps 4 (answers_at E (tick w)) (Copying src a (start_buf src s)) (cache ?w) (mq ?w)"
      using hsteps_step [where n = 4, of "answers_at E (tick w)" "Measuring src a"] True Inr by (simp add: answers_at_def)
    moreover have "bnd (node_issue a) (\<lambda>issueString. bnd (malloc E) (\<lambda>mem.
        if \<not> mem then (case src of Manager ev \<Rightarrow> ret () | Download pkg \<Rightarrow> crash NullDeref)
        else bnd (send_installed E (start_buf src issueString) issueString (src_path src)) (\<lambda>go.
             if go then on_cache (remove_item (Some a)) else ret ()))) w
      = bnd (send_installed E (start_buf src s) s (src_path src)) (\<lambda>go.
             if go then on_cache (remove_item (Some a)) else ret ()) ?w"
      using issue True by (simp only: bnd_def [of "node_issue a"] run.case bnd_malloc if_False not_True_eq_False)
    moreover have "agrees (hsteps 4 (answers_at E (tick w)) (Copying src a (start_buf src s)) (cache ?w) (mq ?w))
       (bnd (send_installed E (start_buf src s) s (src_path src)) (\<lambda>go.
             if go then on_cache (remove_item (Some a)) else ret ()) ?w) ?w"
      by (rule agrees_send [where t = "tick w" and E = E]) (simp_all add: Inr)
    ultimately show ?thesis by (simp only: agrees_tick)
  next
    case False
    with Inr issue show ?thesis
      by (cases src) (auto simp: agrees_def eval_nat_numeral answers_at_def run_defs intro: exI [of _ "Suc (tick w)"])
  qed
qed

lemma agrees_lookup:
  assumes "\<And>a. found a = (if src_complete src
      then bnd (node_issue a) (\<lambda>issueString. bnd (malloc E) (\<lambda>mem.
        if \<not> mem then (case src of Manager ev \<Rightarrow> ret () | Download pkg \<Rightarrow> crash NullDeref)
        else bnd (send_installed E (start_buf src issueString) issueString (src_path src)) (\<lambda>go.
             if go then on_cache (remove_item (Some a)) else ret ())))
      else on_cache (remove_item (Some a)))"
  shows "agrees (hsteps 6 (answers_at E (tick w)) (Calling src) (cache w) (mq w))
     (bnd (lookup_package (src_pkg src)) (\<lambda>node. case node of None \<Rightarrow> ret () | Some a \<Rightarrow> found a) w) w"
proof (cases "findPresentInCache (src_pkg src) (cache w)")
  case (Inl e)
  then show ?thesis by (simp add: agrees_def eval_nat_numeral lookup_package_def run_defs)
next
  case (Inr node)
  then have look: "lookup_package (src_pkg src) w = Ret node w" by (simp add: lookup_package_def run_defs)
  show ?thesis
  proof (cases node)
    case None
    then show ?thesis using Inr look
      by (auto simp: agrees_def eval_nat_numeral run_defs intro: exI [of _ "tick w"])
  next
    case (Some a)
    have prog: "bnd (lookup_package (src_pkg src)) (\<lambda>node. case node of None \<Rightarrow> ret () | Some a \<Rightarrow> found a) w = found a w"
      using look Some by (simp add: bnd_def)
    show ?thesis
    proof (cases "src_complete src")
      case True
      have "hsteps 6 (answers_at E (tick w)) (Calling src) (cache w) (mq w)
          = hsteps 5 (answers_at E (tick w)) (Measuring src a) (cache w) (mq w)"
        using hsteps_step [where n = 5 and h = "Calling src"] True Inr Some by simp
      with agrees_found [of E w src a] True show ?thesis unfolding prog by (simp only: assms if_True)
    next
      case False
      have "hsteps 6 (answers_at E (tick w)) (Calling src) (cache w) (mq w)
          = hsteps 2 (answers_at E (tick w)) (Removing src a) (cache w) (mq w)"
        using False Inr Some by (simp add: eval_nat_numeral split: sum.splits)
      with agrees_remove [of "answers_at E (tick w)" src a w] False show ?thesis unfolding prog by (simp only: assms if_False)
    qed
  qed
qed

lemma manager_alone:
  assumes "owner_is_rdmmgr ev" and "is_installation_status ev"
  shows "agrees (hsteps 6 (answers_at E (tick w)) (Calling (Manager ev)) (cache w) (mq w)) (rdmManagerEventHandler E ev w) w"
proof -
  let ?found = "\<lambda>a. bnd (if install_complete ev
      then bnd (node_issue a) (\<lambda>issueString. bnd (malloc E) (\<lambda>mem. if \<not> mem then ret False else
        send_installed E (start_buf (Manager ev) issueString) issueString (pkg_inst_path ev)))
      else ret True) (\<lambda>go. if go then on_cache (remove_item (Some a)) else ret ())"
  have "rdmManagerEventHandler E ev = bnd (lookup_package (src_pkg (Manager ev))) (\<lambda>node. case node of None \<Rightarrow> ret () | Some a \<Rightarrow> ?found a)"
    using assms by (simp only: rdmManagerEventHandler_def start_buf.simps src_pkg.simps if_True simp_thms)
  moreover have "?found a = (if src_complete (Manager ev)
      then bnd (node_issue a) (\<lambda>issueString. bnd (malloc E) (\<lambda>mem.
        if \<not> mem then (case Manager ev of Manager ev \<Rightarrow> ret () | Download pkg \<Rightarrow> crash NullDeref)
        else bnd (send_installed E (start_buf (Manager ev) issueString) issueString (src_path (Manager ev))) (\<lambda>go.
             if go then on_cache (remove_item (Some a)) else ret ())))
      else on_cache (remove_item (Some a)))" for a
    by (simp add: bnd_if cong: if_cong)
  ultimately show ?thesis
    using agrees_lookup [where src = "Manager ev" and found = ?found and E = E and w = w] by (simp only:)
qed

lemma download_alone:
  assumes "malloc_ok E (tick w)" and "malloc_ok E (Suc (tick w))"
  shows "agrees (hsteps 6 (answers_at E (Suc (Suc (tick w)))) (Calling (Download (RDM_PKG_PREFIX @ takeWhile (\<lambda>c. c \<noteq> CHR ''.'') issue)))
      (cache w) (mq w)) (rdmDownloadEventHandler E (Some (Some issue)) w) w"
proof -
  let ?pkg = "RDM_PKG_PREFIX @ takeWhile (\<lambda>c. c \<noteq> CHR ''.'') issue" and ?w = "w\<lparr>tick := Suc (Suc (tick w))\<rparr>"
  let ?found = "\<lambda>a. bnd (node_issue a) (\<lambda>issueString. bnd (malloc E) (\<lambda>mem. if \<not> mem then crash NullDeref else
      bnd (send_installed E (RRD_data_buff_init EVENT_MSG RRD_DEEPSLEEP_RDM_PKG_INSTALL_COMPLETE) issueString (RRD_TMP_DIR @ ?pkg))
        (\<lambda>go. if go then on_cache (remove_item (Some a)) else ret ())))"
  have "rdmDownloadEventHandler E (Some (Some issue)) w
      = bnd (lookup_package ?pkg) (\<lambda>node. case node of None \<Rightarrow> ret () | Some a \<Rightarrow> ?found a) ?w"
    using assms by (simp add: rdmDownloadEventHandler_def Let_def bnd_malloc)
  moreover have "agrees (hsteps 6 (answers_at E (tick ?w)) (Calling (Download ?pkg)) (cache ?w) (mq ?w))
      (bnd (lookup_package (src_pkg (Download ?pkg))) (\<lambda>node. case node of None \<Rightarrow> ret () | Some a \<Rightarrow> ?found a) ?w) ?w"
    by (rule agrees_lookup) (simp cong: if_cong)
  ultimately show ?thesis by (simp add: agrees_tick)
qed

section \<open>Nodes between unlinking and freeing\<close>

text \<open>The list on the nodes \<open>as\<close>, and the nodes \<open>D\<close> that were taken out but are not freed yet.\<close>

definition cache_held :: "cstate \<Rightarrow> nat list \<Rightarrow> nat set \<Rightarrow> bool" where
  "cache_held cs as D \<longleftrightarrow>
     dll (cheap cs) None as None \<and> cacheDataNode cs = first_addr as None \<and> distinct as
     \<and> dom (cheap cs) = set as \<union> D \<and> set as \<inter> D = {} \<and> finite D
     \<and> (\<forall>a \<in> dom (cheap cs). a < cfresh cs \<and> node_live (the (cheap cs a)))"

lemma cache_held_inv: "cache_held cs as {} = cache_inv cs as"
  by (auto simp: cache_held_def cache_inv_def)

definition items_kept :: "cstate \<Rightarrow> cstate \<Rightarrow> bool" where
  "items_kept cs cs' \<longleftrightarrow> (\<forall>a \<in> dom (cheap cs). map_option node_item (cheap cs' a) = map_option node_item (cheap cs a))"

lemma held_node: "cache_held cs as D \<Longrightarrow> a \<in> set as \<union> D \<Longrightarrow> \<exists>n. cheap cs a = Some n \<and> node_live n"
  unfolding cache_held_def by (metis domD option.sel)

lemma held_find:
  assumes "cache_held cs as D"
  shows "findPresentInCache pkg cs = Inr (List.find (node_named cs pkg) as)"
proof -
  have "set as \<subseteq> {..<cfresh cs}" "distinct as" using assms by (auto simp: cache_held_def)
  then have "length as \<le> cfresh cs" using card_mono [of "{..<cfresh cs}" "set as"] distinct_card [of as] by simp
  with assms find_loop_dll [of cs None as] show ?thesis
    unfolding findPresentInCache_def cache_held_def by auto
qed

lemma held_append:
  assumes held: "cache_held cs as D" and live: "live p" "live i"
  shows "\<exists>cs' as'. append_item m p i cs = Inr cs' \<and> cache_held cs' as' D \<and> as' = (if m then [cfresh cs] else []) @ as \<and> items_kept cs cs'
    \<and> (m \<longrightarrow> map_option node_item (cheap cs' (cfresh cs)) = Some (p, i))"
proof (cases m)
  case False
  with held show ?thesis by (auto simp: append_item_fail items_kept_def)
next
  case m: True
  let ?a = "cfresh cs"
  from held have new: "?a \<notin> dom (cheap cs)" by (auto simp: cache_held_def)
  show ?thesis
  proof (cases as)
    case Nil
    with held m live new show ?thesis
      by (auto simp: append_item_def createCache_def cache_held_def node_live_def items_kept_def less_Suc_eq node_item_def)
  next
    case (Cons b bs)
    with held obtain n where n: "cheap cs b = Some n" "node_live n" by (auto simp: cache_held_def)
    with new have ab: "?a \<noteq> b" by auto
    let ?h = "(cheap cs)(?a \<mapsto> \<lparr>c_mdata = p, c_issueString = i, c_next = Some b, c_prev = None\<rparr>,
      b \<mapsto> n\<lparr>c_prev := Some ?a\<rparr>)"
    let ?cs = "cs\<lparr>cheap := ?h, cfresh := Suc ?a, cacheDataNode := Some ?a\<rparr>"
    have eq: "append_item True p i cs = Inr ?cs"
      using held Cons n ab
      by (simp add: append_item_def createCache_def cache_held_def set_next_def set_prev_def node_at_def)
    have as: "?a \<notin> set as" "?a \<notin> D" using new held by (auto simp: cache_held_def)
    have "dll ?h None (?a # as) None"
      using held Cons n as ab by (auto simp: cache_held_def)
    moreover have "dom ?h = insert ?a (dom (cheap cs))" using n by (auto simp: dom_def)
    moreover have "\<forall>x \<in> dom ?h. x < Suc ?a \<and> node_live (the (?h x))"
      using held live n by (auto simp: cache_held_def node_live_def less_Suc_eq)
    ultimately have "cache_held ?cs (?a # as) D"
      using held as by (simp add: cache_held_def)
    moreover have "items_kept cs ?cs" using n new by (auto simp: items_kept_def node_item_def)
    moreover have "map_option node_item (?h ?a) = Some (p, i)" using ab by (simp add: node_item_def)
    ultimately show ?thesis using eq m by auto
  qed
qed

lemma held_unlink:
  assumes "cache_held cs (xs @ a # ys) D"
  shows "\<exists>cs'. unlink a cs = Inr cs' \<and> cache_held cs' (xs @ ys) (insert a D) \<and> items_kept cs cs'"
proof -
  from assms have "\<exists>cs'. unlink a cs = Inr cs' \<and> dll (cheap cs') None (xs @ ys) None
      \<and> cacheDataNode cs' = first_addr (xs @ ys) None \<and> same_items cs cs'"
    using unlink_head [of cs a ys] unlink_inner [of cs xs a ys "butlast xs" "last xs"]
    by (cases "xs = []") (auto simp: cache_held_def)
  then obtain cs' where cs': "unlink a cs = Inr cs'" "dll (cheap cs') None (xs @ ys) None"
      "cacheDataNode cs' = first_addr (xs @ ys) None" "same_items cs cs'" by blast
  have "node_live (the (cheap cs' x))" if "x \<in> dom (cheap cs)" for x
    using same_items_the [OF cs'(4) that] that assms by (auto simp: cache_held_def node_live_def node_item_def)
  then have "cache_held cs' (xs @ ys) (insert a D)"
    using assms cs'(2-4) by (auto simp: cache_held_def same_items_def)
  with cs' show ?thesis by (auto simp: items_kept_def same_items_def)
qed

lemma held_free:
  assumes "cache_held cs as D" and "a \<in> D"
  shows "\<exists>cs'. freecacheDataCacheNode a cs = Inr cs' \<and> cache_held cs' as (D - {a})
    \<and> cheap cs' = (cheap cs)(a := None)"
proof -
  from assms have "a \<in> dom (cheap cs)" by (auto simp: cache_held_def)
  then obtain n where n: "cheap cs a = Some n" by blast
  have "node_live n" using assms(1) n unfolding cache_held_def by (metis domI option.sel)
  with n have "freecacheDataCacheNode a cs = Inr (cs\<lparr>cheap := (cheap cs)(a := None)\<rparr>)"
    by (auto simp: freecacheDataCacheNode_def node_live_def)
  moreover have "a \<notin> set as" using assms by (auto simp: cache_held_def)
  ultimately show ?thesis using assms by (auto simp: cache_held_def)
qed

section \<open>Threads that handle different packages\<close>

fun handler_src :: "handler \<Rightarrow> source option" where
  "handler_src Idle = None"
| "handler_src (Calling src) = Some src"
| "handler_src (Measuring src a) = Some src"
| "handler_src (Copying src a b) = Some src"
| "handler_src (Delivering src a b) = Some src"
| "handler_src (Removing src a) = Some src"
| "handler_src (Freeing src a) = Some src"

fun holding :: "handler \<Rightarrow> nat option" where
  "holding Idle = None"
| "holding (Calling src) = None"
| "holding (Measuring src a) = Some a"
| "holding (Copying src a b) = Some a"
| "holding (Delivering src a b) = Some a"
| "holding (Removing src a) = Some a"
| "holding (Freeing src a) = Some a"

fun carried :: "handler \<Rightarrow> data_buf option" where
  "carried (Copying src a b) = Some b"
| "carried (Delivering src a b) = Some b"
| "carried _ = None"

fun freeing :: "handler \<Rightarrow> bool" where
  "freeing (Freeing src a) = True"
| "freeing _ = False"

definition handler_pkg :: "handler \<Rightarrow> string option" where
  "handler_pkg h = map_option src_pkg (handler_src h)"

definition detached :: "(nat \<Rightarrow> handler) \<Rightarrow> nat set" where
  "detached bs = {a. \<exists>i. freeing (bs i) \<and> holding (bs i) = Some a}"

definition named :: "cstate \<Rightarrow> string option \<Rightarrow> nat \<Rightarrow> bool" where
  "named cs pkg a \<longleftrightarrow> (\<exists>n p. cheap cs a = Some n \<and> pkg = Some p \<and> c_mdata n = Own p)"

text \<open>A thread may start on a package that no other thread is busy with.\<close>

fun apart :: "thread_move \<Rightarrow> conc \<Rightarrow> bool" where
  "apart (Event i src) s = (\<forall>j. handler_pkg (busy s j) \<noteq> Some (src_pkg src))"
| "apart _ s = True"

inductive threads_reach :: "conc \<Rightarrow> bool" where
  start: "threads_reach conc_start"
| step: "threads_reach s \<Longrightarrow> apart m s \<Longrightarrow> move m s = Some (Inr s') \<Longrightarrow> threads_reach s'"

definition handlers_ok :: "cstate \<Rightarrow> nat list \<Rightarrow> (nat \<Rightarrow> handler) \<Rightarrow> bool" where
  "handlers_ok cs as bs \<longleftrightarrow>
     (\<forall>i a. holding (bs i) = Some a \<longrightarrow> named cs (handler_pkg (bs i)) a \<and> (\<not> freeing (bs i) \<longrightarrow> a \<in> set as))
     \<and> (\<forall>i j. handler_pkg (bs i) \<noteq> None \<longrightarrow> handler_pkg (bs i) = handler_pkg (bs j) \<longrightarrow> i = j)
     \<and> (\<forall>i b. carried (bs i) = Some b \<longrightarrow> live_buf b)"

definition conc_inv :: "conc \<Rightarrow> bool" where
  "conc_inv s \<longleftrightarrow> list_all live_buf (cqueue s) \<and>
     (\<exists>as. cache_held (ccache s) as (detached (busy s)) \<and> handlers_ok (ccache s) as (busy s))"

lemma named_kept: "items_kept cs cs' \<Longrightarrow> named cs pkg a \<Longrightarrow> named cs' pkg a"
proof -
  assume kept: "items_kept cs cs'" and "named cs pkg a"
  then obtain n p where n: "cheap cs a = Some n" "pkg = Some p" "c_mdata n = Own p" by (auto simp: named_def)
  with kept have "map_option node_item (cheap cs' a) = Some (node_item n)" unfolding items_kept_def by (metis domI option.simps(9))
  with n show ?thesis by (auto simp: named_def node_item_def)
qed

lemma handlers_mono:
  assumes "handlers_ok cs as bs"
    and "\<And>j b p. holding (bs j) = Some b \<Longrightarrow> named cs p b \<Longrightarrow> named cs' p b"
    and "\<And>j b. holding (bs j) = Some b \<Longrightarrow> \<not> freeing (bs j) \<Longrightarrow> b \<in> set as \<Longrightarrow> b \<in> set as'"
  shows "handlers_ok cs' as' bs"
  using assms unfolding handlers_ok_def by blast

lemma handlers_kept:
  "handlers_ok cs as bs \<Longrightarrow> items_kept cs cs' \<Longrightarrow> set as \<subseteq> set as' \<Longrightarrow> handlers_ok cs' as' bs"
  by (auto simp: handlers_ok_def intro: named_kept)

lemma detached_upd: "\<not> freeing (bs i) \<Longrightarrow> \<not> freeing h \<Longrightarrow> detached (bs(i := h)) = detached bs"
  unfolding detached_def by (metis (no_types, lifting) fun_upd_apply)

lemma detached_new: "\<not> freeing (bs i) \<Longrightarrow> detached (bs(i := Freeing src a)) = insert a (detached bs)"
  by (auto simp: detached_def split: if_splits)

text \<open>Two threads never hold the same node.\<close>

lemma handlers_distinct:
  assumes "handlers_ok cs as bs" and "holding (bs i) = Some a" and "holding (bs j) = Some a"
  shows "i = j"
proof -
  from assms have "named cs (handler_pkg (bs i)) a" "named cs (handler_pkg (bs j)) a" by (auto simp: handlers_ok_def)
  then have "handler_pkg (bs i) = handler_pkg (bs j)" "handler_pkg (bs i) \<noteq> None" by (auto simp: named_def)
  with assms(1) show ?thesis unfolding handlers_ok_def by metis
qed

text \<open>A thread that changes its state without touching the cache.\<close>

lemma handlers_new:
  assumes ok: "handlers_ok cs as bs"
    and new: "\<And>j. j \<noteq> i \<Longrightarrow> handler_pkg h = None \<or> handler_pkg (bs j) \<noteq> handler_pkg h"
    and node: "\<And>a. holding h = Some a \<Longrightarrow> named cs (handler_pkg h) a \<and> (\<not> freeing h \<longrightarrow> a \<in> set as)"
    and buf: "\<And>b. carried h = Some b \<Longrightarrow> live_buf b"
  shows "handlers_ok cs as (bs(i := h))"
proof -
  have "k = j" if "handler_pkg ((bs(i := h)) k) \<noteq> None" "handler_pkg ((bs(i := h)) k) = handler_pkg ((bs(i := h)) j)" for k j
  proof (cases "k = i \<or> j = i")
    case True
    with that new show ?thesis by (metis fun_upd_apply)
  next
    case False
    with that ok show ?thesis by (simp add: handlers_ok_def)
  qed
  moreover have "named cs (handler_pkg ((bs(i := h)) k)) a \<and> (\<not> freeing ((bs(i := h)) k) \<longrightarrow> a \<in> set as)"
    if "holding ((bs(i := h)) k) = Some a" for k a
    using that ok node by (cases "k = i") (simp_all add: handlers_ok_def)
  moreover have "live_buf b" if "carried ((bs(i := h)) k) = Some b" for k b
    using that ok buf by (cases "k = i") (auto simp: handlers_ok_def)
  ultimately show ?thesis unfolding handlers_ok_def by blast
qed

lemma handlers_pkg_unique:
  "handlers_ok cs as bs \<Longrightarrow> handler_pkg (bs i) \<noteq> None \<Longrightarrow> handler_pkg (bs i) = handler_pkg (bs j) \<Longrightarrow> i = j"
  unfolding handlers_ok_def by blast

lemma handlers_upd:
  assumes ok: "handlers_ok cs as bs"
    and "handler_pkg h = None \<or> handler_pkg h = handler_pkg (bs i)"
    and "\<And>a. holding h = Some a \<Longrightarrow> named cs (handler_pkg h) a \<and> (\<not> freeing h \<longrightarrow> a \<in> set as)"
    and "\<And>b. carried h = Some b \<Longrightarrow> live_buf b"
  shows "handlers_ok cs as (bs(i := h))"
proof (rule handlers_new [OF ok _ assms(3,4)])
  show "handler_pkg h = None \<or> handler_pkg (bs j) \<noteq> handler_pkg h" if "j \<noteq> i" for j
    using assms(2) handlers_pkg_unique [OF ok, of i j] that by metis
qed

lemma handlers_at:
  "handlers_ok cs as bs \<Longrightarrow> holding (bs i) = Some a \<Longrightarrow> named cs (handler_pkg (bs i)) a"
  "handlers_ok cs as bs \<Longrightarrow> holding (bs i) = Some a \<Longrightarrow> \<not> freeing (bs i) \<Longrightarrow> a \<in> set as"
  unfolding handlers_ok_def by blast+

lemma find_named:
  assumes "cache_held cs as D" and "findPresentInCache pkg cs = Inr (Some a)"
  shows "a \<in> set as" and "named cs (Some pkg) a"
proof -
  from assms have "List.find (node_named cs pkg) as = Some a" by (simp add: held_find)
  then have a: "a \<in> set as" "node_named cs pkg a" by (auto dest: find_split)
  then show "a \<in> set as" by simp
  from held_node [OF assms(1)] a(1) obtain n where "cheap cs a = Some n" by blast
  with a(2) show "named cs (Some pkg) a" by (auto simp: named_def node_named_def has_name_def node_item_def)
qed

lemma live_start_buf: "live_buf (start_buf src s)"
  by (cases src) (auto simp: live_buf_def RRD_data_buff_init_def)

lemma held_text:
  assumes "cache_held cs as D" and "a \<in> set as"
  shows "(\<exists>s. cache_text cs a = Inr s) \<or> cache_text cs a = Inl NullDeref"
proof -
  from held_node [OF assms(1), of a] assms(2) obtain n where n: "cheap cs a = Some n" "node_live n" by blast
  then show ?thesis by (cases "c_issueString n") (auto simp: cache_text_def node_live_def)
qed

lemma hstep_quiet:
  assumes held: "cache_held cs as (detached bs)" and ok: "handlers_ok cs as bs" and q: "list_all live_buf q"
    and "\<forall>src a. bs i \<noteq> Removing src a \<and> bs i \<noteq> Freeing src a"
  shows "case hstep x (bs i) cs q of
      Inl e \<Rightarrow> e \<in> {NullDeref, ProcExit 1}
    | Inr (h, cs', q') \<Rightarrow> cs' = cs \<and> list_all live_buf q' \<and> \<not> freeing h \<and> handlers_ok cs as (bs(i := h))"
proof -
  have upd: "handlers_ok cs as (bs(i := h))"
    if "handler_pkg h = None \<or> handler_pkg h = handler_pkg (bs i)"
      "\<And>a. holding h = Some a \<Longrightarrow> named cs (handler_pkg h) a \<and> a \<in> set as" "\<And>b. carried h = Some b \<Longrightarrow> live_buf b" for h
    using handlers_upd [OF ok that(1)] that(2,3) by blast
  have at: "named cs (handler_pkg (bs i)) a \<and> a \<in> set as" if "holding (bs i) = Some a" "\<not> freeing (bs i)" for a
    using ok that by (auto simp: handlers_ok_def)
  have live: "live_buf b" if "carried (bs i) = Some b" for b using ok that by (auto simp: handlers_ok_def)
  show ?thesis
  proof (cases "bs i")
    case Idle
    with q upd [of Idle] show ?thesis by (simp add: handler_pkg_def)
  next
    case (Calling src)
    show ?thesis
    proof (cases "List.find (node_named cs (src_pkg src)) as")
      case None
      with Calling q upd [of Idle] held_find [OF held, of "src_pkg src"] show ?thesis by (simp add: handler_pkg_def)
    next
      case (Some a)
      then have found: "findPresentInCache (src_pkg src) cs = Inr (Some a)" using held_find [OF held] by simp
      from find_named [OF held this] Calling q found upd [of "Measuring src a"] upd [of "Removing src a"] show ?thesis
        by (simp add: handler_pkg_def)
    qed
  next
    case (Measuring src a)
    then have a: "named cs (handler_pkg (bs i)) a" "a \<in> set as" using at by auto
    from held_text [OF held a(2)] Measuring q a upd [of Idle] upd [of "Copying src a (start_buf src s)" for s] show ?thesis
      by (auto simp: handler_pkg_def live_start_buf split: source.splits)
  next
    case (Copying src a b)
    then have a: "named cs (handler_pkg (bs i)) a" "a \<in> set as" using at by auto
    have b: "live_buf b" using Copying live by simp
    from held_text [OF held a(2)] Copying q a upd [of Idle]
      upd [of "Delivering src a (installed_message b s (src_path src))" for s] show ?thesis
      by (auto simp: handler_pkg_def live_installed [OF b])
  next
    case (Delivering src a b)
    then have a: "named cs (handler_pkg (bs i)) a" "a \<in> set as" using at by auto
    have b: "live_buf b" using Delivering live by simp
    from Delivering q a b upd [of "Removing src a"] show ?thesis by (auto simp: handler_pkg_def)
  qed (use assms(4) in auto)
qed

text \<open>The two pieces of \<open>remove_item\<close>.\<close>

lemma hstep_unlink:
  assumes held: "cache_held cs as (detached bs)" and ok: "handlers_ok cs as bs" and r: "bs i = Removing src a"
  shows "\<exists>cs' as'. hstep x (bs i) cs q = Inr (Freeing src a, cs', q)
    \<and> cache_held cs' as' (detached (bs(i := Freeing src a))) \<and> handlers_ok cs' as' (bs(i := Freeing src a))"
proof -
  have a: "named cs (handler_pkg (bs i)) a" "a \<in> set as"
    using handlers_at [OF ok, of i a] r by simp_all
  then obtain xs ys where as: "as = xs @ a # ys" by (auto dest: split_list)
  with held_unlink held obtain cs' where cs': "unlink a cs = Inr cs'" "cache_held cs' (xs @ ys) (insert a (detached bs))"
    "items_kept cs cs'" by blast
  have "distinct as" using held by (simp add: cache_held_def)
  have upd: "handlers_ok cs as (bs(i := Freeing src a))"
    by (rule handlers_upd [OF ok]) (use a r in \<open>simp_all add: handler_pkg_def\<close>)
  have "handlers_ok cs' (xs @ ys) (bs(i := Freeing src a))"
  proof (rule handlers_mono [OF upd])
    fix j b
    assume b: "holding ((bs(i := Freeing src a)) j) = Some b" "\<not> freeing ((bs(i := Freeing src a)) j)" "b \<in> set as"
    then have "j \<noteq> i" by auto
    with handlers_distinct [OF upd b(1), of i] have "b \<noteq> a" by auto
    with b(3) as show "b \<in> set (xs @ ys)" by auto
  qed (rule named_kept [OF cs'(3)])
  moreover have "detached (bs(i := Freeing src a)) = insert a (detached bs)" using r by (intro detached_new) simp
  ultimately show ?thesis using cs'(1,2) by (intro exI [of _ cs'] exI [of _ "xs @ ys"]) (simp add: r)
qed

lemma hstep_free:
  assumes held: "cache_held cs as (detached bs)" and ok: "handlers_ok cs as bs" and r: "bs i = Freeing src a"
  shows "\<exists>cs'. hstep x (bs i) cs q = Inr (Idle, cs', q)
    \<and> cache_held cs' as (detached (bs(i := Idle))) \<and> handlers_ok cs' as (bs(i := Idle))"
proof -
  have "a \<in> detached bs" unfolding detached_def using r by (auto intro!: exI [of _ i])
  from held_free [OF held this] obtain cs' where cs': "freecacheDataCacheNode a cs = Inr cs'"
    "cache_held cs' as (detached bs - {a})" "cheap cs' = (cheap cs)(a := None)" by blast
  have other: "b \<noteq> a" if "holding (bs j) = Some b" "j \<noteq> i" for j b
    using handlers_distinct [OF ok that(1), of i] r that(2) by auto
  have "detached (bs(i := Idle)) = detached bs - {a}"
    using r other by (fastforce simp: detached_def split: if_splits)
  moreover have "handlers_ok cs as (bs(i := Idle))" by (rule handlers_upd [OF ok]) (simp_all add: handler_pkg_def)
  then have "handlers_ok cs' as (bs(i := Idle))"
  proof (rule handlers_mono)
    fix j b p
    assume "holding ((bs(i := Idle)) j) = Some b" and n: "named cs p b"
    then have "b \<noteq> a" using other [of j b] by (cases "j = i") auto
    with n show "named cs' p b" by (simp add: named_def cs'(3))
  qed
  ultimately show ?thesis using cs'(1,2) by (intro exI [of _ cs']) (simp add: r)
qed

lemma move_inv:
  assumes inv: "conc_inv s" and ap: "apart m s" and mv: "move m s = Some r"
  shows "case r of Inl e \<Rightarrow> e \<in> {NullDeref, ProcExit 1} | Inr s' \<Rightarrow> conc_inv s'"
proof -
  from inv obtain as where q: "list_all live_buf (cqueue s)" and held: "cache_held (ccache s) as (detached (busy s))"
    and ok: "handlers_ok (ccache s) as (busy s)" by (auto simp: conc_inv_def)
  show ?thesis
  proof (cases m)
    case (Event i src)
    with mv have idle: "busy s i = Idle" and r: "r = Inr (s\<lparr>busy := (busy s)(i := Calling src)\<rparr>)" by (auto split: if_splits)
    have "handlers_ok (ccache s) as ((busy s)(i := Calling src))"
      by (rule handlers_new [OF ok]) (use ap Event in \<open>auto simp: handler_pkg_def\<close>)
    moreover have "detached ((busy s)(i := Calling src)) = detached (busy s)" using idle by (intro detached_upd) auto
    ultimately show ?thesis using q held r by (auto simp: conc_inv_def)
  next
    case (Thread i x)
    show ?thesis
    proof (cases "\<exists>src a. busy s i = Removing src a \<or> busy s i = Freeing src a")
      case True
      then obtain h cs' as' where "hstep x (busy s i) (ccache s) (cqueue s) = Inr (h, cs', cqueue s)"
        "cache_held cs' as' (detached ((busy s)(i := h)))" "handlers_ok cs' as' ((busy s)(i := h))"
        using hstep_unlink [OF held ok] hstep_free [OF held ok] by metis
      moreover from this(1) mv Thread have "r = Inr (s\<lparr>ccache := cs', cqueue := cqueue s, busy := (busy s)(i := h)\<rparr>)" by simp
      ultimately show ?thesis using q unfolding conc_inv_def by auto
    next
      case False
      then have nf: "\<not> freeing (busy s i)" by (cases "busy s i") auto
      from False hstep_quiet [OF held ok q, of i x] have
        "case hstep x (busy s i) (ccache s) (cqueue s) of
          Inl e \<Rightarrow> e \<in> {NullDeref, ProcExit 1}
        | Inr (h, cs', q') \<Rightarrow> cs' = ccache s \<and> list_all live_buf q' \<and> \<not> freeing h
            \<and> handlers_ok (ccache s) as ((busy s)(i := h))" by blast
      with mv Thread held nf show ?thesis
        by (auto simp: conc_inv_def detached_upd split: sum.splits prod.splits)
    qed
  next
    case (Ask p issue)
    with mv q held ok show ?thesis by (auto simp: conc_inv_def split: if_splits)
  next
    case (Append mem)
    with mv obtain p issue where a: "asking s = Some (p, issue)" by (auto split: option.splits)
    from held_append [OF held, of "Own p" "Own issue" mem] obtain cs' as' where
      cs': "append_item mem (Own p) (Own issue) (ccache s) = Inr cs'" "cache_held cs' as' (detached (busy s))"
        "set as \<subseteq> set as'" "items_kept (ccache s) cs'" by auto
    from handlers_kept [OF ok cs'(4,3)] cs'(1,2) mv Append a q show ?thesis by (auto simp: conc_inv_def)
  qed
qed

lemma conc_inv_start: "conc_inv conc_start"
proof -
  have "detached (\<lambda>_. Idle) = {}" by (simp add: detached_def)
  then have "cache_held cache_start [] (detached (\<lambda>_. Idle))" by (simp add: cache_held_inv cache_start_inv)
  moreover have "handlers_ok cache_start [] (\<lambda>_. Idle)" by (simp add: handlers_ok_def handler_pkg_def)
  ultimately show ?thesis by (auto simp: conc_inv_def conc_start_def)
qed

lemma threads_reach_inv: "threads_reach s \<Longrightarrow> conc_inv s"
proof (induction rule: threads_reach.induct)
  case (step s m s')
  from move_inv [OF step(4,2,3)] show ?case by simp
qed (rule conc_inv_start)

section \<open>Properties\<close>

text \<open>
  C8: The handlers of finished downloads, cut into the pieces between two uses of shared
  memory, are the handlers: the pieces of one thread, run without interruption, end in the
  cache and the queue in which the whole handler ends, and fail exactly when it fails.
\<close>

theorem handler_pieces_compose:
  "(owner_is_rdmmgr ev \<and> is_installation_status ev \<longrightarrow>
      agrees (hsteps 6 (answers_at E (tick w)) (Calling (Manager ev)) (cache w) (mq w)) (rdmManagerEventHandler E ev w) w)
    \<and> (malloc_ok E (tick w) \<and> malloc_ok E (Suc (tick w)) \<longrightarrow>
      agrees (hsteps 6 (answers_at E (Suc (Suc (tick w))))
          (Calling (Download (RDM_PKG_PREFIX @ takeWhile (\<lambda>c. c \<noteq> CHR ''.'') issue))) (cache w) (mq w))
        (rdmDownloadEventHandler E (Some (Some issue)) w) w)"
  using manager_alone [of ev E w] download_alone [of E w issue] by blast

theorem handler_pieces_compose_witness:
  "agrees (hsteps 6 (answers_at (bench (\<lambda>_. None)) 0) (Calling (Manager (install_event ''RDK-RRD-Device'' ''/media'' True)))
      cache_start []) (rdmManagerEventHandler (bench (\<lambda>_. None)) (install_event ''RDK-RRD-Device'' ''/media'' True) fresh_world) fresh_world
   \<and> agrees (hsteps 6 (answers_at (bench (\<lambda>_. None)) 2) (Calling (Download (RDM_PKG_PREFIX @ ''Device'')))
      cache_start []) (rdmDownloadEventHandler (bench (\<lambda>_. None)) (Some (Some ''Device.Info'')) fresh_world) fresh_world"
  using handler_pieces_compose [of "install_event ''RDK-RRD-Device'' ''/media'' True" "bench (\<lambda>_. None)" fresh_world "''Device.Info''"]
  by (simp add: install_event_def bench_def fresh_world_def eval_nat_numeral del: hsteps.simps)

text \<open>
  C9: Whatever the threads do, as long as no two of them handle the same package at once:
  the interleaved pieces never touch a freed node (they fail only without memory for the
  message, or when the queue refuses it), the queued messages are alive, no two threads
  hold the same node, and when all handlers have returned the cache is a well-formed list.
\<close>

theorem threads_share_cache:
  assumes "threads_reach s"
  shows "(\<forall>m r. apart m s \<longrightarrow> move m s = Some r \<longrightarrow> (\<forall>e. r = Inl e \<longrightarrow> e \<in> {NullDeref, ProcExit 1}))
    \<and> list_all live_buf (cqueue s)
    \<and> (\<forall>i j a. holding (busy s i) = Some a \<longrightarrow> holding (busy s j) = Some a \<longrightarrow> i = j)
    \<and> ((\<forall>i. busy s i = Idle) \<longrightarrow> (\<exists>its. cache_rep (ccache s) its))"
proof -
  from threads_reach_inv [OF assms] have inv: "conc_inv s" .
  then obtain as where as: "cache_held (ccache s) as (detached (busy s))" "handlers_ok (ccache s) as (busy s)"
    by (auto simp: conc_inv_def)
  have "cache_rep (ccache s) (items_of (ccache s) as)" if "\<forall>i. busy s i = Idle"
    using that as(1) by (auto simp: detached_def cache_held_inv cache_rep_def)
  moreover have "e \<in> {NullDeref, ProcExit 1}" if "apart m s" "move m s = Some (Inl e)" for m e
    using move_inv [OF inv that] by simp
  ultimately show ?thesis using inv handlers_distinct [OF as(2)] by (auto simp: conc_inv_def)
qed

theorem threads_share_cache_witness:
  "\<exists>s. threads_reach s \<and> holding (busy s 0) = Some 0 \<and> handler_pkg (busy s 1) = Some ''RDK-RRD-Wifi''
     \<and> list_all live_buf (cqueue s) \<and> (\<forall>j. holding (busy s j) = Some 0 \<longrightarrow> j = 0)"
proof -
  let ?x = "\<lparr>mem_buf = True, mem_text = True, mem_path = True, queue_ok = True\<rparr>"
  let ?a = "Download ''RDK-RRD-Device''" and ?b = "Download ''RDK-RRD-Wifi''"
  obtain cs where cs: "append_item True (Own ''RDK-RRD-Device'') (Own ''Device'') cache_start = Inr cs"
      "findPresentInCache ''RDK-RRD-Device'' cs = Inr (Some 0)"
    by (simp add: append_item_def createCache_def cache_start_def initCache_def findPresentInCache_def name_matches_def)
  let ?s = "\<lambda>bs. \<lparr>ccache = cs, cqueue = [], busy = bs, asking = None\<rparr>"
  have "threads_reach (conc_start\<lparr>asking := Some (''RDK-RRD-Device'', ''Device'')\<rparr>)"
    by (rule threads_reach.step [OF threads_reach.start, of "Ask ''RDK-RRD-Device'' ''Device''"])
      (simp_all add: conc_start_def)
  then have "threads_reach (?s (\<lambda>_. Idle))"
    by (rule threads_reach.step [of _ "Append True"]) (simp_all add: conc_start_def cs)
  then have "threads_reach (?s ((\<lambda>_. Idle)(0 := Calling ?a)))"
    by (rule threads_reach.step [of _ "Event 0 ?a"]) (simp_all add: handler_pkg_def)
  then have "threads_reach (?s ((\<lambda>_. Idle)(0 := Measuring ?a 0)))"
    by (rule threads_reach.step [of _ "Thread 0 ?x"]) (simp_all add: cs)
  then have "threads_reach (?s ((\<lambda>_. Idle)(0 := Measuring ?a 0, 1 := Calling ?b)))" (is "threads_reach ?r")
    by (rule threads_reach.step [of _ "Event 1 ?b"]) (simp_all add: handler_pkg_def)
  from threads_share_cache [OF this] have share: "list_all live_buf (cqueue ?r)"
    "\<And>i j a. holding (busy ?r i) = Some a \<Longrightarrow> holding (busy ?r j) = Some a \<Longrightarrow> i = j" by blast+
  have "holding (busy ?r 0) = Some 0" by simp
  with share(2) have "\<forall>j. holding (busy ?r j) = Some 0 \<longrightarrow> j = 0" by blast
  with \<open>threads_reach ?r\<close> share(1) show ?thesis by (intro exI [of _ ?r] conjI) (simp_all add: handler_pkg_def)
qed

abbreviation fine :: answers where
  "fine \<equiv> \<lparr>mem_buf = True, mem_text = True, mem_path = True, queue_ok = True\<rparr>"


lemma appended_found:
  assumes "cache_held cs as D"
  shows "\<exists>cs'. append_item True (Own p) (Own issue) cs = Inr cs'
    \<and> findPresentInCache p cs' = Inr (Some (cfresh cs)) \<and> cache_text cs' (cfresh cs) = Inr issue"
proof -
  from held_append [OF assms, of "Own p" "Own issue" True] obtain cs' where
    cs': "append_item True (Own p) (Own issue) cs = Inr cs'" "cache_held cs' (cfresh cs # as) D"
      "map_option node_item (cheap cs' (cfresh cs)) = Some (Own p, Own issue)" by auto
  then obtain n where n: "cheap cs' (cfresh cs) = Some n" "c_mdata n = Own p" "c_issueString n = Own issue"
    by (auto simp: node_item_def)
  then have "node_named cs' p (cfresh cs)" by (simp add: node_named_def has_name_def node_item_def)
  with held_find [OF cs'(2), of p] n cs'(1) show ?thesis by (simp add: cache_text_def)
qed



end
