(* ===== verification/RRD_Request.thy ===== *)
theory RRD_Request
  imports RRD_Main
begin

text \<open>
  An issue of the built-in profile from the bus to its report: the handler of the event, the
  queue, the worker, the splitting of the issue list, the profile, the filter, the execution
  and the upload put together, on a platform where no resource is missing. The definitions
  are the terms in which the result is stated; the program itself is in the other theories.
\<close>

section \<open>What the request finds\<close>

text \<open>Nothing is refused, a time stamp has its usual length, files are read completely.\<close>

definition ready_platform :: "'j platform \<Rightarrow> bool" where
  "ready_platform E \<longleftrightarrow> smooth E \<and> (\<forall>t p. chdir_ok E t p) \<and> (\<forall>t. length (strftime_text E t) \<le> 19)
     \<and> (\<forall>t k. fread_len E t k = k)"

text \<open>A file holds a profile.\<close>

definition profile_at :: "'j platform \<Rightarrow> string \<Rightarrow> 'j \<Rightarrow> bool" where
  "profile_at E f root \<longleftrightarrow> (\<exists>content. (\<forall>t. file_text E t f = Some content) \<and> 0 < length content \<and> length content < 2 ^ 31
     \<and> cJSON_Parse (json E) (c_str content) = Some root)"

text \<open>The timeout and the command that the items of an issue type give: the last of each kind.\<close>

fun items_value :: "'j cjson_api \<Rightarrow> 'j option \<Rightarrow> nat \<Rightarrow> nat \<Rightarrow> int \<Rightarrow> string option \<Rightarrow> int \<times> string option" where
  "items_value J type j 0 tmo cmd = (tmo, cmd)"
| "items_value J type j (Suc n) tmo cmd =
     (case cJSON_GetArrayItem J type j of
        None \<Rightarrow> items_value J type (Suc j) n tmo cmd
      | Some elem \<Rightarrow>
          if cj_type J elem = cJSON_Number then items_value J type (Suc j) n (cj_valueint J elem) cmd
          else if cj_type J elem = cJSON_String
          then (case cJSON_Print J (Some elem) of
                  None \<Rightarrow> items_value J type (Suc j) n tmo cmd
                | Some text \<Rightarrow> items_value J type (Suc j) n tmo (Some text))
          else items_value J type (Suc j) n tmo cmd)"

text \<open>The profile has an entry of this category and name, with a command.\<close>

definition profile_entry :: "'j cjson_api \<Rightarrow> 'j \<Rightarrow> string \<Rightarrow> string \<Rightarrow> int \<Rightarrow> string \<Rightarrow> bool" where
  "profile_entry J root n sn tmo cmd \<longleftrightarrow>
     (let type = issue_json J (Some root) (Some n) (Some sn) in
      type \<noteq> None \<and> items_value J type 0 (cJSON_GetArraySize J type) 0 None = (tmo, Some cmd))"

text \<open>The profile whose list filters the commands of a profile: its own, or the built-in one.\<close>

definition filter_profile :: "'j platform \<Rightarrow> 'j \<Rightarrow> 'j \<Rightarrow> bool" where
  "filter_profile E root f \<longleftrightarrow>
     (if sanity_check (json E) (Some root) \<noteq> None then f = root else profile_at E RRD_JSON_FILE f)"

section \<open>Reading the profile\<close>

lemma reads_items:
  assumes "\<forall>t. malloc_ok E t"
  shows "reads (read_items E type j n tmo cmd) (\<lambda>r. r = items_value (json E) type j n tmo cmd)"
proof (induction n arbitrary: j tmo cmd)
  case (Suc n)
  show ?case
  proof (cases "cJSON_GetArrayItem (json E) type j")
    case (Some elem)
    then show ?thesis using assms Suc by (auto simp: malloc_def intro!: read_rules split: option.splits)
  qed (simp add: Suc)
qed (auto intro: read_rules)

lemma reads_profile:
  assumes "ready_platform E" and "profile_at E f root"
  shows "reads (readAndParseJSON E f) (\<lambda>r. r = Some root)"
proof -
  from assms(2) obtain content where content: "\<forall>t. file_text E t f = Some content" "0 < length content" "length content < 2 ^ 31"
    "cJSON_Parse (json E) (c_str content) = Some root" by (auto simp: profile_at_def)
  have "reads (readJsonFile E f) (\<lambda>r. r = Some content)"
    using assms(1) content(1,2) sint_of_nat_small [OF content(3)]
    by (auto simp: readJsonFile_def malloc_def Let_def ready_platform_def smooth_def intro!: read_rules)
  then show ?thesis unfolding readAndParseJSON_def
    by (rule reads_bnd) (auto simp: content(4) intro: read_rules)
qed

lemma reads_filter:
  assumes "cjson_laws (json E)" and "ready_platform E" and "filter_profile E root f"
  shows "reads (if cJSON_Print (json E) (sanity_check (json E) (Some root)) = None
      then readAndParseJSON E RRD_JSON_FILE else ret (Some root)) (\<lambda>cfg. cfg = Some f)"
proof (cases "sanity_check (json E) (Some root)")
  case None
  with assms cjson_laws.print_null [OF assms(1)] show ?thesis by (simp add: filter_profile_def reads_profile)
next
  case (Some x)
  with assms(3) cjson_laws.print_item [OF assms(1), of x] show ?thesis by (auto simp: filter_profile_def intro: reads_ret)
qed

lemma entry_found:
  assumes "cjson_laws (json E)" and "profile_entry (json E) root n sn tmo cmd"
  shows "findIssueInParsedJSON (json E) \<lparr>Node = Own n, subNode = Own sn\<rparr> (Some root) = Inr True"
proof -
  let ?J = "json E"
  from assms(2) obtain ty where ty: "cJSON_GetObjectItem ?J (cJSON_GetObjectItem ?J (Some root) (Some n)) (Some sn) = Some ty"
    by (auto simp: profile_entry_def issue_json_def Let_def)
  then obtain cat where "cJSON_GetObjectItem ?J (Some root) (Some n) = Some cat"
    using cjson_laws.get_null [OF assms(1)] by (cases "cJSON_GetObjectItem ?J (Some root) (Some n)") auto
  with ty cjson_laws.print_item [OF assms(1), of ty] show ?thesis
    by (simp add: findIssueInParsedJSON_def)
qed


section \<open>Running it\<close>

text \<open>The command information of the entry: without a timeout the default is taken.\<close>

definition entry_data :: "string \<Rightarrow> int \<Rightarrow> string \<Rightarrow> issueData" where
  "entry_data issue tmo cmd = \<lparr>rfcvalue = Some issue, command = Some cmd, timeout = (if tmo = 0 then DEFAULT_TIMEOUT else tmo)\<rparr>"

text \<open>What the filter says of the command.\<close>

definition refused :: "'j cjson_api \<Rightarrow> 'j \<Rightarrow> string \<Rightarrow> bool" where
  "refused J root cmd \<longleftrightarrow> (\<exists>p \<in> set (sanity_list J (sanity_cmds J (Some root))). sublist p cmd)"

lemma reads_ready_malloc: "ready_platform E \<Longrightarrow> reads (malloc E) (\<lambda>mem. mem)"
  by (auto simp: ready_platform_def smooth_def malloc_def intro!: read_rules reads_ask)

lemma lift_ret: "lift (Inr x) = ret x"
  by (simp add: lift_def ret_def fun_eq_iff)

lemma null_frees: "free_null (Own x) = Inr Null" "free_null Null = Inr Null"
  by (simp_all add: free_null_def)

lemma acts_invoke:
  assumes laws: "cjson_laws (json E)" and E: "ready_platform E" and entry: "profile_entry (json E) root n sn tmo cmd"
    and filter: "filter_profile E root f" and issue: "length issue \<le> 190" and cmd: "length cmd < 2 ^ 54"
  shows "acts (invokeSanityandCommandExec E \<lparr>Node = Own n, subNode = Own sn\<rparr> (Some root) issue False)
    (\<lambda>(ok, node) es. node = \<lparr>Node = Null, subNode = Null\<rparr> \<and> ok = (\<not> refused (json E) f cmd)
      \<and> (if ok then command_run (entry_data issue tmo (map (bg_char cmd) [0..<length cmd])) True es else es = []))"
    (is "acts _ ?Q")
proof -
  let ?J = "json E" and ?bg = "map (bg_char cmd) [0..<length cmd]"
  let ?type = "issue_json ?J (Some root) (Some n) (Some sn)"
  let ?v = "if refused ?J f cmd then (1 :: int, cmd) else (0, ?bg)"
  have items: "reads (read_items E ?type 0 (cJSON_GetArraySize ?J ?type) 0 None) (\<lambda>r. r = (tmo, Some cmd))"
    using reads_items [of E ?type 0 "cJSON_GetArraySize ?J ?type" 0 None] E entry
    by (simp add: ready_platform_def smooth_def profile_entry_def Let_def)
  have valid: "isCommandsValid ?J cmd (sanity_cmds ?J (Some f)) = Inr (fst ?v, snd ?v)"
    using isCommandsValid_laws [OF laws, of cmd "sanity_cmds ?J (Some f)"] by (simp add: refused_def ubc_loop_map)
  have data: "reads (accepted_data E ?bg tmo issue) (\<lambda>d. d = entry_data issue tmo ?bg)"
    using E unfolding accepted_data_def malloc_def entry_data_def
    by (auto simp: ready_platform_def smooth_def intro!: read_rules)
  have exec: "acts (executeCommands E (entry_data issue tmo ?bg))
      (\<lambda>ok es. ok \<and> command_run (entry_data issue tmo ?bg) True es)"
    by (rule acts_weaken [OF acts_executeCommands])
      (use E issue cmd in \<open>auto simp: entry_data_def ready_platform_def shown_def\<close>)
  have run: "acts (if fst v \<noteq> (0::int) then ret (False, \<lparr>Node = Null, subNode = Null\<rparr>)
        else bnd (accepted_data E (snd v) tmo issue) (\<lambda>d. bnd (executeCommands E d) (\<lambda>ok. ret (ok, \<lparr>Node = Null, subNode = Null\<rparr>)))) ?Q"
    if "v = ?v" for v
    using that by (auto intro!: acts_ret acts_bnd_reads [OF data] acts_bnd [OF exec])
  show ?thesis
    unfolding invokeSanityandCommandExec_def Let_def issueNodeData.select_convs str_arg.simps null_frees bnd_simps if_False
    by (rule acts_bnd_reads [OF reads_ready_malloc [OF E]], simp only: simp_thms if_False,
        rule acts_bnd_reads [OF items], simp only: prod.case option.case,
        rule acts_bnd_reads [OF reads_filter [OF laws E filter]], simp only: bnd_simps valid prod.case,
        rule run, rule refl)
qed

text \<open>The report of an executed issue.\<close>

definition reported :: "'j platform \<Rightarrow> string \<Rightarrow> string \<Rightarrow> event list \<Rightarrow> bool" where
  "reported E outdir name es \<longleftrightarrow>
     (if IARMBUS_SUPPORT (bld E) then \<exists>rc. run_ok outdir rc es else es = [EvScript outdir (normalizeIssueName name)])"

lemma acts_upload_report:
  assumes "mdata buf = Own issue" and "suffix_of buf = (if sfx = [] then Null else Own sfx)"
    and "length issue + length sfx < 512"
  shows "acts (upload_report E outdir buf) (\<lambda>_ es. reported E outdir (issue @ sfx) es)"
proof -
  have name: "report_name issue (if sfx = [] then None else Some sfx) = issue @ sfx" by (simp add: report_name_def)
  have "str_arg (suffix_of buf) = Inr (if sfx = [] then None else Some sfx)" using assms(2) by simp
  then have "upload_report E outdir buf = uploadDebugoutput E (Some outdir) (Some (issue @ sfx))"
    using assms(1,3) by (simp add: upload_report_def name c_snprintf_def)
  then show ?thesis unfolding uploadDebugoutput_def
    by (auto simp: reported_def Let_def intro!: acts_bnd_ask acts_bnd_emit acts_ret acts_weaken [OF acts_orchestrate])
qed

text \<open>
  What the outside sees of the request: the directory of the report, the service of the
  filtered command, the upload.
\<close>

definition run_events :: "'j platform \<Rightarrow> 'j \<Rightarrow> string \<Rightarrow> string \<Rightarrow> string \<Rightarrow> int \<Rightarrow> string \<Rightarrow> event list \<Rightarrow> bool" where
  "run_events E f n issue name tmo cmd es \<longleftrightarrow>
     (\<exists>t outdir ran sent. outdir = RRD_OUTPUT_DIR @ n @ ''-DebugReport-'' @ strftime_text E t
       \<and> es = EvMkdir outdir # EvChdir outdir # ran @ sent
       \<and> (if refused (json E) f cmd then ran = [] \<and> sent = []
          else command_run (entry_data issue tmo (map (bg_char cmd) [0..<length cmd])) True ran \<and> reported E outdir name sent))"

lemma acts_check:
  assumes laws: "cjson_laws (json E)" and E: "ready_platform E" and entry: "profile_entry (json E) root n sn tmo cmd"
    and filter: "filter_profile E root f" and issue: "length issue \<le> 128" and cmd: "length cmd < 2 ^ 54" and n: "length n \<le> 128"
    and buf: "mdata buf = Own issue" "live (jsonPath buf)" "suffix_of buf = (if sfx = [] then Null else Own sfx)"
      "\<not> appendMode buf" and sfx: "length sfx \<le> 128"
  shows "acts (checkIssueNodeInfo E \<lparr>Node = Own n, subNode = Own sn\<rparr> (Some root) buf False None)
    (\<lambda>(b, node) es. live_buf b \<and> live_node node \<and> run_events E f n issue (issue @ sfx) tmo cmd es)"
proof -
  let ?node = "\<lparr>Node = Own n, subNode = Own sn\<rparr>"
  have dir: "stamped_name (RRD_OUTPUT_DIR @ n @ ''-DebugReport-'') (strftime_text E t)
      = Inr (RRD_OUTPUT_DIR @ n @ ''-DebugReport-'' @ strftime_text E t)" for t
  proof -
    have "length (strftime_text E t) \<le> 19" using E by (simp add: ready_platform_def)
    with n show ?thesis by (subst stamped_name_ok) (simp_all add: RRD_OUTPUT_DIR_def)
  qed
  have "live_buf buf" using buf by (simp add: live_buf_def)
  then obtain b where b: "free_fields buf = Inr b" "live_buf b"
    using buf by (auto simp: free_fields_def free_null_live live_buf_def)
  have run: "acts (run_node E ?node (Some root) buf issue deep None)
    (\<lambda>(ok, node) es. node = \<lparr>Node = Null, subNode = Null\<rparr> \<and> ok = (\<not> refused (json E) f cmd)
      \<and> (if ok then command_run (entry_data issue tmo (map (bg_char cmd) [0..<length cmd])) True es else es = []))" for deep
    using acts_invoke [OF laws E entry filter _ cmd, of issue] issue buf(4) by (simp add: run_node_def)
  have send: "acts (if ok then upload_report E outdir buf else ret 0)
      (\<lambda>_ es. if ok then reported E outdir (issue @ sfx) es else es = [])" for ok outdir
    using acts_upload_report [OF buf(1,3), of E outdir] issue sfx by (auto intro: acts_ret)
  have made: "reads (ask (\<lambda>t. mkdir_ok E t d)) (\<lambda>x. x)" "reads (ask (\<lambda>t. chdir_ok E t d)) (\<lambda>x. x)" for d
    using E by (auto simp: ready_platform_def smooth_def intro!: reads_ask)
  show ?thesis
    unfolding checkIssueNodeInfo_def Let_def issueNodeData.select_convs c_read.simps buf(1) bnd_simps
    apply (rule acts_bnd_reads [OF reads_ready_malloc [OF E]], simp only: simp_thms if_False)
    apply (rule acts_bnd_ask, simp only: dir bnd_simps)
    apply (rule acts_bnd_emit, rule acts_bnd_reads [OF made(1)], simp only: simp_thms if_False)
    apply (rule acts_bnd_emit, rule acts_bnd_reads [OF made(2)], simp only: simp_thms if_False)
    apply (rule acts_bnd [OF run], rule acts_prod, rule acts_bnd [OF send])
    apply (simp only: b bnd_simps, rule acts_ret)
    using b(2) apply (auto simp: run_events_def live_node_def split: if_splits)
    done
qed

section \<open>Taking the request apart\<close>

text \<open>
  A request \<open>n.sn\<close> with an optional suffix: the names are letters and digits, the suffix
  starts with an underscore and is short enough to be kept, and it is not the append mark.
\<close>

definition issue_request :: "string \<Rightarrow> string \<Rightarrow> string \<Rightarrow> bool" where
  "issue_request n sn sfx \<longleftrightarrow> n \<noteq> [] \<and> sn \<noteq> [] \<and> list_all c_isalnum n \<and> list_all c_isalnum sn \<and> length n + length sn \<le> 126
     \<and> (sfx = [] \<or> hd sfx = CHR ''_'') \<and> list_all suffix_char sfx \<and> length sfx \<le> RRD_MAX_SUFFIX_LEN
     \<and> \<not> suffix APPEND_SUFFIX (n @ ''.'' @ sn @ sfx)"

lemma alnum_not [simp]: "\<not> c_isalnum (CHR ''.'')" "\<not> c_isalnum (CHR '','')" "\<not> c_isalnum (CHR ''_'')" "\<not> c_isalnum NUL"
  "\<not> suffix_char (CHR '','')" "\<not> suffix_char NUL"
  by (simp_all add: suffix_char_def c_class_defs)

lemma suffix_char_alnum: "c_isalnum c \<Longrightarrow> suffix_char c" "c_isalnum c \<Longrightarrow> issue_char c" "issue_char (CHR ''.'')"
  by (simp_all add: suffix_char_def issue_char_def)

lemma request_parts:
  assumes "issue_request n sn sfx"
  shows "CHR ''.'' \<notin> set n" "CHR ''.'' \<notin> set sn" "CHR '','' \<notin> set (n @ ''.'' @ sn @ sfx)" "NUL \<notin> set (n @ ''.'' @ sn @ sfx)"
    "CHR ''_'' \<notin> set (n @ ''.'' @ sn)" "filter suffix_char sfx = sfx" "filter issue_char (n @ ''.'' @ sn) = n @ ''.'' @ sn"
proof -
  from assms have all: "\<And>c. c \<in> set n \<Longrightarrow> c_isalnum c" "\<And>c. c \<in> set sn \<Longrightarrow> c_isalnum c" "\<And>c. c \<in> set sfx \<Longrightarrow> suffix_char c"
    by (simp_all add: issue_request_def list_all_iff)
  show "CHR ''.'' \<notin> set n" "CHR ''.'' \<notin> set sn" using all(1,2) alnum_not(1) by blast+
  show "CHR '','' \<notin> set (n @ ''.'' @ sn @ sfx)" by (auto dest: all)
  show "NUL \<notin> set (n @ ''.'' @ sn @ sfx)" by (auto dest: all)
  show "CHR ''_'' \<notin> set (n @ ''.'' @ sn)" by (auto dest: all)
  show "filter suffix_char sfx = sfx" using all(3) by (simp add: filter_id_conv)
  show "filter issue_char (n @ ''.'' @ sn) = n @ ''.'' @ sn"
    using all(1,2) suffix_char_alnum(2,3) by (simp add: filter_id_conv)
qed

lemma request_split:
  assumes "issue_request n sn sfx"
  shows "split_issue_type (Some (n @ ''.'' @ sn @ sfx)) (Some (128, [])) (Some (128, [])) = (Some (n @ ''.'' @ sn), Some sfx)"
proof -
  let ?b = "n @ ''.'' @ sn"
  have "takeWhile (\<lambda>c. c \<noteq> CHR ''_'') (?b @ sfx) = ?b" "dropWhile (\<lambda>c. c \<noteq> CHR ''_'') (?b @ sfx) = sfx"
    using request_parts(5) [OF assms] assms
    by (cases sfx; simp del: append_assoc append.simps add: issue_request_def takeWhile_neq_append dropWhile_neq_append
        takeWhile_neq_id dropWhile_neq_Nil)+
  moreover have "length ?b \<le> 127" "length sfx \<le> RRD_MAX_SUFFIX_LEN" using assms by (simp_all add: issue_request_def)
  ultimately show ?thesis using split_issue_type_bufs [of 128 128 "?b @ sfx" "[]" "[]"] request_parts(6) [OF assms]
    by (simp add: RRD_MAX_SUFFIX_LEN_def)
qed

lemma request_node:
  assumes "issue_request n sn sfx"
  shows "getIssueInfo True (n @ ''.'' @ sn) = Inr \<lparr>Node = Own n, subNode = Own sn\<rparr>"
proof -
  have "c_tokens (CHR ''.'') (n @ ''.'' @ sn) = [n, sn]"
    using assms request_parts(1,2) [OF assms] by (simp add: issue_request_def c_tokens_append c_tokens_single)
  then show ?thesis by (simp add: getIssueInfo_True)
qed

lemma reads_splitter:
  assumes E: "ready_platform E" and "issue_request n sn sfx"
  shows "reads (issueTypeSplitter E (n @ ''.'' @ sn @ sfx) (CHR '','')) (\<lambda>r. r = [n @ ''.'' @ sn @ sfx])"
proof -
  let ?s = "n @ ''.'' @ sn @ sfx"
  have "c_tokens (CHR '','') ?s = [?s]" using request_parts(3) [OF assms(2)] by (intro c_tokens_single) simp_all
  then have "issueTypeSplitter E ?s (CHR '','') w = Ret [?s] (w\<lparr>tick := tick w + 1 + 1\<rparr>)" for w
    using issueTypeSplitter_run [of "CHR '',''" ?s E w] request_parts(4) [OF assms(2)] E
    by (simp add: ready_platform_def smooth_def)
  then show ?thesis unfolding reads_def by blast
qed

section \<open>The worker\<close>

text \<open>\<open>leads m w R\<close>: the statement ends in a value and a world of \<open>R\<close>.\<close>

definition leads :: "'a prog \<Rightarrow> world \<Rightarrow> ('a \<Rightarrow> world \<Rightarrow> bool) \<Rightarrow> bool" where
  "leads m w R \<longleftrightarrow> (\<exists>x w'. m w = Ret x w' \<and> R x w')"

lemma leads_ret: "R x w \<Longrightarrow> leads (ret x) w R"
  by (simp add: leads_def ret_def)

lemma leads_bnd: "leads m w A \<Longrightarrow> (\<And>x w'. A x w' \<Longrightarrow> leads (k x) w' R) \<Longrightarrow> leads (bnd m k) w R"
  unfolding leads_def bnd_def by fastforce

lemma leads_bnd_reads: "reads m A \<Longrightarrow> (\<And>x t. A x \<Longrightarrow> leads (k x) (w\<lparr>tick := t\<rparr>) R) \<Longrightarrow> leads (bnd m k) w R"
proof -
  assume "reads m A" and k: "\<And>x t. A x \<Longrightarrow> leads (k x) (w\<lparr>tick := t\<rparr>) R"
  then obtain x t where "m w = Ret x (w\<lparr>tick := t\<rparr>)" "A x" unfolding reads_def by blast
  with k show ?thesis by (simp add: leads_def bnd_def)
qed

lemma tick_twice: "w\<lparr>tick := t\<rparr>\<lparr>tick := t'\<rparr> = w\<lparr>tick := t'\<rparr>"
  by simp

lemma leads_weaken: "leads m w A \<Longrightarrow> (\<And>x w'. A x w' \<Longrightarrow> R x w') \<Longrightarrow> leads m w R"
  unfolding leads_def by blast

lemma acts_leads:
  "acts m Q \<Longrightarrow> leads m w (\<lambda>x w'. \<exists>es. trace w' = trace w @ es \<and> cache w' = cache w \<and> mq w' = mq w \<and> Q x es)"
  unfolding leads_def using actsD [of m Q w] by metis

text \<open>
  A message with one request is processed as the processing of one buffer with the name of
  the issue, its suffix and a copy of the profile path, for the node of category and name.
\<close>

definition request_buffer :: "data_buf \<Rightarrow> string \<Rightarrow> string \<Rightarrow> data_buf \<Rightarrow> bool" where
  "request_buffer buf issue sfx b \<longleftrightarrow> mdata b = Own issue \<and> jsonPath b = jsonPath buf
     \<and> suffix_of b = (if sfx = [] then Null else Own sfx) \<and> \<not> appendMode b \<and> inDynamic b = inDynamic buf"

lemma reads_request_buffer:
  assumes E: "ready_platform E" and buf: "jsonPath buf = (if inDynamic buf then Own path else Null)" "\<not> appendMode buf"
  shows "reads (issue_buffer E buf issue sfx) (\<lambda>cb. \<exists>b. cb = Some b \<and> request_buffer buf issue sfx b)"
proof -
  have dup: "reads (strdup E s) (\<lambda>p. p = Own s)" for s
    unfolding strdup_def by (intro reads_bnd [OF reads_ready_malloc [OF E]] reads_ret) simp
  have path: "reads (if inDynamic buf \<and> jsonPath buf \<noteq> Null then bnd (lift (c_read (jsonPath buf))) (strdup E) else ret Null)
      (\<lambda>p. p = jsonPath buf)"
    using buf(1) dup [of path] by (auto intro: reads_ret)
  have sfx: "reads (if sfx \<noteq> [] then strdup E sfx else ret Null) (\<lambda>p. p = (if sfx = [] then Null else Own sfx))"
    using dup [of sfx] by (simp add: reads_ret)
  show ?thesis unfolding issue_buffer_def Let_def
  proof (rule reads_bnd [OF path], subst if_not_P)
    fix p
    assume p: "p = jsonPath buf"
    then show "\<not> (inDynamic buf \<and> jsonPath buf \<noteq> Null \<and> p = Null)" by simp
    show "reads (bnd (strdup E issue) (\<lambda>m. bnd (if sfx \<noteq> [] then strdup E sfx else ret Null) (\<lambda>s. ret (Some
        (RRD_data_buff_init EVENT_MSG RRD_DEEPSLEEP_INVALID_DEFAULT
          \<lparr>inDynamic := inDynamic buf, jsonPath := p, appendMode := appendMode buf, mdata := m, suffix_of := s\<rparr>)))))
      (\<lambda>cb. \<exists>b. cb = Some b \<and> request_buffer buf issue sfx b)"
      by (rule reads_bnd [OF dup], rule reads_bnd [OF sfx], rule reads_ret)
        (use buf(2) p in \<open>simp add: request_buffer_def RRD_data_buff_init_def\<close>)
  qed
qed

lemma leads_type:
  assumes E: "ready_platform E" and request: "issue_request n sn sfx" and b: "mdata b = Own (n @ ''.'' @ sn)" "\<not> appendMode b"
    and body: "\<And>t. leads (if inDynamic b then processIssueTypeInDynamicProfile E b \<lparr>Node = Own n, subNode = Own sn\<rparr>
        else processIssueTypeInStaticProfile E b \<lparr>Node = Own n, subNode = Own sn\<rparr>) (w\<lparr>tick := t\<rparr>)
      (\<lambda>(b', node) w'. live_buf b' \<and> live_node node \<and> R w')"
  shows "leads (processIssueType E b) w (\<lambda>b' w'. live_buf b' \<and> R w')"
  unfolding processIssueType_def b(1) str_arg.simps bnd_simps option.case
  by (rule leads_bnd_reads [OF reads_ready_malloc [OF E]], simp only: simp_thms if_False,
      rule leads_bnd_reads [OF reads_ready_malloc [OF E]], simp only: request_node [OF request] bnd_simps b(2) if_False tick_twice,
      rule leads_bnd [OF body]) (auto simp: live_node_def free_null_live intro!: leads_ret)

lemma leads_issue:
  assumes E: "ready_platform E" and request: "issue_request n sn sfx"
    and buf: "mdata buf = Own (n @ ''.'' @ sn @ sfx)" "jsonPath buf = (if inDynamic buf then Own path else Null)" "\<not> appendMode buf"
    and body: "\<And>b t. request_buffer buf (n @ ''.'' @ sn) sfx b \<Longrightarrow>
      leads (if inDynamic b then processIssueTypeInDynamicProfile E b \<lparr>Node = Own n, subNode = Own sn\<rparr>
        else processIssueTypeInStaticProfile E b \<lparr>Node = Own n, subNode = Own sn\<rparr>) (w\<lparr>tick := t\<rparr>)
      (\<lambda>(b', node) w'. live_buf b' \<and> live_node node \<and> R w')"
  shows "leads (processIssueTypeEvent E buf) w (\<lambda>_. R)"
proof -
  let ?b = "n @ ''.'' @ sn"
  have base: "removeSpecialCharacterfromIssueTypeList ?b = ?b"
    using request_parts(7) [OF request] by (simp add: removeSpecialCharacterfromIssueTypeList_def compact_loop_filter)
  have run: "leads (bnd (if mdata b \<noteq> Null then processIssueType E b else ret b) (\<lambda>b'. lift (RRD_data_buff_deAlloc b')))
      (w\<lparr>tick := t\<rparr>) (\<lambda>_. R)" if b: "request_buffer buf ?b sfx b" for b t
  proof -
    have "leads (processIssueType E b) (w\<lparr>tick := t\<rparr>) (\<lambda>b' w'. live_buf b' \<and> R w')"
      using body [OF b] by (intro leads_type [OF E request]) (use b in \<open>auto simp: request_buffer_def\<close>)
    moreover have "mdata b \<noteq> Null" using b by (simp add: request_buffer_def)
    ultimately show ?thesis by (simp only: simp_thms if_True, elim leads_bnd) (simp add: lift_ret leads_ret)
  qed
  have "leads (process_token E buf (?b @ sfx)) (w\<lparr>tick := t\<rparr>) (\<lambda>_. R)" for t
    unfolding process_token_def append_assoc
    apply (rule leads_bnd_reads [OF reads_ready_malloc [OF E]], simp only: simp_thms if_False request_split [OF request] prod.case option.case Let_def base)
    apply (simp only: append_is_Nil_conv list.distinct simp_thms if_False tick_twice)
    apply (rule leads_bnd_reads [OF reads_request_buffer [OF E buf(2,3)]])
    using run by auto
  then have "leads (process_tokens E buf [n @ ''.'' @ sn @ sfx]) (w\<lparr>tick := t\<rparr>) (\<lambda>_. R)" for t
    by (simp only: process_tokens.simps append_assoc) (rule leads_bnd, assumption, rule leads_ret)
  then show ?thesis unfolding processIssueTypeEvent_def buf(1) c_read.simps bnd_simps
    by (intro leads_bnd_reads [OF reads_splitter [OF E request]]) simp
qed

text \<open>The two places where the issue of a request is looked up.\<close>

lemma request_short:
  assumes "issue_request n sn sfx"
  shows "length n \<le> 128" "length (n @ ''.'' @ sn) \<le> 128" "length sfx \<le> 128"
  using assms by (simp_all add: issue_request_def RRD_MAX_SUFFIX_LEN_def)

lemma acts_static:
  assumes laws: "cjson_laws (json E)" and E: "ready_platform E" and static: "profile_at E RRD_JSON_FILE root"
    and entry: "profile_entry (json E) root n sn tmo cmd" and request: "issue_request n sn sfx" and cmd: "length cmd < 2 ^ 54"
    and b: "request_buffer buf (n @ ''.'' @ sn) sfx b" "live (jsonPath buf)"
  shows "acts (processIssueTypeInStaticProfile E b \<lparr>Node = Own n, subNode = Own sn\<rparr>)
    (\<lambda>(b', node) es. live_buf b' \<and> live_node node \<and> run_events E root n (n @ ''.'' @ sn) (n @ ''.'' @ sn @ sfx) tmo cmd es)"
proof -
  have "filter_profile E root root" using static by (simp add: filter_profile_def)
  from acts_check [OF laws E entry this request_short(2) [OF request] cmd request_short(1) [OF request], of b sfx]
  show ?thesis unfolding processIssueTypeInStaticProfile_def
    using b request_short(3) [OF request] by (intro acts_bnd_reads [OF reads_profile [OF E static]])
      (simp add: entry_found [OF laws entry] request_buffer_def)
qed

lemma acts_dynamic:
  assumes laws: "cjson_laws (json E)" and E: "ready_platform E" and dyn: "profile_at E path root" and filter: "filter_profile E root f"
    and entry: "profile_entry (json E) root n sn tmo cmd" and request: "issue_request n sn sfx" and cmd: "length cmd < 2 ^ 54"
    and b: "request_buffer buf (n @ ''.'' @ sn) sfx b" "jsonPath buf = Own path"
  shows "acts (processIssueTypeInDynamicProfile E b \<lparr>Node = Own n, subNode = Own sn\<rparr>)
    (\<lambda>(b', node) es. live_buf b' \<and> live_node node \<and> run_events E f n (n @ ''.'' @ sn) (n @ ''.'' @ sn @ sfx) tmo cmd es)"
proof -
  have "jsonPath b = Own path" using b by (simp add: request_buffer_def)
  moreover note acts_check [OF laws E entry filter request_short(2) [OF request] cmd request_short(1) [OF request], of b sfx]
  ultimately show ?thesis unfolding processIssueTypeInDynamicProfile_def
    using b request_short(3) [OF request]
    by (simp, intro acts_bnd_reads [OF reads_profile [OF E dyn]]) (simp add: entry_found [OF laws entry] request_buffer_def)
qed

lemma issue_message_plain:
  assumes "issue_request n sn sfx"
  shows "issue_message (n @ ''.'' @ sn @ sfx) =
    (RRD_data_buff_init EVENT_MSG RRD_DEEPSLEEP_INVALID_DEFAULT)\<lparr>mdata := Own (n @ ''.'' @ sn @ sfx), appendMode := False\<rparr>"
  using assms by (simp add: issue_message_def checkAppendRequest_suffix issue_request_def)

text \<open>What the worker does with a message of one request, when its issue is looked up without a fault.\<close>

lemma request_message_leads:
  assumes "ready_platform E" and "issue_request n sn sfx"
    and "\<And>b t. request_buffer (issue_message (n @ ''.'' @ sn @ sfx)) (n @ ''.'' @ sn) sfx b \<Longrightarrow>
      leads (processIssueTypeInStaticProfile E b \<lparr>Node = Own n, subNode = Own sn\<rparr>) (w\<lparr>tick := t\<rparr>)
      (\<lambda>(b', node) w'. live_buf b' \<and> live_node node \<and> R w')"
  shows "leads (processIssueTypeEvent E (issue_message (n @ ''.'' @ sn @ sfx))) w (\<lambda>_. R)"
proof -
  let ?m = "issue_message (n @ ''.'' @ sn @ sfx)"
  have m: "mdata ?m = Own (n @ ''.'' @ sn @ sfx)" "\<not> inDynamic ?m" "jsonPath ?m = Null" "\<not> appendMode ?m"
    unfolding issue_message_plain [OF assms(2)] by (simp_all add: RRD_data_buff_init_def)
  show ?thesis
  proof (rule leads_issue [OF assms(1,2) m(1)])
    fix b t
    assume b: "request_buffer ?m (n @ ''.'' @ sn) sfx b"
    with m(2) have "\<not> inDynamic b" by (simp add: request_buffer_def)
    with assms(3) [OF b] show "leads (if inDynamic b then processIssueTypeInDynamicProfile E b \<lparr>Node = Own n, subNode = Own sn\<rparr>
        else processIssueTypeInStaticProfile E b \<lparr>Node = Own n, subNode = Own sn\<rparr>) (w\<lparr>tick := t\<rparr>)
      (\<lambda>(b', node) w'. live_buf b' \<and> live_node node \<and> R w')" by simp
  qed (use m in simp_all)
qed

section \<open>From the bus to the report\<close>

text \<open>The handler of an issue that finds an empty queue, and the round of the worker after it.\<close>

lemma issue_round:
  assumes "\<forall>t. malloc_ok E t" and "\<forall>t. msgsnd_ok E t" and "\<forall>t. msgrcv_ok E t"
    and "v \<noteq> []" and "NUL \<notin> set v" and "mq (sys_world s) = []" and "thread_on s"
  shows "\<exists>s1 w1. perform E P (IssueEvent (Some (Some v))) s = Running s1 \<and> enabled (bld E) Worker s1
    \<and> trace w1 = trace (sys_world s) \<and> cache w1 = cache (sys_world s) \<and> mq w1 = []
    \<and> perform E P Worker s1 =
        (case processIssueTypeEvent E (issue_message v) w1 of
           Ret _ w2 \<Rightarrow> Running (s\<lparr>sys_world := w2\<rparr>) | Crash e w2 \<Rightarrow> Down e (s\<lparr>sys_world := w2\<rparr>))"
proof -
  let ?m = "issue_message v"
  obtain t where h: "remoteDebuggerEventHandler E (Some (Some v)) (sys_world s)
      = Ret () ((sys_world s)\<lparr>tick := t, mq := [?m]\<rparr>)"
    using issue_handler_run [OF assms(1,2,4,5), of "sys_world s"] assms(6) by auto
  let ?s1 = "s\<lparr>sys_world := (sys_world s)\<lparr>tick := t, mq := [?m]\<rparr>\<rparr>"
  let ?w1 = "(sys_world s)\<lparr>tick := Suc t, mq := []\<rparr>"
  have m: "mtype ?m = EVENT_MSG" "live_buf ?m"
    by (auto simp: issue_message_def RRD_data_buff_init_def live_buf_def split: prod.splits)
  have "worker_round E P (sys_world ?s1) =
      (case processIssueTypeEvent E ?m ?w1 of Ret _ w' \<Rightarrow> Ret (True, None) w' | Crash e w' \<Rightarrow> Crash e w')"
    using worker_round_run [OF assms(3) _ m, of "sys_world ?s1" "[]" P] by simp
  with h assms(7) show ?thesis
    by (intro exI [of _ ?s1] exI [of _ ?w1]) (auto simp: on_world_def split: run.splits)
qed



end
