(* ===== verification/RRD_Package.thy ===== *)
theory RRD_Package
  imports RRD_Request
begin

text \<open>
  An issue that is not in the built-in profile: the request, the download of the package,
  the remembered issue, the event of the finished installation, and the run with the
  profile of the package. The platform before the installation and the one after it are
  different parameters, because the installation changes the files.
\<close>

section \<open>The request\<close>

text \<open>The built-in profile lacks the issue, and no profile of its package is installed.\<close>

definition not_on_device :: "'j platform \<Rightarrow> string \<Rightarrow> string \<Rightarrow> bool" where
  "not_on_device E n sn \<longleftrightarrow>
     (\<exists>root. profile_at E RRD_JSON_FILE root
        \<and> findIssueInParsedJSON (json E) \<lparr>Node = Own n, subNode = Own sn\<rparr> (Some root) = Inr False)
     \<and> (\<forall>t. file_text E t (dyn_json_path (bld E) n) = None)"

lemma reads_no_file: "\<forall>t. file_text E t f = None \<Longrightarrow> reads (readAndParseJSON E f) (\<lambda>r. r = None)"
  by (auto simp: readAndParseJSON_def readJsonFile_def intro!: read_rules)

definition requested :: "world \<Rightarrow> (string cptr \<times> string cptr) list \<Rightarrow> string \<Rightarrow> string \<Rightarrow> world \<Rightarrow> bool" where
  "requested w its n issue w' \<longleftrightarrow> mq w' = mq w
     \<and> trace w' = trace w @ [EvRbusSet RDM_MGR_PKG_INST (RDM_PKG_PREFIX @ n @ RDM_PKG_SUFFIX)]
     \<and> cache_rep (cache w') ((Own (RDM_PKG_PREFIX @ n), Own issue) # its)"

lemma leads_request:
  assumes E: "ready_platform E" and bus: "\<forall>t p v. rbus_set_ok E t p v" and missing: "not_on_device E n sn" and n: "length n \<le> 34"
    and b: "mdata b = Own issue" "\<not> appendMode b" "live_buf b" and rep: "cache_rep (cache w) its"
  shows "leads (processIssueTypeInStaticProfile E b \<lparr>Node = Own n, subNode = Own sn\<rparr>) w
    (\<lambda>(b', node) w'. live_buf b' \<and> live_node node \<and> requested w its n issue w')"
proof -
  let ?node = "\<lparr>Node = Own n, subNode = Own sn\<rparr>"
  let ?Q = "\<lambda>(b', node) w'. live_buf b' \<and> live_node node \<and> requested w its n issue w'"
  from missing obtain root where root: "profile_at E RRD_JSON_FILE root" "findIssueInParsedJSON (json E) ?node (Some root) = Inr False"
    and none: "\<forall>t. file_text E t (dyn_json_path (bld E) n) = None" by (auto simp: not_on_device_def)
  have "\<forall>t. malloc_ok E t" using E by (simp add: ready_platform_def smooth_def)
  note mem = this
  have down: "leads (RRDRdmManagerDownloadRequest E ?node b False) (w\<lparr>tick := t\<rparr>)
      (\<lambda>node w'. live_node node \<and> requested w its n issue w')" for t
  proof -
    have pkg: "package_name (bld E) dev False n = RDM_PKG_PREFIX @ n" for dev by (simp add: package_name_def Let_def)
    have "live (Own sn)" "cache_rep (cache (w\<lparr>tick := t\<rparr>)) its" using rep by (simp_all add: live_def)
    from download_request_mem [OF mem this(1) b(1) this(2), of n False] obtain w' where
      "RRDRdmManagerDownloadRequest E ?node b False (w\<lparr>tick := t\<rparr>) = Ret \<lparr>Node = Null, subNode = Null\<rparr> w'"
      "requested w its n issue w'" using n bus b(2) by (auto simp: pkg Let_def requested_def)
    then show ?thesis by (simp add: leads_def live_node_def live_def)
  qed
  have "leads (processIssueTypeInInstalledPackage E b ?node) (w\<lparr>tick := t\<rparr>) ?Q" for t
    unfolding processIssueTypeInInstalledPackage_def issueNodeData.select_convs c_read.simps bnd_simps
    by (rule leads_bnd_reads [OF reads_ready_malloc [OF E]], simp only: simp_thms if_False tick_twice,
        rule leads_bnd_reads [OF reads_no_file [OF none]], simp only: simp_thms if_True tick_twice,
        rule leads_bnd [OF down], rule leads_ret, simp add: b(3))
  then show ?thesis unfolding processIssueTypeInStaticProfile_def
    by (intro leads_bnd_reads [OF reads_profile [OF E root(1)]]) (simp add: root(2))
qed

section \<open>The finished installation\<close>

lemma leads_installed:
  assumes laws: "cjson_laws (json E)" and E: "ready_platform E" and dyn: "profile_at E (path @ RRD_JSON_FILE) root"
    and filter: "filter_profile E root f" and entry: "profile_entry (json E) root n sn tmo cmd"
    and request: "issue_request n sn []" and cmd: "length cmd < 2 ^ 54"
  shows "leads (processIssueTypeEvent E (install_message (n @ ''.'' @ sn) False path)) w
    (\<lambda>_ w'. \<exists>es. trace w' = trace w @ es \<and> cache w' = cache w \<and> mq w' = mq w
       \<and> run_events E f n (n @ ''.'' @ sn) (n @ ''.'' @ sn) tmo cmd es)"
proof -
  let ?b = "n @ ''.'' @ sn" and ?m = "install_message (n @ ''.'' @ sn) False path" and ?node = "\<lparr>Node = Own n, subNode = Own sn\<rparr>"
  let ?R = "\<lambda>w'. \<exists>es. trace w' = trace w @ es \<and> cache w' = cache w \<and> mq w' = mq w \<and> run_events E f n ?b ?b tmo cmd es"
  have m: "mdata ?m = Own (n @ ''.'' @ sn @ [])" "jsonPath ?m = (if inDynamic ?m then Own (path @ RRD_JSON_FILE) else Null)"
    "\<not> appendMode ?m" "inDynamic ?m" "jsonPath ?m = Own (path @ RRD_JSON_FILE)" by (simp_all add: install_message_def)
  show ?thesis
  proof (rule leads_issue [OF E request m(1-3)])
    fix b t
    assume b: "request_buffer ?m ?b [] b"
    with m(4) have "inDynamic b" by (simp add: request_buffer_def)
    moreover have "leads (processIssueTypeInDynamicProfile E b ?node) (w\<lparr>tick := t\<rparr>)
        (\<lambda>(b', node) w'. live_buf b' \<and> live_node node \<and> ?R w')"
      by (rule leads_weaken [OF acts_leads [OF acts_dynamic [OF laws E dyn filter entry request cmd b m(5)]]]) auto
    ultimately show "leads (if inDynamic b then processIssueTypeInDynamicProfile E b ?node else processIssueTypeInStaticProfile E b ?node)
        (w\<lparr>tick := t\<rparr>) (\<lambda>(b', node) w'. live_buf b' \<and> live_node node \<and> ?R w')" by simp
  qed
qed

text \<open>The base of a request is a request, and not one of the names with a meaning of their own.\<close>

lemma request_base:
  assumes "issue_request n sn sfx"
  shows "issue_request n sn []" "\<not> suffix APPEND_SUFFIX (n @ ''.'' @ sn)" "n @ ''.'' @ sn \<noteq> DEEP_SLEEP_STR"
proof -
  have "CHR ''_'' \<in> set APPEND_SUFFIX" by (simp add: APPEND_SUFFIX_def)
  then show app: "\<not> suffix APPEND_SUFFIX (n @ ''.'' @ sn)"
    using request_parts(5) [OF assms] set_mono_suffix [of APPEND_SUFFIX "n @ ''.'' @ sn"] by blast
  then show "issue_request n sn []" using assms by (simp add: issue_request_def)
  have "CHR ''.'' \<notin> set DEEP_SLEEP_STR" by (simp add: DEEP_SLEEP_STR_def)
  moreover have "CHR ''.'' \<in> set (n @ ''.'' @ sn)" by simp
  ultimately show "n @ ''.'' @ sn \<noteq> DEEP_SLEEP_STR" by metis
qed

text \<open>The event of a finished installation that finds its issue and an empty queue, and the round of the worker after it.\<close>

lemma installation_round:
  assumes "\<forall>t. malloc_ok E t" and "\<forall>t. msgsnd_ok E t" and "\<forall>t. msgrcv_ok E t"
    and "cache_rep (cache (sys_world s)) ((Own pkg, Own issue) # its)" and "mq (sys_world s) = []" and "thread_on s"
    and "\<not> suffix APPEND_SUFFIX issue" and "issue \<noteq> DEEP_SLEEP_STR"
  shows "\<exists>s1 w1. perform E P (RdmEvent (install_event pkg path True)) s = Running s1
    \<and> trace w1 = trace (sys_world s) \<and> cache_rep (cache w1) its \<and> mq w1 = []
    \<and> perform E P Worker s1 =
        (case processIssueTypeEvent E (install_message issue False path) w1 of
           Ret _ w2 \<Rightarrow> Running (s\<lparr>sys_world := w2\<rparr>) | Crash e w2 \<Rightarrow> Down e (s\<lparr>sys_world := w2\<rparr>))"
proof -
  let ?m = "install_message issue False path"
  have "List.find (has_name pkg) ((Own pkg, Own issue) # its) = Some (Own pkg, Own issue)" by (simp add: has_name_def)
  from install_event_found [OF assms(1,2,4) this, of path True] installed_message_marked [of False issue issue path] assms(5,7)
  obtain w' where w': "rdmManagerEventHandler E (install_event pkg path True) (sys_world s) = Ret () w'"
    "trace w' = trace (sys_world s)" "cache_rep (cache w') its" "mq w' = [?m]" by (auto simp: has_name_def)
  let ?w1 = "w'\<lparr>tick := Suc (tick w'), mq := []\<rparr>"
  have m: "mtype ?m = EVENT_MSG" "live_buf ?m"
    using assms(8) by (simp_all add: install_message_def RRD_data_buff_init_def live_buf_def)
  from worker_round_run [OF assms(3) w'(4) m, of P] w' assms(6) show ?thesis
    by (intro exI [of _ "s\<lparr>sys_world := w'\<rparr>"] exI [of _ ?w1]) (auto simp: on_world_def split: run.splits)
qed

section \<open>Properties\<close>

text \<open>
  C5: An issue that is not on the device, from the bus through the download of its package
  to the report. The handler and the worker succeed and leave one install request and the
  entry of the issue in the cache; the event of the finished installation and the next
  round of the worker succeed, the profile of the package is read from the path of the
  event, and its command is filtered and run like that of a built-in issue. The cache is
  as before the request. The suffix of the request is lost: command and report carry only
  the base of the issue.
\<close>

theorem package_issue_reported:
  assumes "ready_platform E" and "\<forall>t. msgsnd_ok E t" and "\<forall>t. msgrcv_ok E t" and "\<forall>t p v. rbus_set_ok E t p v"
    and "not_on_device E n sn" and "issue_request n sn sfx" and "length n \<le> 34"
    and "mq (sys_world s) = []" and "thread_on s" and "cache_rep (cache (sys_world s)) its"
    and "cjson_laws (json E')" and "ready_platform E'" and "\<forall>t. msgsnd_ok E' t" and "\<forall>t. msgrcv_ok E' t"
    and "profile_at E' (path @ RRD_JSON_FILE) root" and "filter_profile E' root f"
    and "profile_entry (json E') root n sn tmo cmd" and "length cmd < 2 ^ 54"
  shows "\<exists>s1 s2 s3 s4 es. perform E P (IssueEvent (Some (Some (n @ ''.'' @ sn @ sfx)))) s = Running s1
    \<and> perform E P Worker s1 = Running s2 \<and> requested (sys_world s) its n (n @ ''.'' @ sn) (sys_world s2)
    \<and> perform E' P (RdmEvent (install_event (RDM_PKG_PREFIX @ n) path True)) s2 = Running s3
    \<and> perform E' P Worker s3 = Running s4
    \<and> trace (sys_world s4) = trace (sys_world s2) @ es \<and> run_events E' f n (n @ ''.'' @ sn) (n @ ''.'' @ sn) tmo cmd es
    \<and> cache_rep (cache (sys_world s4)) its \<and> mq (sys_world s4) = []"
proof -
  let ?v = "n @ ''.'' @ sn @ sfx" and ?b = "n @ ''.'' @ sn" and ?pkg = "RDM_PKG_PREFIX @ n"
  have mem: "\<forall>t. malloc_ok E t" "\<forall>t. malloc_ok E' t" "?v \<noteq> []"
    using assms(1,12) by (simp_all add: ready_platform_def smooth_def)
  from issue_round [OF mem(1) assms(2,3) mem(3) request_parts(4) [OF assms(6)] assms(8,9)] obtain s1 w1 where
    s1: "perform E P (IssueEvent (Some (Some ?v))) s = Running s1"
    and w1: "trace w1 = trace (sys_world s)" "cache w1 = cache (sys_world s)" "mq w1 = []"
    and worker: "perform E P Worker s1 = (case processIssueTypeEvent E (issue_message ?v) w1 of
         Ret _ w2 \<Rightarrow> Running (s\<lparr>sys_world := w2\<rparr>) | Crash e w2 \<Rightarrow> Down e (s\<lparr>sys_world := w2\<rparr>))" by blast
  have "leads (processIssueTypeEvent E (issue_message ?v)) w1 (\<lambda>_. requested w1 its n ?b)"
  proof (rule request_message_leads [OF assms(1,6)])
    fix b t
    assume b: "request_buffer (issue_message ?v) ?b sfx b"
    then have "live_buf b" unfolding issue_message_plain [OF assms(6)]
      by (simp add: request_buffer_def live_buf_def RRD_data_buff_init_def)
    with b assms(10) w1(2) have "leads (processIssueTypeInStaticProfile E b \<lparr>Node = Own n, subNode = Own sn\<rparr>) (w1\<lparr>tick := t\<rparr>)
        (\<lambda>(b', node) w'. live_buf b' \<and> live_node node \<and> requested (w1\<lparr>tick := t\<rparr>) its n ?b w')"
      by (intro leads_request [OF assms(1,4,5,7)]) (simp_all add: request_buffer_def)
    then show "leads (processIssueTypeInStaticProfile E b \<lparr>Node = Own n, subNode = Own sn\<rparr>) (w1\<lparr>tick := t\<rparr>)
        (\<lambda>(b', node) w'. live_buf b' \<and> live_node node \<and> requested w1 its n ?b w')"
      by (simp add: requested_def)
  qed
  with worker obtain w2 where s2: "perform E P Worker s1 = Running (s\<lparr>sys_world := w2\<rparr>)" and w2: "requested w1 its n ?b w2"
    unfolding leads_def by fastforce
  let ?s2 = "s\<lparr>sys_world := w2\<rparr>"
  have "cache_rep (cache (sys_world ?s2)) ((Own ?pkg, Own ?b) # its)" "mq (sys_world ?s2) = []" "thread_on ?s2"
    using w2 w1 assms(9) by (simp_all add: requested_def)
  from installation_round [OF mem(2) assms(13,14) this request_base(2,3) [OF assms(6)], of P path] obtain s3 w3 where
    s3: "perform E' P (RdmEvent (install_event ?pkg path True)) ?s2 = Running s3"
    and w3: "trace w3 = trace w2" "cache_rep (cache w3) its" "mq w3 = []"
    and worker': "perform E' P Worker s3 = (case processIssueTypeEvent E' (install_message ?b False path) w3 of
         Ret _ w4 \<Rightarrow> Running (?s2\<lparr>sys_world := w4\<rparr>) | Crash e w4 \<Rightarrow> Down e (?s2\<lparr>sys_world := w4\<rparr>))" by auto
  from leads_installed [OF assms(11,12,15-17) request_base(1) [OF assms(6)] assms(18), of w3] worker' obtain w4 es where
    s4: "perform E' P Worker s3 = Running (s\<lparr>sys_world := w4\<rparr>)"
    and w4: "trace w4 = trace w3 @ es" "cache w4 = cache w3" "mq w4 = mq w3" "run_events E' f n ?b ?b tmo cmd es"
    unfolding leads_def by auto
  have "requested (sys_world s) its n ?b w2" using w2 w1 assms(8) by (simp add: requested_def)
  with s1 s2 s3 s4 w3 w4 show ?thesis
    by (intro exI [of _ s1] exI [of _ ?s2] exI [of _ s3] exI [of _ "s\<lparr>sys_world := w4\<rparr>"] exI [of _ es]) simp
qed

text \<open>The small device after a package with an own profile was installed; this profile has no list of forbidden strings.\<close>

definition audio_profile :: jnode where
  "audio_profile = (None, JObj [(''Audio'', JObj [(''Mute'', JObj [(''Commands'', JStr ''amixer get Master'')])])])"

definition audio_path :: string where
  "audio_path = ''/media/apps/RDK-RRD-Audio''"

definition audio_lab :: "jnode platform" where
  "audio_lab = calm bench_build
     (doc_api (\<lambda>s. if s = ''profile'' then Some lab_profile else if s = ''package'' then Some audio_profile else None))
     (\<lambda>f. if f = RRD_JSON_FILE then Some ''profile'' else if f = audio_path @ RRD_JSON_FILE then Some ''package'' else None)"

theorem package_issue_reported_witness:
  "\<exists>s1 s2 s3 s4 es. perform lab plain_api (IssueEvent (Some (Some ''Audio.Mute_7''))) \<lparr>sys_world = fresh_world, blobs = [], thread_on = True\<rparr>
      = Running s1
    \<and> perform lab plain_api Worker s1 = Running s2 \<and> requested fresh_world [] ''Audio'' ''Audio.Mute'' (sys_world s2)
    \<and> perform audio_lab plain_api (RdmEvent (install_event ''RDK-RRD-Audio'' audio_path True)) s2 = Running s3
    \<and> perform audio_lab plain_api Worker s3 = Running s4
    \<and> trace (sys_world s4) = trace (sys_world s2) @ es
    \<and> run_events audio_lab lab_profile ''Audio'' ''Audio.Mute'' ''Audio.Mute'' 0 ''\"amixer get Master\"'' es
    \<and> \<not> refused (json audio_lab) lab_profile ''\"amixer get Master\"''"
proof -
  let ?s = "\<lparr>sys_world = fresh_world, blobs = [], thread_on = True\<rparr>"
  have "ready_platform lab" "ready_platform audio_lab" by (simp_all add: ready_platform_def smooth_def lab_def audio_lab_def)
  moreover have "\<forall>t. msgsnd_ok lab t" "\<forall>t. msgrcv_ok lab t" "\<forall>t p v. rbus_set_ok lab t p v"
    "\<forall>t. msgsnd_ok audio_lab t" "\<forall>t. msgrcv_ok audio_lab t" by (simp_all add: lab_def audio_lab_def)
  moreover have "findIssueInParsedJSON (json lab) \<lparr>Node = Own ''Audio'', subNode = Own ''Mute''\<rparr> (Some lab_profile) = Inr False"
    by code_simp
  then have "not_on_device lab ''Audio'' ''Mute''" unfolding not_on_device_def
    by (intro conjI exI [of _ lab_profile])
      (simp_all add: profile_at_def lab_def c_str_def dyn_json_path_def bench_build_def RRD_JSON_FILE_def RRD_MEDIA_APPS_def)
  moreover have "issue_request ''Audio'' ''Mute'' ''_7''" by code_simp
  moreover have "cjson_laws (json audio_lab)" by (simp add: audio_lab_def doc.cjson_laws_axioms)
  moreover have "profile_at audio_lab (audio_path @ RRD_JSON_FILE) audio_profile"
    by (simp add: profile_at_def audio_lab_def c_str_def audio_path_def RRD_JSON_FILE_def)
  moreover have "sanity_check (json audio_lab) (Some audio_profile) = None" by code_simp
  then have "filter_profile audio_lab audio_profile lab_profile"
    by (simp add: filter_profile_def profile_at_def audio_lab_def c_str_def)
  moreover have "profile_entry (json audio_lab) audio_profile ''Audio'' ''Mute'' 0 ''\"amixer get Master\"''" by code_simp
  moreover have "\<not> refused (json audio_lab) lab_profile ''\"amixer get Master\"''" unfolding refused_def by code_simp
  moreover have "length ''Audio'' \<le> 34" "length ''\"amixer get Master\"'' < 2 ^ 54" by simp_all
  moreover have "mq (sys_world ?s) = []" "thread_on ?s" "cache_rep (cache (sys_world ?s)) []" by (simp_all add: cache_rep_start)
  moreover have "RDM_PKG_PREFIX @ ''Audio'' = ''RDK-RRD-Audio''" by (simp add: RDM_PKG_PREFIX_def)
  ultimately show ?thesis
    using package_issue_reported [of lab "''Audio''" "''Mute''" "''_7''" ?s "[]" audio_lab audio_path audio_profile lab_profile 0
      "''\"amixer get Master\"''" plain_api] by (simp only: append.simps sys.select_convs simp_thms) blast
qed

end
