(* ===== verification/Spec2Isabelle.thy ===== *)
theory Spec2Isabelle
  imports RRD_Tar RRD_Sysinfo RRD_Load RRD_Messages RRD_Threads RRD_Package
begin

text \<open>
  Verification of the RDK remote debugger daemon (\<^verbatim>\<open>src/src/*.c\<close>).

  \<^bold>\<open>The program.\<close> The daemon receives issue types over a message bus, looks up the shell
  commands of an issue in JSON profiles, filters them, runs them as systemd services,
  collects the output, packs it into a tar archive and uploads it. Profiles that are not
  on the device are requested as packages from a download manager; a cache remembers which
  issue waits for which package. Bus callbacks only put messages into a System V queue; a
  worker thread takes them out and does the work. A web configuration document is a second
  source of issues. Two bus properties select and list the categories of the profile.

  \<^bold>\<open>Theories and sources.\<close>
  \<^item> \<open>RRD_Prelude\<close>: faults of the C machine, owned pointers, the C string functions that
    the sources call, and their lemmas.
  \<^item> \<open>RRD_Types\<close> (\<^verbatim>\<open>rrdCommon.h\<close>): the message buffer, issue records, constants, the build
    switches; the JSON library as a record \<open>cjson_api\<close> with the locale \<open>cjson_laws\<close> of its
    documented behaviour, interpreted on a document model.
  \<^item> \<open>RRD_Sanity\<close> (\<^verbatim>\<open>rrdCommandSanity.c\<close>): the command filter, the background rewriting and
    the macro replacement, loop by loop.
  \<^item> \<open>RRD_Issue\<close> (parts of \<^verbatim>\<open>rrdJsonParser.c\<close>, \<^verbatim>\<open>rrdEventProcess.c\<close>, \<^verbatim>\<open>rrdExecuteScript.c\<close>):
    splitting and cleaning of issue types, node names, device profile names.
  \<^item> \<open>RRD_Cache\<close> (\<^verbatim>\<open>rrdRunCmdThread.c\<close>, package cache): the doubly linked list on an
    explicit heap; it refines a list, and the locale of its contract is interpreted on it.
  \<^item> \<open>RRD_World\<close>: the world (clock, trace of outside actions, cache, queue, globals), the
    platform that answers every library and system call, statements as functions on worlds,
    and the small logics for them (\<open>keeps\<close>, \<open>runs\<close>, \<open>reads\<close>, \<open>acts\<close>, \<open>asks\<close>, \<open>safe\<close>; \<open>leads\<close> in
    \<open>RRD_Request\<close>).
  \<^item> \<open>RRD_Config\<close> (\<^verbatim>\<open>rrd_config.c\<close>), \<open>RRD_Archive\<close> and \<open>RRD_Tar\<close> (\<^verbatim>\<open>rrd_archive.c\<close>: model; a tar
    reader and the proofs), \<open>RRD_Upload\<close> (\<^verbatim>\<open>rrd_upload.c\<close>, \<^verbatim>\<open>uploadRRDLogs.c\<close>, \<^verbatim>\<open>rrd_logproc.c\<close>,
    MAC address and time stamp of \<^verbatim>\<open>rrd_sysinfo.c\<close>): configuration, archive and upload of the report.
  \<^item> \<open>RRD_Sysinfo\<close> (\<^verbatim>\<open>rrd_sysinfo.c\<close>, file and directory helpers): a path-based file system;
    the walk over a directory tree is a partial function. \<open>RRD_Load\<close> (end of \<^verbatim>\<open>rrd_archive.c\<close>):
    the processor load in single precision, with its rounding errors bounded, and the priority.
  \<^item> \<open>RRD_Exec\<close> (\<^verbatim>\<open>rrdRunCmdThread.c\<close>, \<^verbatim>\<open>rrdExecuteScript.c\<close>): running a command.
  \<^item> \<open>RRD_Profile\<close> (\<^verbatim>\<open>rrdJsonParser.c\<close>): reading profiles, looking up, filtering and executing
    the commands of an issue, uploading the report.
  \<^item> \<open>RRD_Dynamic\<close> (\<^verbatim>\<open>rrdDynamic.c\<close>): download requests and deep-sleep messages.
  \<^item> \<open>RRD_Event\<close> (\<^verbatim>\<open>rrdEventProcess.c\<close>): issue messages; the locale \<open>step_invariant\<close> lifts an
    invariant of single executions to whole messages and is interpreted for the cache and
    the queue and instantiated for the permission of commands.
  \<^item> \<open>RRD_Memory\<close>: no statement of the worker uses or frees an object after it was freed.
  \<^item> \<open>RRD_Interface\<close> (\<^verbatim>\<open>rrdInterface.c\<close>, \<^verbatim>\<open>rrdIarmEvents.c\<close>): the queue, all event handlers,
    profile category and profile data. \<open>RRD_Bus\<close>: subscribing and unsubscribing.
  \<^item> \<open>RRD_Threads\<close> (the users of the cache in \<^verbatim>\<open>rrdIarmEvents.c\<close>, \<^verbatim>\<open>rrdInterface.c\<close>,
    \<^verbatim>\<open>rrdDynamic.c\<close>): the handlers of finished downloads cut into pieces, and the pieces of any
    number of bus threads interleaved with the request of the worker.
  \<^item> \<open>RRD_WebCfg\<close> (\<^verbatim>\<open>rrdMsgPackDecoder.c\<close>): the web configuration decoder.
  \<^item> \<open>RRD_Main\<close> (\<^verbatim>\<open>rrdMain.c\<close>): dispatch of messages, start and end, and the transition system
    of handlers, worker and web configuration framework. \<open>RRD_Messages\<close>: the form of the
    messages that the senders put into the queue. \<open>RRD_Request\<close> and \<open>RRD_Package\<close>: one request
    followed through all of these theories, from the bus to the report, for an issue of the
    built-in profile and for one that needs the download of a package.

  \<^bold>\<open>What is shown.\<close> The filter rejects exactly the commands with a forbidden string, and
  through all layers no other command is run, in any reachable state and up to any crash;
  a request of the built-in profile, or of a package after its download, does run its
  filtered command once and reports it.
  The memory of messages, nodes, cache entries and documents is used safely in every
  state reached call by call; the faults that remain possible are stated exactly (for instance the
  buffer overrun of the deep-sleep request, the NULL dereferences of append requests and
  of incomplete web documents). Round trips: archive and tar reader, download request and
  finished installation, web document and issue list, profile category and its file,
  append mark, JSON quoting. The cache refines a list. Every queued message has one of the
  forms that its receiver expects; what its sender reads of it afterwards is harmless for
  issues and can be stale for the other types. The worker gives no buffer of a known type
  back. Threads whose pieces interleave share the cache safely while they handle different
  packages; two handlers of one package use a freed node, and an event that overtakes the
  entry of its request is lost. Loops that could run for ever end when the platform lets them.

  \<^bold>\<open>Conventions.\<close> C strings are lists of characters without the terminator; where a missing
  terminator or a buffer size matters the block of memory is modelled. A pointer is NULL,
  alive or dangling. Machine integers are words where they can wrap. Every answer of the
  platform may depend on the number of questions asked before, so a theorem without
  assumptions on the platform covers every combination of failures. Fuel occurs in the
  cache walks (as many steps as nodes were ever allocated, shown to be enough), in the wait
  for the power controller (enough fuel is shown to give the result) and in the MessagePack
  reader that is used only for examples.

  \<^bold>\<open>Not modelled.\<close> Log output (apart from reads of memory it makes that may fail) and
  telemetry spans; the unit-test and coverage builds; the release of issue records, which
  the execution of their command frees on every path, and of parsed documents. The JSON,
  MessagePack, base64, bus, upload and compression libraries are parameters. In the
  transition system of \<open>RRD_Main\<close> handlers and worker interleave call by call. What can overlap
  within a call is modelled where the code shares data outside a lock: the entries of the
  cache, piece by piece, in \<open>RRD_Threads\<close> (the pieces are shown to make up the handlers), and the
  log line of a sender whose message the worker has already taken, in both orders, in
  \<open>RRD_Main\<close>. Reorderings below one lock or one statement are not modelled.
\<close>

section \<open>Properties of the system\<close>



text \<open>
  C2: In every reachable state the cache is a well-formed list, every buffer in the queue
  and every web configuration request is alive; and no step of a handler, of the worker
  or of the framework reads or frees an object that was freed.
\<close>

theorem system_memory_safe:
  assumes "reachable E P s"
  shows "(\<exists>its. cache_rep (cache (sys_world s)) its) \<and> list_all live_buf (mq (sys_world s)) \<and> list_all live_exec (blobs s)
    \<and> (\<forall>a. case perform E P a s of Running _ \<Rightarrow> True | Down e _ \<Rightarrow> e \<notin> {UseAfterFree, DoubleFree})"
proof -
  from reachable_inv [OF assms] have inv: "sys_inv s" .
  have "case perform E P a s of Running _ \<Rightarrow> True | Down e _ \<Rightarrow> e \<notin> {UseAfterFree, DoubleFree}" for a
    using perform_ok [OF inv, of E P a] by (cases "perform E P a s") (auto simp: benign_def)
  with inv show ?thesis by (simp add: sys_inv_def sys_ok_def cache_wf_def queue_live_def)
qed

theorem system_memory_safe_witness:
  "\<exists>s. reachable lab plain_api s \<and> List.member (trace (sys_world s)) lab_run
    \<and> (\<exists>its. cache_rep (cache (sys_world s)) its) \<and> list_all live_buf (mq (sys_world s))"
proof -
  obtain s where "reachable lab plain_api s" "List.member (trace (sys_world s)) lab_run" using lab_run_reached by blast
  then show ?thesis using system_memory_safe by blast
qed

text \<open>
  C3: An issue that arrives over the bus while the queue is empty is the next thing the
  worker does: the handler does not fail, the worker has a message, and its round is the
  processing of exactly that issue, with the append mark taken off and noted, in a world
  whose trace and cache are unchanged.
\<close>

theorem issue_event_processed:
  assumes "\<forall>t. malloc_ok E t" and "\<forall>t. msgsnd_ok E t" and "\<forall>t. msgrcv_ok E t"
    and "v \<noteq> []" and "NUL \<notin> set v" and "mq (sys_world s) = []" and "thread_on s"
  shows "\<exists>s1 w1. perform E P (IssueEvent (Some (Some v))) s = Running s1 \<and> enabled (bld E) Worker s1
    \<and> trace w1 = trace (sys_world s) \<and> cache w1 = cache (sys_world s) \<and> mq w1 = []
    \<and> perform E P Worker s1 =
        (case processIssueTypeEvent E (issue_message v) w1 of
           Ret _ w2 \<Rightarrow> Running (s\<lparr>sys_world := w2\<rparr>) | Crash e w2 \<Rightarrow> Down e (s\<lparr>sys_world := w2\<rparr>))"
  by (rule issue_round [OF assms])

theorem issue_event_processed_witness:
  "\<exists>s1 w1. perform lab plain_api (IssueEvent (Some (Some ''Device.Info_apnd''))) \<lparr>sys_world = fresh_world, blobs = [], thread_on = True\<rparr>
        = Running s1 \<and> enabled (bld lab) Worker s1
    \<and> trace w1 = trace (sys_world \<lparr>sys_world = fresh_world, blobs = [], thread_on = True\<rparr>)
    \<and> cache w1 = cache (sys_world \<lparr>sys_world = fresh_world, blobs = [], thread_on = True\<rparr>) \<and> mq w1 = []
    \<and> perform lab plain_api Worker s1 =
        (case processIssueTypeEvent lab (issue_message ''Device.Info_apnd'') w1 of
           Ret _ w2 \<Rightarrow> Running (\<lparr>sys_world = fresh_world, blobs = [], thread_on = True\<rparr>\<lparr>sys_world := w2\<rparr>)
         | Crash e w2 \<Rightarrow> Down e (\<lparr>sys_world = fresh_world, blobs = [], thread_on = True\<rparr>\<lparr>sys_world := w2\<rparr>))"
  by (rule issue_event_processed) (simp_all add: lab_def)

end
